(* ===== verification/RingDB_Prelude.thy ===== *)
theory RingDB_Prelude
  imports Main "HOL-Library.Word" "HOL-Library.List_Lexorder" "HOL-Library.Multiset"
begin

text \<open>
  Shared vocabulary of the RingDB development: bytes and machine words, the result type of code
  that can run into undefined behaviour, bounds-checked access to C arrays, \<open>memcmp\<close> and the
  order it induces on keys, and the lemmas on byte blocks that the components use.
\<close>

section \<open>Lemma collections\<close>

named_theorems res_simps \<open>rewriting of the result monad\<close>
named_theorems block_simps \<open>reading a byte block after writing one\<close>

section \<open>Machine types\<close>

type_synonym byte = "8 word"
type_synonym uint = "32 word"
type_synonym usize = "64 word"

text \<open>A key is the list of its \<open>KEY_LENGTH\<close> bytes; \<open>List_Lexorder\<close> orders keys.\<close>

type_synonym key = "byte list"

lemma unat_2p: "n < LENGTH('a) \<Longrightarrow> unat (2 ^ n :: 'a::len word) = 2 ^ n"
  using unat_of_nat [of "2 ^ n", where 'a = 'a] by simp

lemma uint_2p_small: "n < LENGTH('a) \<Longrightarrow> uint (2 ^ n :: 'a::len word) = 2 ^ n"
  by (simp add: uint_nat unat_2p)

lemma sint_of_small_nat: "n < 2 ^ 31 \<Longrightarrow> sint (of_nat n :: uint) = int n"
  by (simp add: sint_uint uint_nat unat_of_nat signed_take_bit_int_eq_self_iff)

text \<open>The \<open>-1\<close> that the code assigns to \<open>unsigned int\<close> variables.\<close>

lemma unat_uint_minus_1 [simp]: "unat (- 1 :: uint) = 4294967295"
  by (simp add: unsigned_minus_1_eq_mask mask_eq_exp_minus_1)

section \<open>Undefined behaviour as a value\<close>

text \<open>
  The C++ of RingDB indexes raw arrays and dereferences raw pointers. Every such access is total in
  the model: it either yields a value or the kind of undefined behaviour the source would run into.
\<close>

datatype ub =
    OutOfBounds      \<comment> \<open>array access outside the array\<close>
  | NullDeref        \<comment> \<open>dereference of \<open>nullptr\<close>\<close>
  | WildPointer      \<comment> \<open>dereference of a pointer that was never initialised\<close>
  | UseAfterFree     \<comment> \<open>dereference of a deleted node\<close>
  | DivByZero        \<comment> \<open>integer division or remainder by zero\<close>
  | Indeterminate    \<comment> \<open>use of a variable that was never assigned\<close>
  | BadRange         \<comment> \<open>a \<open>std::fill\<close> whose end lies before its start\<close>
  | FloatRange       \<comment> \<open>conversion of a floating-point value the integer type cannot hold\<close>

type_synonym 'a res = "ub + 'a"

definition rbind :: "'a res \<Rightarrow> ('a \<Rightarrow> 'b res) \<Rightarrow> 'b res" where
  "rbind m f = (case m of Inl e \<Rightarrow> Inl e | Inr x \<Rightarrow> f x)"

definition rassert :: "ub \<Rightarrow> bool \<Rightarrow> unit res" where
  "rassert e b = (if b then Inr () else Inl e)"

fun rfold :: "('a \<Rightarrow> 's \<Rightarrow> 's res) \<Rightarrow> 'a list \<Rightarrow> 's \<Rightarrow> 's res" where
  "rfold f [] s = Inr s"
| "rfold f (x # xs) s = rbind (f x s) (rfold f xs)"

lemma rbind_simps [simp, res_simps]:
  "rbind (Inl e) f = Inl e"
  "rbind (Inr x) f = f x"
  by (simp_all add: rbind_def)

lemma rbind_cong [fundef_cong]:
  "m = m' \<Longrightarrow> (\<And>x. m' = Inr x \<Longrightarrow> f x = f' x) \<Longrightarrow> rbind m f = rbind m' f'"
  by (cases m) auto

lemma rbind_assoc [res_simps]: "rbind (rbind m f) g = rbind m (\<lambda>x. rbind (f x) g)"
  by (cases m) simp_all

lemma rbind_eq_Inr [res_simps]: "rbind m f = Inr y \<longleftrightarrow> (\<exists>x. m = Inr x \<and> f x = Inr y)"
  by (cases m) simp_all

lemma rbind_eq_Inl [res_simps]:
  "rbind m f = Inl e \<longleftrightarrow> m = Inl e \<or> (\<exists>x. m = Inr x \<and> f x = Inl e)"
  by (cases m) simp_all

lemma rassert_simps [simp, res_simps]:
  "b \<Longrightarrow> rassert e b = Inr ()"
  "\<not> b \<Longrightarrow> rassert e b = Inl e"
  by (simp_all add: rassert_def)

lemma rassert_eq_Inr [res_simps]: "rassert e b = Inr u \<longleftrightarrow> b"
  by (simp add: rassert_def)

lemma rfold_append: "rfold f (xs @ ys) s = rbind (rfold f xs s) (rfold f ys)"
proof (induction xs arbitrary: s)
  case (Cons x xs)
  then show ?case by (cases "f x s") simp_all
qed simp

text \<open>A fold whose steps all succeed is a plain fold, and keeps what each step keeps.\<close>

lemma rfold_Inr:
  assumes "\<And>x s. x \<in> set xs \<Longrightarrow> I s \<Longrightarrow> f x s = Inr (g x s) \<and> I (g x s)" and "I s"
  shows "rfold f xs s = Inr (fold g xs s) \<and> I (fold g xs s)"
  using assms by (induction xs arbitrary: s) simp_all

lemma rfold_invariant:
  assumes "rfold f xs s = Inr t" and "P s"
    and "\<And>x s t. x \<in> set xs \<Longrightarrow> f x s = Inr t \<Longrightarrow> P s \<Longrightarrow> P t"
  shows "P t"
  using assms
proof (induction xs arbitrary: s)
  case Nil
  then show ?case by simp
next
  case (Cons x xs)
  from Cons.prems(1) obtain u where u: "f x s = Inr u" and rest: "rfold f xs u = Inr t"
    by (auto simp: rbind_eq_Inr)
  have "P u" using list.set_intros(1) u Cons.prems(2) by (rule Cons.prems(3))
  from rest this show ?case
  proof (rule Cons.IH)
    fix y s t assume "y \<in> set xs" "f y s = Inr t" "P s"
    then show "P t" using Cons.prems(3) [of y s t] by simp
  qed
qed

text \<open>
  Code that contains a loop that may not end returns an option: \<open>None\<close> is a run that never
  returns, \<open>Some (Inl e)\<close> one that runs into undefined behaviour.
\<close>

definition lbind :: "'a res option \<Rightarrow> ('a \<Rightarrow> 'b res option) \<Rightarrow> 'b res option" where
  "lbind m f = (case m of None \<Rightarrow> None | Some (Inl e) \<Rightarrow> Some (Inl e) | Some (Inr x) \<Rightarrow> f x)"

lemma lbind_simps [simp, res_simps]:
  "lbind None f = None"
  "lbind (Some (Inl e)) f = Some (Inl e)"
  "lbind (Some (Inr x)) f = f x"
  by (simp_all add: lbind_def)

fun lfold :: "('a \<Rightarrow> 's \<Rightarrow> 's res option) \<Rightarrow> 'a list \<Rightarrow> 's \<Rightarrow> 's res option" where
  "lfold f [] s = Some (Inr s)"
| "lfold f (x # xs) s = lbind (f x s) (lfold f xs)"

lemma lfold_append: "lfold f (xs @ ys) s = lbind (lfold f xs s) (lfold f ys)"
  by (induction xs arbitrary: s) (auto simp: lbind_def split: option.split sum.split)

lemma lbind_eq_Inr [res_simps]:
  "lbind m f = Some (Inr y) \<longleftrightarrow> (\<exists>x. m = Some (Inr x) \<and> f x = Some (Inr y))"
  by (auto simp: lbind_def split: option.splits sum.splits)

lemma lfold_invariant:
  assumes "lfold f xs s = Some (Inr t)" and "P s"
    and "\<And>x s t. x \<in> set xs \<Longrightarrow> f x s = Some (Inr t) \<Longrightarrow> P s \<Longrightarrow> P t"
  shows "P t"
  using assms by (induction xs arbitrary: s) (auto simp: lbind_eq_Inr)

lemma lbind_Some_rbind: "lbind (Some m) (\<lambda>x. Some (f x)) = Some (rbind m f)"
  by (cases m) simp_all

section \<open>Array access\<close>

definition rnth :: "'a list \<Rightarrow> nat \<Rightarrow> 'a res" where
  "rnth xs i = (if i < length xs then Inr (xs ! i) else Inl OutOfBounds)"

definition rupd :: "'a list \<Rightarrow> nat \<Rightarrow> 'a \<Rightarrow> 'a list res" where
  "rupd xs i v = (if i < length xs then Inr (xs[i := v]) else Inl OutOfBounds)"

definition block :: "'a list \<Rightarrow> nat \<Rightarrow> nat \<Rightarrow> 'a list" where
  "block xs off n = take n (drop off xs)"

definition blit :: "'a list \<Rightarrow> nat \<Rightarrow> 'a list \<Rightarrow> 'a list" where
  "blit xs off ys = take off xs @ ys @ drop (off + length ys) xs"

text \<open>Reading \<open>n\<close> bytes at an offset (the source side of a \<open>memcpy\<close> or \<open>memcmp\<close>).\<close>

definition rslice :: "'a list \<Rightarrow> nat \<Rightarrow> nat \<Rightarrow> 'a list res" where
  "rslice xs off n = (if off + n \<le> length xs then Inr (block xs off n) else Inl OutOfBounds)"

text \<open>Writing a block at an offset (the destination side of a \<open>memcpy\<close>).\<close>

definition rblit :: "'a list \<Rightarrow> nat \<Rightarrow> 'a list \<Rightarrow> 'a list res" where
  "rblit xs off ys = (if off + length ys \<le> length xs then Inr (blit xs off ys) else Inl OutOfBounds)"

text \<open>\<open>std::fill(xs + a, xs + b, c)\<close>.\<close>

definition rfill :: "'a list \<Rightarrow> nat \<Rightarrow> nat \<Rightarrow> 'a \<Rightarrow> 'a list res" where
  "rfill xs a b c =
     (if b < a then Inl BadRange
      else if length xs < b then Inl OutOfBounds
      else Inr (blit xs a (replicate (b - a) c)))"

lemma rnth_simps [simp]:
  "i < length xs \<Longrightarrow> rnth xs i = Inr (xs ! i)"
  "length xs \<le> i \<Longrightarrow> rnth xs i = Inl OutOfBounds"
  by (simp_all add: rnth_def)

lemma rupd_simps [simp]:
  "i < length xs \<Longrightarrow> rupd xs i v = Inr (xs[i := v])"
  "length xs \<le> i \<Longrightarrow> rupd xs i v = Inl OutOfBounds"
  by (simp_all add: rupd_def)

lemma rslice_simps [simp]:
  "off + n \<le> length xs \<Longrightarrow> rslice xs off n = Inr (block xs off n)"
  "length xs < off + n \<Longrightarrow> rslice xs off n = Inl OutOfBounds"
  by (simp_all add: rslice_def)

lemma rblit_simps [simp]:
  "off + length ys \<le> length xs \<Longrightarrow> rblit xs off ys = Inr (blit xs off ys)"
  "length xs < off + length ys \<Longrightarrow> rblit xs off ys = Inl OutOfBounds"
  by (simp_all add: rblit_def)

lemma rslice_eq_Inr:
  "rslice xs off n = Inr ys \<longleftrightarrow> off + n \<le> length xs \<and> ys = block xs off n"
  by (auto simp: rslice_def)

lemma rblit_eq_Inr:
  "rblit xs off ys = Inr zs \<longleftrightarrow> off + length ys \<le> length xs \<and> zs = blit xs off ys"
  by (auto simp: rblit_def)

lemma length_block [simp]: "length (block xs off n) = min n (length xs - off)"
  by (simp add: block_def)

lemma length_blit [simp]: "off + length ys \<le> length xs \<Longrightarrow> length (blit xs off ys) = length xs"
  by (simp add: blit_def)

lemma rupd_set: "rupd xs i x = Inr ys \<Longrightarrow> set ys \<subseteq> insert x (set xs)"
  by (auto simp: rupd_def set_update_subset_insert split: if_splits dest!: set_update_subset_insert [THEN subsetD])

lemma rupd_length: "rupd xs i x = Inr ys \<Longrightarrow> length ys = length xs"
  by (auto simp: rupd_def split: if_splits)

lemma rblit_length: "rblit xs i ys = Inr zs \<Longrightarrow> length zs = length xs"
  by (auto simp: rblit_def split: if_splits)

lemma rnth_set: "rnth xs i = Inr x \<Longrightarrow> x \<in> set xs"
  by (auto simp: rnth_def split: if_splits)

lemma nth_block [simp]: "off + n \<le> length xs \<Longrightarrow> i < n \<Longrightarrow> block xs off n ! i = xs ! (off + i)"
  by (simp add: block_def)

lemma nth_blit:
  assumes "off + length ys \<le> length xs" and "i < length xs"
  shows "blit xs off ys ! i =
    (if off \<le> i \<and> i < off + length ys then ys ! (i - off) else xs ! i)"
  using assms by (auto simp: blit_def nth_append min_def)

lemma block_blit_same [block_simps]:
  "off + length ys \<le> length xs \<Longrightarrow> n = length ys \<Longrightarrow> block (blit xs off ys) off n = ys"
  by (simp add: block_def blit_def min_def)

lemma block_blit_disjoint [block_simps]:
  assumes "off + length ys \<le> length xs" and "a + n \<le> length xs"
    and "a + n \<le> off \<or> off + length ys \<le> a"
  shows "block (blit xs off ys) a n = block xs a n"
proof (rule nth_equalityI)
  show "length (block (blit xs off ys) a n) = length (block xs a n)"
    using assms(1) by simp
next
  fix i assume "i < length (block (blit xs off ys) a n)"
  then have i: "i < n" and ai: "a + i < length xs"
    using assms by auto
  have "block (blit xs off ys) a n ! i = blit xs off ys ! (a + i)"
    using assms i by simp
  also have "\<dots> = xs ! (a + i)"
    using assms i ai by (auto simp: nth_blit)
  also have "\<dots> = block xs a n ! i"
    using assms(2) i by simp
  finally show "block (blit xs off ys) a n ! i = block xs a n ! i" .
qed

lemma block_replicate: "off + n \<le> m \<Longrightarrow> block (replicate m c) off n = replicate n c"
  by (simp add: block_def min_def)

lemma block_append: "block xs a m @ block xs (a + m) n = block xs a (m + n)"
  by (simp add: block_def take_add add.commute)

lemma block_0 [simp]: "block xs a 0 = []"
  by (simp add: block_def)

lemma blit_adjacent:
  "off + length ys \<le> length xs \<Longrightarrow> blit (blit xs off ys) (off + length ys) zs = blit xs off (ys @ zs)"
  by (simp add: blit_def add.assoc) (simp add: ac_simps)

section \<open>Sorted lists\<close>

lemma sorted_insert_at:
  assumes "sorted xs"
  shows "sorted (takeWhile (\<lambda>x. x < k) xs @ k # dropWhile (\<lambda>x. x < k) xs)"
proof -
  have "insort k xs = takeWhile (\<lambda>x. x < k) xs @ k # dropWhile (\<lambda>x. x < k) xs"
    by (induction xs) (auto simp: not_le not_less)
  then show ?thesis using assms sorted_insort [of k xs] by simp
qed

section \<open>memcmp\<close>

text \<open>
  \<open>memcmp\<close> compares byte blocks of equal length as unsigned characters. Only the sign of its
  result is specified; the model returns \<open>-1\<close>, \<open>0\<close> or \<open>1\<close>.
\<close>

fun memcmp :: "byte list \<Rightarrow> byte list \<Rightarrow> int" where
  "memcmp (a # as) (b # bs) = (if a < b then -1 else if b < a then 1 else memcmp as bs)"
| "memcmp _ _ = 0"

lemma memcmp_less:
  "length a = length b \<Longrightarrow> memcmp a b < 0 \<longleftrightarrow> a < b"
  by (induction a b rule: memcmp.induct) auto

lemma memcmp_eq:
  "length a = length b \<Longrightarrow> memcmp a b = 0 \<longleftrightarrow> a = b"
  by (induction a b rule: memcmp.induct) auto

lemma memcmp_greater:
  "length a = length b \<Longrightarrow> 0 < memcmp a b \<longleftrightarrow> b < a"
  by (induction a b rule: memcmp.induct) auto

lemma memcmp_le:
  "length a = length b \<Longrightarrow> memcmp a b \<le> 0 \<longleftrightarrow> a \<le> b"
  by (metis linorder_not_less memcmp_greater)

lemma memcmp_ge:
  "length a = length b \<Longrightarrow> 0 \<le> memcmp a b \<longleftrightarrow> b \<le> a"
  by (metis linorder_not_less memcmp_less)

lemmas memcmp_order = memcmp_less memcmp_eq memcmp_greater memcmp_le memcmp_ge

text \<open>The null key: \<open>KEY_LENGTH\<close> zero bytes.\<close>

definition null_key :: "nat \<Rightarrow> key" where
  "null_key n = replicate n 0"

lemma length_null_key [simp]: "length (null_key n) = n"
  by (simp add: null_key_def)

lemma null_key_least: "null_key (length k) \<le> (k :: key)"
  by (induction k) (auto simp: null_key_def word_neq_0_conv)

lemma not_below_null_key: "length k = n \<Longrightarrow> k \<noteq> null_key n \<Longrightarrow> null_key n < (k :: key)"
  using null_key_least [of k] by auto

end
