(* ===== verification/Search.thy ===== *)
theory Search
  imports RingDB_Prelude
begin

text \<open>
  The binary search loop that RingDB writes out five times: in \<open>ReadWritePool::insert_read_write\<close>
  and \<open>find_index_starting_from\<close> (stride 1), in \<open>SSTableCacheHelper::get_buffer_info\<close> and
  \<open>map_buffer_to_offset_boundary\<close> (stride 1), and in \<open>MemTable::read\<close> and \<open>write\<close> (stride
  \<open>MEMTABLE_ENTRY_LENGTH\<close> over byte offsets). Each is
  \<^verbatim>\<open>while (left < right) {
    mid = (left + right) >> 1;
    if (cell mid is below the key) left = mid + stride; else right = mid;
  }\<close>

  The components run \<^emph>\<open>search\<close>, whose comparison may touch memory and hence fail. It is related
  to a pure version and to the loop on 32-bit words, which shows when the wrap-around of
  \<open>left + right\<close> cannot be seen. A locale states what the search finds in a sorted array.
\<close>

section \<open>The loop\<close>

text \<open>The stride is an entry length, never 0; the guard makes the function total.\<close>

function lower_bound :: "nat \<Rightarrow> (nat \<Rightarrow> bool) \<Rightarrow> nat \<Rightarrow> nat \<Rightarrow> nat" where
  "lower_bound st lt l r =
     (if l < r \<and> 0 < st then
        (let mid = (l + r) div 2
         in if lt mid then lower_bound st lt (mid + st) r else lower_bound st lt l mid)
      else l)"
  by pat_completeness auto
termination
  by (relation "measure (\<lambda>(st, lt, l, r). r - l)") auto

declare lower_bound.simps [simp del]

function search :: "nat \<Rightarrow> (nat \<Rightarrow> bool res) \<Rightarrow> nat \<Rightarrow> nat \<Rightarrow> nat res" where
  "search st lt l r =
     (if l < r \<and> 0 < st then
        (let mid = (l + r) div 2
         in case lt mid of
              Inl e \<Rightarrow> Inl e
            | Inr b \<Rightarrow> if b then search st lt (mid + st) r else search st lt l mid)
      else Inr l)"
  by pat_completeness auto
termination
  by (relation "measure (\<lambda>(st, lt, l, r). r - l)") auto

declare search.simps [simp del]

text \<open>The loop as the machine runs it, on \<open>unsigned int\<close>; \<open>None\<close> is a loop that never ends.\<close>

partial_function (option) lower_bound32 ::
    "uint \<Rightarrow> (uint \<Rightarrow> bool) \<Rightarrow> uint \<Rightarrow> uint \<Rightarrow> uint option" where
  "lower_bound32 st lt l r =
     (if l < r then
        (let mid = drop_bit 1 (l + r)
         in if lt mid then lower_bound32 st lt (mid + st) r else lower_bound32 st lt l mid)
      else Some l)"

section \<open>The three versions agree\<close>

lemma lower_bound_stop [simp]: "r \<le> l \<Longrightarrow> lower_bound st lt l r = l"
  by (subst lower_bound.simps) simp

lemma lower_bound_step:
  assumes "l < r" "0 < st" "mid = (l + r) div 2"
  shows "lower_bound st lt l r =
    (if lt mid then lower_bound st lt (mid + st) r else lower_bound st lt l mid)"
  by (subst lower_bound.simps) (simp add: assms Let_def)

lemma search_pure:
  assumes "\<And>p. l \<le> p \<Longrightarrow> p < r \<Longrightarrow> lt p = Inr (P p)"
  shows "search st lt l r = Inr (lower_bound st P l r)"
  using assms
proof (induction st lt l r rule: search.induct)
  case (1 st lt l r)
  show ?case
  proof (cases "l < r \<and> 0 < st")
    case False
    then show ?thesis by (auto simp: search.simps [of st lt l r] lower_bound.simps [of st P l r])
  next
    case True
    define mid where "mid = (l + r) div 2"
    have mid: "l \<le> mid" "mid < r" using True by (auto simp: mid_def)
    then have lt: "lt mid = Inr (P mid)" using "1.prems" by simp
    have a: "search st lt (mid + st) r = Inr (lower_bound st P (mid + st) r)" if "P mid"
      using "1.IH"(1) [OF True refl lt [unfolded mid_def]] that "1.prems" mid
      by (simp add: mid_def)
    have b: "search st lt l mid = Inr (lower_bound st P l mid)" if "\<not> P mid"
      using "1.IH"(2) [OF True refl lt [unfolded mid_def]] that "1.prems" mid
      by (simp add: mid_def)
    show ?thesis
      using True lt a b
      by (simp add: search.simps [of st lt l r] lower_bound.simps [of st P l r] Let_def
          flip: mid_def)
  qed
qed

lemma unat_mid32:
  fixes l r :: uint
  assumes "unat l < unat r" "unat r \<le> 2 ^ 31"
  shows "unat (drop_bit 1 (l + r)) = (unat l + unat r) div 2"
proof -
  have "unat l + unat r < 2 ^ 32" using assms by simp
  then have "unat (l + r) = unat l + unat r"
    by (simp add: unat_word_ariths)
  then show ?thesis by (simp add: drop_bit_eq_div unat_div)
qed

lemma lower_bound32_nat:
  assumes "0 < unat st" "unat r \<le> 2 ^ 31" "unat r + unat st < 2 ^ 32"
  shows "map_option unat (lower_bound32 st lt l r) =
    Some (lower_bound (unat st) (\<lambda>p. lt (of_nat p)) (unat l) (unat r))"
  using assms
proof (induction "unat r - unat l" arbitrary: l r rule: less_induct)
  case less
  show ?case
  proof (cases "l < r")
    case False
    then show ?thesis
      by (simp add: lower_bound32.simps [of st lt l r] lower_bound.simps [of "unat st" _ "unat l"]
          word_less_nat_alt)
  next
    case True
    define mid where "mid = drop_bit 1 (l + r)"
    have lr: "unat l < unat r" using True by (simp add: word_less_nat_alt)
    have mid: "unat mid = (unat l + unat r) div 2"
      using unat_mid32 [OF lr less.prems(2)] by (simp add: mid_def)
    then have bounds: "unat l \<le> unat mid" "unat mid < unat r" using lr by auto
    have st: "unat (mid + st) = unat mid + unat st"
      using bounds less.prems(3) by (simp add: unat_word_ariths)
    have a: "map_option unat (lower_bound32 st lt (mid + st) r) =
        Some (lower_bound (unat st) (\<lambda>p. lt (of_nat p)) (unat mid + unat st) (unat r))"
      using less.hyps [of r "mid + st"] less.prems bounds by (simp add: st)
    have b: "map_option unat (lower_bound32 st lt l mid) =
        Some (lower_bound (unat st) (\<lambda>p. lt (of_nat p)) (unat l) (unat mid))"
      using less.hyps [of mid l] less.prems bounds by simp
    have w: "lower_bound32 st lt l r =
        (if lt mid then lower_bound32 st lt (mid + st) r else lower_bound32 st lt l mid)"
      by (subst lower_bound32.simps) (simp only: True if_True Let_def mid_def)
    have n: "lower_bound (unat st) (\<lambda>p. lt (of_nat p)) (unat l) (unat r) =
        (if lt mid then lower_bound (unat st) (\<lambda>p. lt (of_nat p)) (unat mid + unat st) (unat r)
         else lower_bound (unat st) (\<lambda>p. lt (of_nat p)) (unat l) (unat mid))"
      by (subst lower_bound.simps) (simp add: lr less.prems(1) Let_def flip: mid)
    show ?thesis using a b by (simp add: w n)
  qed
qed

text \<open>
  On \<open>unsigned int\<close> the loop ends and computes the index that the unbounded loop computes, whenever
  the array is no longer than \<open>2 ^ 31\<close>: there \<open>left + right\<close> never wraps.
\<close>

lemma lower_bound32_ends:
  assumes "0 < unat st" "unat r \<le> 2 ^ 31" "unat r + unat st < 2 ^ 32"
  shows "\<exists>y. lower_bound32 st lt l r = Some y \<and>
    unat y = lower_bound (unat st) (\<lambda>p. lt (of_nat p)) (unat l) (unat r)"
  using lower_bound32_nat [OF assms, of lt l] by auto

section \<open>Where the loop stops\<close>

text \<open>Without any assumption on the order of the array.\<close>

lemma lower_bound_ge: "l \<le> lower_bound st lt l r"
proof (induction st lt l r rule: lower_bound.induct)
  case (1 st lt l r)
  then show ?case
    by (cases "l < r \<and> 0 < st") (force simp: lower_bound.simps [of st lt l r] Let_def)+
qed

lemma lower_bound_below:
  "lower_bound st lt l r = l \<or>
   (\<exists>p. l \<le> p \<and> p < r \<and> lt p \<and> lower_bound st lt l r = p + st)"
proof (induction st lt l r rule: lower_bound.induct)
  case (1 st lt l r)
  define mid where "mid = (l + r) div 2"
  show ?case
  proof (cases "l < r \<and> 0 < st")
    case False
    then show ?thesis by (auto simp: lower_bound.simps [of st lt l r])
  next
    case True
    then have mid: "l \<le> mid" "mid < r" by (auto simp: mid_def)
    show ?thesis
    proof (cases "lt mid")
      case lt: True
      have "lower_bound st lt l r = lower_bound st lt (mid + st) r"
        using True lt by (simp add: lower_bound_step [OF _ _ mid_def])
      moreover have "lower_bound st lt (mid + st) r = mid + st \<or>
          (\<exists>p. mid + st \<le> p \<and> p < r \<and> lt p \<and> lower_bound st lt (mid + st) r = p + st)"
        using "1.IH"(1) [OF True mid_def lt] .
      ultimately consider "lower_bound st lt l r = mid + st"
        | p where "mid + st \<le> p" "p < r" "lt p" "lower_bound st lt l r = p + st"
        by auto
      then show ?thesis
      proof cases
        case 1
        with mid lt show ?thesis by blast
      next
        case 2
        with mid have "l \<le> p" by simp
        with 2 show ?thesis by blast
      qed
    next
      case nlt: False
      have "lower_bound st lt l r = lower_bound st lt l mid"
        using True nlt by (simp add: lower_bound_step [OF _ _ mid_def])
      moreover have "lower_bound st lt l mid = l \<or>
          (\<exists>p. l \<le> p \<and> p < mid \<and> lt p \<and> lower_bound st lt l mid = p + st)"
        using "1.IH"(2) [OF True mid_def nlt] .
      ultimately show ?thesis using mid by auto
    qed
  qed
qed

lemma lower_bound_le1: "l \<le> r \<Longrightarrow> lower_bound 1 lt l r \<le> r"
  using lower_bound_below [of 1 lt l r] by auto

lemma lower_bound_not1:
  "l \<le> r \<Longrightarrow> lower_bound 1 lt l r < r \<Longrightarrow> \<not> lt (lower_bound 1 lt l r)"
proof (induction "1 :: nat" lt l r rule: lower_bound.induct)
  case (1 lt l r)
  define mid where "mid = (l + r) div 2"
  show ?case
  proof (cases "l < r")
    case False
    then show ?thesis using "1.prems" by simp
  next
    case True
    then have mid: "l \<le> mid" "mid < r" by (auto simp: mid_def)
    show ?thesis
    proof (cases "lt mid")
      case lt: True
      have eq: "lower_bound 1 lt l r = lower_bound 1 lt (mid + 1) r"
        using lower_bound_step [OF True zero_less_one mid_def, of lt] lt by simp
      show ?thesis using "1.hyps"(1) [OF _ mid_def lt] True mid "1.prems"(2) eq by simp
    next
      case nlt: False
      have eq: "lower_bound 1 lt l r = lower_bound 1 lt l mid"
        using lower_bound_step [OF True zero_less_one mid_def, of lt] nlt by simp
      have "lower_bound 1 lt l mid < mid \<or> lower_bound 1 lt l mid = mid"
        using lower_bound_le1 [OF mid(1), of lt] by auto
      then show ?thesis using "1.hyps"(2) [OF _ mid_def nlt] True mid nlt eq by auto
    qed
  qed
qed

section \<open>Searching a sorted array\<close>

text \<open>
  What the search promises its callers: an array-like state whose cells are ordered by a sort key,
  as long as an invariant holds. The read/write pool and the cache's buffer index are instances.
\<close>

locale sorted_array =
  fixes cells :: "'s \<Rightarrow> nat"
    and cell_key :: "'s \<Rightarrow> nat \<Rightarrow> 'k :: linorder"
    and invar :: "'s \<Rightarrow> bool"
  assumes cell_key_mono:
    "invar s \<Longrightarrow> i \<le> j \<Longrightarrow> j < cells s \<Longrightarrow> cell_key s i \<le> cell_key s j"
begin

definition position :: "'s \<Rightarrow> 'k \<Rightarrow> nat \<Rightarrow> nat" where
  "position s k start = lower_bound 1 (\<lambda>p. cell_key s p < k) start (cells s)"

lemma position_bounds:
  "start \<le> cells s \<Longrightarrow> start \<le> position s k start \<and> position s k start \<le> cells s"
  unfolding position_def using lower_bound_ge lower_bound_le1 by blast

lemma position_outside: "cells s \<le> start \<Longrightarrow> position s k start = start"
  by (simp add: position_def)

lemma below_position:
  assumes "invar s" "start \<le> i" "i < position s k start" "start \<le> cells s"
  shows "cell_key s i < k"
proof -
  from assms(2,3) obtain p where p: "start \<le> p" "p < cells s" "cell_key s p < k"
      "position s k start = p + 1"
    using lower_bound_below [of 1 "\<lambda>p. cell_key s p < k" start "cells s"]
    unfolding position_def by auto
  then have "cell_key s i \<le> cell_key s p"
    using assms by (intro cell_key_mono) auto
  with p(3) show ?thesis by (rule order.strict_trans1 [rotated])
qed

lemma from_position:
  assumes "invar s" "start \<le> cells s" "position s k start \<le> i" "i < cells s"
  shows "k \<le> cell_key s i"
proof -
  have "\<not> cell_key s (position s k start) < k"
    using lower_bound_not1 [OF assms(2), of "\<lambda>p. cell_key s p < k"] assms(3,4)
    unfolding position_def by simp
  moreover have "cell_key s (position s k start) \<le> cell_key s i"
    using assms by (intro cell_key_mono) auto
  ultimately show ?thesis by simp
qed

text \<open>The search decides membership: the key is in the array iff it is in the cell it stops at.\<close>

lemma position_member:
  assumes "invar s"
  shows "(\<exists>i < cells s. cell_key s i = k) \<longleftrightarrow>
    (position s k 0 < cells s \<and> cell_key s (position s k 0) = k)"
proof
  assume "\<exists>i < cells s. cell_key s i = k"
  then obtain i where i: "i < cells s" "cell_key s i = k" by blast
  have le: "position s k 0 \<le> i"
    using below_position [OF assms, of 0 i k] i by force
  then have "cell_key s (position s k 0) \<le> k"
    using cell_key_mono [OF assms le] i by simp
  moreover have "k \<le> cell_key s (position s k 0)"
    using from_position [OF assms, of 0 k "position s k 0"] le i by simp
  ultimately show "position s k 0 < cells s \<and> cell_key s (position s k 0) = k"
    using le i by simp
qed blast

end

end
