(* ===== verification/Constants.thy ===== *)
theory Constants
  imports Complex_Main RingDB_Prelude
begin

text \<open>
  The compile-time configuration: the macros that \<^verbatim>\<open>src/CMakeLists.txt\<close> defines, as a record,
  and everything \<^verbatim>\<open>src/constinit_constants.hpp\<close> and the head of \<^verbatim>\<open>src/lsm_tree.hpp\<close>
  compute from them: the two logarithms, the sizes and counts, the alignment loops of the padded
  structures, and \<open>round_to_block_size_multiple\<close>.
\<close>

unbundle bit_operations_syntax

section \<open>The macros\<close>

record config =
  MEMTABLE_SIZE_MB_BITS :: nat
  TOTAL_SSTABLE_STORAGE_SPACE_MB :: nat
  LEVEL_FACTOR :: nat
  NUM_SSTABLE_WORKER_THREADS :: nat
  KEY_LENGTH :: nat
  VALUE_LENGTH :: nat
  PAGE_SIZE :: nat
  BLOCK_SIZE :: nat
  ALIGN_NO_FALSE_SHARING :: nat
  MAX_SIMULTANEOUS_CONNECTIONS :: nat
  NUM_PROCESSORS :: nat
  TOTAL_SSTABLE_PAGE_CACHE_SIZE :: nat

text \<open>The values \<^verbatim>\<open>CMakeLists.txt\<close> sets; the test and the production branch agree.\<close>

definition cmake_config :: config where
  "cmake_config =
     \<lparr>MEMTABLE_SIZE_MB_BITS = 1, TOTAL_SSTABLE_STORAGE_SPACE_MB = 1000, LEVEL_FACTOR = 10,
      NUM_SSTABLE_WORKER_THREADS = 200, KEY_LENGTH = 1, VALUE_LENGTH = 2, PAGE_SIZE = 4096,
      BLOCK_SIZE = 4096, ALIGN_NO_FALSE_SHARING = 64, MAX_SIMULTANEOUS_CONNECTIONS = 100,
      NUM_PROCESSORS = 8, TOTAL_SSTABLE_PAGE_CACHE_SIZE = 1000\<rparr>"

lemma cmake_config_simps [simp]:
  "MEMTABLE_SIZE_MB_BITS cmake_config = 1" "TOTAL_SSTABLE_STORAGE_SPACE_MB cmake_config = 1000"
  "LEVEL_FACTOR cmake_config = 10" "NUM_SSTABLE_WORKER_THREADS cmake_config = 200"
  "KEY_LENGTH cmake_config = 1" "VALUE_LENGTH cmake_config = 2" "PAGE_SIZE cmake_config = 4096"
  "BLOCK_SIZE cmake_config = 4096" "ALIGN_NO_FALSE_SHARING cmake_config = 64"
  "MAX_SIMULTANEOUS_CONNECTIONS cmake_config = 100" "NUM_PROCESSORS cmake_config = 8"
  "TOTAL_SSTABLE_PAGE_CACHE_SIZE cmake_config = 1000"
  by (simp_all add: cmake_config_def)

section \<open>Logarithms\<close>

text \<open>
  The argument is a \<open>double\<close> template parameter, here the real number it denotes. \<open>power\<close> and
  \<open>exponent\<close> are \<open>unsigned int\<close>: once \<open>power\<close> has been shifted out, the loop runs forever, which
  is \<open>None\<close>.
\<close>

partial_function (option) log2_ceil_loop :: "real \<Rightarrow> uint \<Rightarrow> uint \<Rightarrow> uint option" where
  "log2_ceil_loop doub pow exponent =
     (if real (unat pow) < doub
      then log2_ceil_loop doub (push_bit 1 pow) (exponent + 1)
      else Some exponent)"

definition my_log2_ceil :: "real \<Rightarrow> uint option" where
  "my_log2_ceil doub = log2_ceil_loop doub 1 0"

text \<open>\<open>1 << exponent\<close> is an \<open>int\<close>, so its value is read as a signed 32-bit number.\<close>

definition shl_one :: "uint \<Rightarrow> int" where
  "shl_one exponent = sint (push_bit (unat exponent) (1 :: uint))"

definition my_log2_floor :: "real \<Rightarrow> uint option" where
  "my_log2_floor doub =
     map_option
       (\<lambda>exponent. exponent -
          (if real_of_int (shl_one exponent) > doub then 1 else 0))
       (my_log2_ceil doub)"

section \<open>Sizes and counts\<close>

definition MEMTABLE_SIZE :: "config \<Rightarrow> nat" where
  "MEMTABLE_SIZE c = 2 ^ (MEMTABLE_SIZE_MB_BITS c + 20)"

definition MEMTABLE_ENTRY_LENGTH :: "config \<Rightarrow> nat" where
  "MEMTABLE_ENTRY_LENGTH c = KEY_LENGTH c + VALUE_LENGTH c"

definition NUM_SSTABLES :: "config \<Rightarrow> nat" where
  "NUM_SSTABLES c = TOTAL_SSTABLE_STORAGE_SPACE_MB c div 2 ^ MEMTABLE_SIZE_MB_BITS c"

definition SOCKET_BUFFER_LENGTH :: "config \<Rightarrow> nat" where
  "SOCKET_BUFFER_LENGTH c = 5 + KEY_LENGTH c + VALUE_LENGTH c"

definition BATCH_NUM_REQUESTS :: "config \<Rightarrow> nat" where
  "BATCH_NUM_REQUESTS c = PAGE_SIZE c div SOCKET_BUFFER_LENGTH c"

definition max_sstable_height :: "config \<Rightarrow> nat" where
  "max_sstable_height c = MEMTABLE_SIZE_MB_BITS c * 20"

definition stack_depth :: "config \<Rightarrow> uint option" where
  "stack_depth c =
     my_log2_ceil (real (2 ^ MEMTABLE_SIZE_MB_BITS c * 2 ^ 20 div (KEY_LENGTH c + VALUE_LENGTH c)))"

definition max_buffer_set_size :: "config \<Rightarrow> nat" where
  "max_buffer_set_size c = max_sstable_height c * LEVEL_FACTOR c"

text \<open>The decimal digits reserved for a level and for an SSTable number, and the path's length in \<^verbatim>\<open>main.cpp\<close>.\<close>

definition level_str_len :: nat where
  "level_str_len = 10"

definition sstable_number_str_len :: nat where
  "sstable_number_str_len = 10"

definition file_path_length :: nat where
  "file_path_length = 8 + level_str_len + 1 + sstable_number_str_len"

definition fair_sstable_page_cache_size :: "config \<Rightarrow> nat" where
  "fair_sstable_page_cache_size c = TOTAL_SSTABLE_PAGE_CACHE_SIZE c div NUM_SSTABLES c"

definition fair_aligned_sstable_page_cache_buffer_size :: "config \<Rightarrow> nat" where
  "fair_aligned_sstable_page_cache_buffer_size c =
     lcm (lcm (fair_sstable_page_cache_size c div max_sstable_height c)
              (KEY_LENGTH c + VALUE_LENGTH c))
         (BLOCK_SIZE c)"

definition WORKER_SSTABLE_BATCH_SIZE :: "config \<Rightarrow> nat" where
  "WORKER_SSTABLE_BATCH_SIZE c = NUM_SSTABLES c div NUM_SSTABLE_WORKER_THREADS c"

definition NUM_FILE_FDS :: "config \<Rightarrow> nat" where
  "NUM_FILE_FDS c = 1 + NUM_SSTABLES c"

definition NUM_SSTABLE_LEVELS :: "config \<Rightarrow> nat" where
  "NUM_SSTABLE_LEVELS c = NUM_SSTABLES c div LEVEL_FACTOR c"

definition NUM_BATCHES :: "config \<Rightarrow> nat" where
  "NUM_BATCHES c = MAX_SIMULTANEOUS_CONNECTIONS c div PAGE_SIZE c"

section \<open>Alignment\<close>

text \<open>
  \<open>align\<close> (buffer queue), \<open>sparse_index_align\<close> and \<open>sstable_align\<close> double \<open>power\<close> until it
  reaches the least common multiple with the false-sharing distance; the first two on
  \<open>std::size_t\<close> with the result cut to \<open>unsigned int\<close>, the last on \<open>unsigned int\<close>.
\<close>

partial_function (option) align_loop :: "'a::len word \<Rightarrow> 'a word \<Rightarrow> 'a word option" where
  "align_loop bound pow =
     (if pow < bound then align_loop bound (push_bit 1 pow) else Some pow)"

definition align :: "config \<Rightarrow> nat \<Rightarrow> uint option" where
  "align c len =
     map_option (\<lambda>p :: usize. ucast p)
       (align_loop (of_nat (lcm len (ALIGN_NO_FALSE_SHARING c))) 1)"

definition sparse_index_align :: "config \<Rightarrow> nat \<Rightarrow> uint option" where
  "sparse_index_align c old_size =
     map_option (\<lambda>p :: usize. ucast p)
       (align_loop (of_nat (lcm old_size (ALIGN_NO_FALSE_SHARING c))) 1)"

definition sstable_align :: "config \<Rightarrow> nat \<Rightarrow> uint option" where
  "sstable_align c alignment =
     align_loop (of_nat (lcm alignment (ALIGN_NO_FALSE_SHARING c))) 1"

section \<open>Rounding an SSTable offset\<close>

definition round_to_block_size_multiple :: "config \<Rightarrow> usize \<Rightarrow> usize option" where
  "round_to_block_size_multiple c i =
     map_option
       (\<lambda>p. i - (i AND (push_bit 63 1 - push_bit (unat (p - 1)) 1)))
       (my_log2_floor (real (BLOCK_SIZE c)))"

section \<open>Lemmas on the logarithms\<close>

lemma log2_ceil_loop_from_power:
  assumes "doub \<le> 2 ^ 31" "k \<le> 31" "\<And>j. j < k \<Longrightarrow> 2 ^ j < doub"
  shows "\<exists>e. log2_ceil_loop doub (2 ^ k) (of_nat k) = Some (of_nat e) \<and> e \<le> 31 \<and>
    doub \<le> 2 ^ e \<and> (\<forall>j < e. 2 ^ j < doub)"
  using assms(2,3)
proof (induction "31 - k" arbitrary: k rule: less_induct)
  case less
  have pow: "unat (2 ^ k :: uint) = 2 ^ k"
    using less.prems(1) by (intro unat_2p) simp
  show ?case
  proof (cases "2 ^ k < doub")
    case False
    then have "log2_ceil_loop doub (2 ^ k) (of_nat k) = Some (of_nat k)"
      by (subst log2_ceil_loop.simps) (simp add: pow)
    with False less.prems show ?thesis by (intro exI [of _ k]) auto
  next
    case True
    have "k \<noteq> 31" using True assms(1) by auto
    then have k: "k < 31" using less.prems(1) by simp
    have "push_bit 1 (2 ^ k :: uint) = 2 ^ Suc k"
      by (simp add: push_bit_eq_mult)
    then have "log2_ceil_loop doub (2 ^ k) (of_nat k) =
        log2_ceil_loop doub (2 ^ Suc k) (of_nat (Suc k))"
      using True by (subst log2_ceil_loop.simps) (simp add: pow ac_simps)
    moreover have "\<exists>e. log2_ceil_loop doub (2 ^ Suc k) (of_nat (Suc k)) = Some (of_nat e) \<and> e \<le> 31 \<and>
        doub \<le> 2 ^ e \<and> (\<forall>j < e. 2 ^ j < doub)"
      using k True less.prems(2) by (intro less.hyps) (auto simp: less_Suc_eq)
    ultimately show ?thesis by simp
  qed
qed

lemma my_log2_ceil_Some:
  assumes "doub \<le> 2 ^ 31"
  shows "\<exists>e. my_log2_ceil doub = Some (of_nat e) \<and> e \<le> 31 \<and>
    doub \<le> 2 ^ e \<and> (\<forall>j < e. 2 ^ j < doub)"
  using log2_ceil_loop_from_power [OF assms, of 0] by (simp add: my_log2_ceil_def)

text \<open>A shifted bit stays a single bit until it leaves the word.\<close>

definition one_bit :: "uint \<Rightarrow> bool" where
  "one_bit w \<longleftrightarrow> w = 0 \<or> (\<exists>k < 32. w = 2 ^ k)"

lemma one_bit_shift: "one_bit w \<Longrightarrow> one_bit (push_bit 1 w)"
proof (unfold one_bit_def, elim disjE exE conjE)
  fix k :: nat assume k: "k < 32" and w: "w = 2 ^ k"
  have eq: "push_bit 1 w = 2 ^ Suc k" by (simp add: w push_bit_eq_mult ac_simps)
  show "push_bit 1 w = 0 \<or> (\<exists>k < 32. push_bit 1 w = 2 ^ k)"
  proof (cases "k = 31")
    case True
    then show ?thesis by (simp add: w push_bit_eq_mult)
  next
    case False
    with k have "Suc k < 32" by simp
    with eq show ?thesis by blast
  qed
qed simp

lemma one_bit_le: "one_bit w \<Longrightarrow> unat w \<le> 2 ^ 31"
proof (unfold one_bit_def, elim disjE exE conjE)
  fix k :: nat assume "k < 32" and "w = 2 ^ k"
  then have "unat w = 2 ^ k" by (simp add: unat_2p)
  also have "\<dots> \<le> 2 ^ 31" using \<open>k < 32\<close> by (intro power_increasing) auto
  finally show ?thesis .
qed simp

lemma log2_ceil_loop_returns:
  assumes ret: "log2_ceil_loop doub pow e = Some r" and "one_bit pow"
  shows "doub \<le> 2 ^ 31"
proof -
  have "one_bit pow \<longrightarrow> doub \<le> 2 ^ 31"
  proof (rule log2_ceil_loop.raw_induct [where P = "\<lambda>d w e r. one_bit w \<longrightarrow> d \<le> 2 ^ 31", OF _ ret])
    fix f :: "real \<Rightarrow> uint \<Rightarrow> uint \<Rightarrow> uint option" and d w e r
    assume IH: "\<And>d w e r. f d w e = Some r \<Longrightarrow> one_bit w \<longrightarrow> d \<le> 2 ^ 31"
      and eq: "(if real (unat w) < d then f d (push_bit 1 w) (e + 1) else Some e) = Some r"
    show "one_bit w \<longrightarrow> d \<le> 2 ^ 31"
    proof
      assume w: "one_bit w"
      show "d \<le> 2 ^ 31"
      proof (cases "real (unat w) < d")
        case True
        with eq IH one_bit_shift [OF w] show ?thesis by simp
      next
        case False
        have "real (unat w) \<le> 2 ^ 31" using one_bit_le [OF w]
          by (metis of_nat_le_iff of_nat_numeral of_nat_power)
        with False show ?thesis by simp
      qed
    qed
  qed
  with assms(2) show ?thesis by simp
qed

lemma my_log2_ceil_None:
  assumes "2 ^ 31 < doub"
  shows "my_log2_ceil doub = None"
proof (rule ccontr)
  assume "my_log2_ceil doub \<noteq> None"
  then obtain r where "log2_ceil_loop doub 1 0 = Some r" by (auto simp: my_log2_ceil_def)
  moreover have "one_bit 1" unfolding one_bit_def by (intro disjI2 exI [of _ 0]) simp
  ultimately show False using log2_ceil_loop_returns assms by fastforce
qed

text \<open>
  \<open>my_log2_ceil\<close> returns the least exponent whose power of two reaches its argument, for every
  argument up to \<open>2 ^ 31\<close>; for a larger one the 32-bit \<open>power\<close> wraps to 0 and the loop never ends.
\<close>

lemma my_log2_ceil_spec:
  "my_log2_ceil doub =
     (if doub \<le> 2 ^ 31 then Some (of_nat (LEAST e. doub \<le> 2 ^ e)) else None)"
proof (cases "doub \<le> 2 ^ 31")
  case True
  then obtain e where e: "my_log2_ceil doub = Some (of_nat e)" "doub \<le> 2 ^ e"
      "\<forall>j < e. 2 ^ j < doub"
    using my_log2_ceil_Some by blast
  have "(LEAST e. doub \<le> 2 ^ e) = e"
    using e(2,3) by (intro Least_equality) (force simp: not_less [symmetric])+
  with True e(1) show ?thesis by simp
qed (simp add: my_log2_ceil_None)

lemma my_log2_floor_Some:
  assumes "1 \<le> doub" "doub \<le> 2 ^ 30"
  shows "\<exists>f. my_log2_floor doub = Some (of_nat f) \<and> f \<le> 30 \<and> 2 ^ f \<le> doub \<and> doub < 2 ^ Suc f"
proof -
  obtain e where e: "my_log2_ceil doub = Some (of_nat e)" "doub \<le> 2 ^ e"
      and least: "\<And>j. j < e \<Longrightarrow> 2 ^ j < doub"
    using my_log2_ceil_Some [of doub] assms(2) by auto
  have e30: "e \<le> 30" using least [of 30] assms(2) by force
  then have un: "unat (of_nat e :: uint) = e" by (simp add: unat_of_nat)
  have "uint (2 ^ e :: uint) = 2 ^ e"
    using e30 by (intro uint_2p_small) simp
  moreover have "(2::int) ^ e \<le> 2 ^ 30" using e30 by (intro power_increasing) auto
  ultimately have "sint (2 ^ e :: uint) = 2 ^ e"
    by (simp add: sint_uint signed_take_bit_int_eq_self_iff order_trans [OF _ zero_le_power])
  then have sh: "shl_one (of_nat e) = 2 ^ e"
    by (simp add: shl_one_def un push_bit_of_1)
  show ?thesis
  proof (cases "2 ^ e > doub")
    case False
    then have "my_log2_floor doub = Some (of_nat e)"
      by (simp add: my_log2_floor_def e(1) sh)
    with False e(2) e30 assms show ?thesis by (intro exI [of _ e]) auto
  next
    case True
    with assms(1) have "e \<noteq> 0" by (cases e) auto
    then obtain f where f: "e = Suc f" by (cases e) auto
    have "my_log2_floor doub = Some (of_nat f)"
      using True by (simp add: my_log2_floor_def e(1) sh) (simp add: f)
    moreover have "2 ^ f < doub" using least f by simp
    ultimately show ?thesis using True f e30 by (intro exI [of _ f]) auto
  qed
qed

lemma my_log2_floor_power:
  assumes "p \<le> 30"
  shows "my_log2_floor (2 ^ p) = Some (of_nat p)"
proof -
  have "(1::real) \<le> 2 ^ p" "(2::real) ^ p \<le> 2 ^ 30"
    using power_increasing [OF assms, of "2 :: real"] by auto
  then obtain f where f: "my_log2_floor (2 ^ p) = Some (of_nat f)"
      "(2::real) ^ f \<le> 2 ^ p" "(2::real) ^ p < 2 ^ Suc f"
    using my_log2_floor_Some by blast
  then have "f \<le> p" "p < Suc f"
    by (metis one_less_numeral_iff power_le_imp_le_exp semiring_norm(76),
        metis one_less_numeral_iff power_less_imp_less_exp semiring_norm(76))
  then have "f = p" by simp
  with f(1) show ?thesis by simp
qed

section \<open>Rounding\<close>

lemma bit_window: "k \<le> n \<Longrightarrow> push_bit n 1 - push_bit k 1 = (push_bit k (mask (n - k)) :: usize)"
proof -
  assume "k \<le> n"
  then have "(2 ^ n :: usize) = 2 ^ (n - k) * 2 ^ k" by (simp flip: power_add)
  then show ?thesis by (simp add: push_bit_eq_mult mask_eq_exp_minus_1 algebra_simps)
qed

lemma minus_and: "i - (i AND m) = (i AND NOT m :: 'a::len word)"
proof -
  have "i = (i AND m) + (i AND NOT m)"
    by (subst disjunctive_add) (auto simp: bit_simps intro!: bit_word_eqI)
  then show ?thesis by (metis add_diff_cancel_left')
qed

lemma outside_window:
  "k \<le> n \<Longrightarrow> i AND NOT (push_bit k (mask (n - k))) =
     (take_bit k i OR push_bit n (drop_bit n i) :: usize)"
proof (rule bit_word_eqI)
  fix m assume "k \<le> n" "m < LENGTH(64)"
  then show "bit (i AND NOT (push_bit k (mask (n - k)))) m \<longleftrightarrow>
      bit (take_bit k i OR push_bit n (drop_bit n i)) m"
    by (cases "n \<le> m") (auto simp: bit_simps)
qed

lemma round_to_block_size_multiple_Some:
  assumes "BLOCK_SIZE c = 2 ^ Suc k" and "Suc k \<le> 30"
  shows "round_to_block_size_multiple c i = Some (take_bit k i OR push_bit 63 (drop_bit 63 i))"
proof -
  have "my_log2_floor (real (BLOCK_SIZE c)) = Some (of_nat (Suc k))"
    using my_log2_floor_power [OF assms(2)] assms(1) by simp
  moreover have "unat (of_nat (Suc k) - 1 :: uint) = k"
    using assms(2) by (simp add: unat_of_nat)
  moreover have "k \<le> 63" using assms(2) by simp
  ultimately show ?thesis
    unfolding round_to_block_size_multiple_def
    by (simp only: option.map minus_and bit_window [of k 63] outside_window [of k 63])
qed

text \<open>
  For a block size \<open>2 ^ (k + 1)\<close>, \<open>round_to_block_size_multiple\<close> maps an offset below \<open>2 ^ 63\<close>
  to its remainder modulo half the block size (not to the block boundary below it).
\<close>

lemma round_to_block_size_multiple_spec:
  assumes "BLOCK_SIZE c = 2 ^ Suc k" and "Suc k \<le> 30" and "unat i < 2 ^ 63"
  shows "\<exists>r. round_to_block_size_multiple c i = Some r \<and> unat r = unat i mod 2 ^ k"
proof -
  have "unat (drop_bit 63 i) = 0"
    using assms(3) by (simp only: unat_drop_bit_eq) (simp add: drop_bit_eq_div)
  then have "drop_bit 63 i = 0" by (simp only: unat_eq_zero)
  then show ?thesis
    using round_to_block_size_multiple_Some [OF assms(1,2), of i]
    by (simp add: unsigned_take_bit_eq) (simp add: take_bit_eq_mod)
qed

lemma round_to_block_size_multiple_spec_example:
  "\<exists>r. round_to_block_size_multiple cmake_config 8195 = Some r \<and> unat r = unat (8195 :: usize) mod 2 ^ 11"
  by (rule round_to_block_size_multiple_spec) simp_all

section \<open>Sizes\<close>

text \<open>
  The page-cache buffer size is a multiple of the entry size and of the block size, and it is
  positive exactly when the configured page cache has a byte for each buffer of each SSTable.
\<close>

lemma page_cache_buffer_size_spec:
  assumes "0 < BLOCK_SIZE c" and "0 < KEY_LENGTH c + VALUE_LENGTH c"
    and "0 < NUM_SSTABLES c * max_sstable_height c"
  shows "BLOCK_SIZE c dvd fair_aligned_sstable_page_cache_buffer_size c \<and>
    KEY_LENGTH c + VALUE_LENGTH c dvd fair_aligned_sstable_page_cache_buffer_size c \<and>
    (0 < fair_aligned_sstable_page_cache_buffer_size c \<longleftrightarrow>
      NUM_SSTABLES c * max_sstable_height c \<le> TOTAL_SSTABLE_PAGE_CACHE_SIZE c)"
proof (intro conjI)
  show "BLOCK_SIZE c dvd fair_aligned_sstable_page_cache_buffer_size c"
    unfolding fair_aligned_sstable_page_cache_buffer_size_def by (rule dvd_lcm2)
  show "KEY_LENGTH c + VALUE_LENGTH c dvd fair_aligned_sstable_page_cache_buffer_size c"
    unfolding fair_aligned_sstable_page_cache_buffer_size_def by (rule dvd_trans [OF dvd_lcm2 dvd_lcm1])
  have "fair_aligned_sstable_page_cache_buffer_size c = 0 \<longleftrightarrow>
      fair_sstable_page_cache_size c div max_sstable_height c = 0"
    using assms(1,2) by (auto simp: fair_aligned_sstable_page_cache_buffer_size_def)
  also have "\<dots> \<longleftrightarrow> TOTAL_SSTABLE_PAGE_CACHE_SIZE c div (NUM_SSTABLES c * max_sstable_height c) = 0"
    by (simp add: fair_sstable_page_cache_size_def div_mult2_eq)
  also have "\<dots> \<longleftrightarrow> TOTAL_SSTABLE_PAGE_CACHE_SIZE c < NUM_SSTABLES c * max_sstable_height c"
    using assms(3) by (simp add: div_eq_0_iff)
  finally show "0 < fair_aligned_sstable_page_cache_buffer_size c \<longleftrightarrow>
      NUM_SSTABLES c * max_sstable_height c \<le> TOTAL_SSTABLE_PAGE_CACHE_SIZE c"
    by linarith
qed

lemma page_cache_buffer_size_spec_example:
  "fair_aligned_sstable_page_cache_buffer_size cmake_config = 0 \<and>
   BLOCK_SIZE cmake_config dvd fair_aligned_sstable_page_cache_buffer_size cmake_config"
  using page_cache_buffer_size_spec [of cmake_config]
  by (simp add: NUM_SSTABLES_def max_sstable_height_def)

section \<open>Alignment lemmas\<close>

lemma align_loop_from_power:
  fixes bound :: "'a::len word"
  assumes "unat bound \<le> 2 ^ (LENGTH('a) - 1)" "k < LENGTH('a)"
    "\<And>j. j < k \<Longrightarrow> 2 ^ j < unat bound"
  shows "\<exists>e < LENGTH('a). align_loop bound (2 ^ k) = Some (2 ^ e) \<and> unat bound \<le> 2 ^ e \<and>
    (\<forall>j < e. 2 ^ j < unat bound)"
  using assms(2,3)
proof (induction "LENGTH('a) - k" arbitrary: k rule: less_induct)
  case less
  have pow: "unat (2 ^ k :: 'a word) = 2 ^ k"
    using less.prems(1) by (intro unat_2p)
  show ?case
  proof (cases "2 ^ k < unat bound")
    case False
    then have "align_loop bound (2 ^ k) = Some (2 ^ k)"
      by (subst align_loop.simps) (simp add: pow word_less_nat_alt)
    with False less.prems show ?thesis by (intro exI [of _ k]) auto
  next
    case True
    have "(2 :: nat) ^ k < 2 ^ (LENGTH('a) - 1)" using True assms(1) by (rule order.strict_trans2)
    then have "k < LENGTH('a) - 1" by (rule power_less_imp_less_exp [rotated]) simp
    then have k: "Suc k < LENGTH('a)" by simp
    have "align_loop bound (2 ^ k) = align_loop bound (2 ^ Suc k)"
      using True by (subst align_loop.simps) (simp add: pow word_less_nat_alt push_bit_eq_mult ac_simps)
    moreover have "\<exists>e < LENGTH('a). align_loop bound (2 ^ Suc k) = Some (2 ^ e) \<and> unat bound \<le> 2 ^ e \<and>
        (\<forall>j < e. 2 ^ j < unat bound)"
      using k True less.prems by (intro less.hyps) (auto simp: less_Suc_eq)
    ultimately show ?thesis by simp
  qed
qed

lemma align_loop_power:
  fixes m :: nat
  assumes "0 < m" "m \<le> 2 ^ (LENGTH('a) - 1)"
  shows "\<exists>e < LENGTH('a). align_loop (of_nat m) (1 :: 'a::len word) = Some (2 ^ e) \<and>
    m \<le> 2 ^ e \<and> (\<forall>j < e. 2 ^ j < m)"
proof -
  have "(2 :: nat) ^ (LENGTH('a) - 1) < 2 ^ LENGTH('a)" by simp
  with assms(2) have "m < 2 ^ LENGTH('a)" by (rule order.strict_trans1)
  then have "unat (of_nat m :: 'a word) = m" by (simp add: unat_of_nat)
  then show ?thesis
    using align_loop_from_power [of "of_nat m :: 'a word" 0] assms(2) by simp
qed

lemma power_two_dvd:
  assumes "a dvd m" "a = 2 ^ n" "m \<le> 2 ^ e" "0 < m"
  shows "a dvd (2 ^ e :: nat)"
proof -
  have "a \<le> m" using assms(1,4) by (rule dvd_imp_le)
  then have "(2 :: nat) ^ n \<le> 2 ^ e" using assms(2,3) by (metis le_trans)
  then have "n \<le> e" by (rule power_le_imp_le_exp [rotated]) simp
  then show ?thesis unfolding assms(2) by (rule le_imp_power_dvd)
qed

text \<open>
  The alignment of the padded structures (\<open>align\<close>, \<open>sparse_index_align\<close>) is the least power of
  two that reaches the least common multiple with the false-sharing distance, hence a multiple of
  that distance, as long as the multiple fits \<open>unsigned int\<close>; the loop ends.
\<close>

lemma align_spec:
  assumes "ALIGN_NO_FALSE_SHARING c = 2 ^ n" and "0 < len"
    and "lcm len (ALIGN_NO_FALSE_SHARING c) \<le> 2 ^ 31"
  shows "\<exists>e. align c len = Some (2 ^ e) \<and> sparse_index_align c len = Some (2 ^ e) \<and>
    sstable_align c len = Some (2 ^ e) \<and>
    lcm len (ALIGN_NO_FALSE_SHARING c) \<le> 2 ^ e \<and>
    2 ^ e < 2 * lcm len (ALIGN_NO_FALSE_SHARING c) \<and> ALIGN_NO_FALSE_SHARING c dvd 2 ^ e"
proof -
  define m where "m = lcm len (ALIGN_NO_FALSE_SHARING c)"
  have m0: "0 < m" using assms(1,2) by (simp add: m_def lcm_pos_nat)
  have m31: "m \<le> 2 ^ 31" using assms(3) by (simp add: m_def)
  obtain e where e: "align_loop (of_nat m) (1 :: usize) = Some (2 ^ e)" "m \<le> 2 ^ e"
      "\<forall>j < e. 2 ^ j < m"
    using align_loop_power [OF m0, where 'a = 64] m31 by auto
  obtain e' where e': "align_loop (of_nat m) (1 :: uint) = Some (2 ^ e')" "m \<le> 2 ^ e'"
      "\<forall>j < e'. 2 ^ j < m"
    using align_loop_power [OF m0, where 'a = 32] m31 by auto
  have ee: "e' = e" using e(2,3) e'(2,3) by (metis leD linorder_neqE_nat)
  have lt: "2 ^ e < 2 * m"
    using m0 e(3) by (cases e) auto
  have "m dvd m" "ALIGN_NO_FALSE_SHARING c dvd m" by (simp_all add: m_def)
  then have "ALIGN_NO_FALSE_SHARING c dvd 2 ^ e"
    using power_two_dvd [OF _ assms(1) e(2) m0] by simp
  moreover have "ucast (2 ^ e :: usize) = (2 ^ e :: uint)"
    by (rule bit_word_eqI) (auto simp: bit_simps)
  ultimately show ?thesis
    using e(1,2) e'(1) lt ee
    by (intro exI [of _ e]) (simp add: align_def sparse_index_align_def sstable_align_def flip: m_def)
qed

lemma align_spec_example:
  "\<exists>e. align cmake_config 200 = Some (2 ^ e) \<and> sparse_index_align cmake_config 200 = Some (2 ^ e) \<and>
    sstable_align cmake_config 200 = Some (2 ^ e) \<and>
    lcm 200 (ALIGN_NO_FALSE_SHARING cmake_config) \<le> 2 ^ e \<and>
    2 ^ e < 2 * lcm 200 (ALIGN_NO_FALSE_SHARING cmake_config) \<and>
    ALIGN_NO_FALSE_SHARING cmake_config dvd 2 ^ e"
proof (rule align_spec [where n = 6])
  show "lcm 200 (ALIGN_NO_FALSE_SHARING cmake_config) \<le> 2 ^ 31"
    by (simp add: lcm_nat_def gcd_non_0_nat)
qed simp_all

end
