(* ===== verification/Read_Write_Pool.thy ===== *)
theory Read_Write_Pool
  imports Search Constants
begin

text \<open>
  Requests and the pools that hold them: \<open>RequestType\<close>, \<open>ConnectionRequest\<close>, \<open>ConnectionPool\<close> and
  \<open>ReadWritePool\<close>. A request refers to its bytes by a pointer into the buffer pool the network
  thread allocates; the model has that pool as an explicit byte array \<open>mem\<close> and a pointer as an
  index into it, since requests are ordered by the bytes their buffers hold. A cell of a freshly
  allocated array is \<open>None\<close> until the code writes it.
\<close>

section \<open>Requests\<close>

datatype RequestType = ACCEPT | RECV | SEND | READ | WRITE | COMPACTION

record conn_req =
  cr_req_type :: RequestType
  cr_req_batch_ref :: "nat option"
  cr_client_sock_fd :: int
  cr_buffer :: nat

text \<open>The key of a request follows a five-byte header.\<close>

definition request_key :: "config \<Rightarrow> byte list \<Rightarrow> nat \<Rightarrow> key res" where
  "request_key c mem buf = rslice mem (buf + 5) (KEY_LENGTH c)"

definition cell :: "'a option list \<Rightarrow> nat \<Rightarrow> 'a res" where
  "cell data i = rbind (rnth data i) (\<lambda>x. case x of None \<Rightarrow> Inl Indeterminate | Some r \<Rightarrow> Inr r)"

section \<open>ConnectionPool\<close>

record connection_pool =
  cp_connections :: "conn_req option list"
  cp_buffer_pool :: nat

definition new_connection_pool :: "nat \<Rightarrow> nat \<Rightarrow> connection_pool" where
  "new_connection_pool num_connections buffer_pool =
     \<lparr>cp_connections = replicate num_connections None, cp_buffer_pool = buffer_pool\<rparr>"

text \<open>The slot of a client is \<open>client_sockfd - 1\<close>; its batch reference is left as it is.\<close>

definition cp_insert :: "int \<Rightarrow> RequestType \<Rightarrow> connection_pool \<Rightarrow> (connection_pool \<times> nat) res" where
  "cp_insert client_sockfd t pool =
     rbind (rassert OutOfBounds (1 \<le> client_sockfd)) (\<lambda>_.
       let slot = nat (client_sockfd - 1)
       in rbind (rnth (cp_connections pool) slot) (\<lambda>old.
            let r = \<lparr>cr_req_type = t, cr_req_batch_ref = Option.bind old cr_req_batch_ref,
                     cr_client_sock_fd = client_sockfd, cr_buffer = cp_buffer_pool pool + slot\<rparr>
            in rbind (rupd (cp_connections pool) slot (Some r)) (\<lambda>conns.
                 Inr (pool\<lparr>cp_connections := conns\<rparr>, slot))))"

section \<open>ReadWritePool\<close>

record readwrite_pool =
  rw_data :: "conn_req option list"
  rw_length :: nat
  rw_num_sent :: nat
  rw_present_in_level :: "bool option"

definition new_readwrite_pool :: readwrite_pool where
  "new_readwrite_pool = \<lparr>rw_data = [], rw_length = 0, rw_num_sent = 0, rw_present_in_level = None\<rparr>"

text \<open>
  The comparison of the search loops: is the key of cell \<open>p\<close> below the key searched for? The latter
  is what is read at \<open>buffer + 5\<close>, in whatever memory \<open>buffer\<close> points to.
\<close>

definition rw_below :: "config \<Rightarrow> byte list \<Rightarrow> conn_req option list \<Rightarrow> key res \<Rightarrow> nat \<Rightarrow> bool res" where
  "rw_below c mem data probe p =
     rbind (cell data p) (\<lambda>r.
       rbind (request_key c mem (cr_buffer r)) (\<lambda>k.
         rbind probe (\<lambda>k'. Inr (memcmp k k' < 0))))"

text \<open>
  The loop of \<open>insert_read_write\<close> also moves the pointer \<open>conn_req\<close>, which the code uses after the
  loop; the result is \<open>left\<close> and the index \<open>conn_req\<close> points to.
\<close>

function rw_search :: "(nat \<Rightarrow> bool res) \<Rightarrow> nat \<Rightarrow> nat \<Rightarrow> nat \<Rightarrow> (nat \<times> nat) res" where
  "rw_search lt left right conn_req =
     (if left < right then
        (let mid = (left + right) div 2
         in case lt mid of
              Inl e \<Rightarrow> Inl e
            | Inr b \<Rightarrow> if b then rw_search lt (mid + 1) right mid else rw_search lt left mid mid)
      else Inr (left, conn_req))"
  by pat_completeness auto
termination
  by (relation "measure (\<lambda>(lt, left, right, conn_req). right - left)") auto

declare rw_search.simps [simp del]

text \<open>
  The shift loop, with \<open>n\<close> iterations left and \<open>conn_req2\<close> the entry in hand. The line
  \<open>conn_req2.req_batch_ref = conn_req2.req_batch_ref\<close> keeps the reference of the entry in hand.
\<close>

fun rw_shift :: "nat \<Rightarrow> nat \<Rightarrow> conn_req \<Rightarrow> conn_req option list \<Rightarrow> conn_req option list res" where
  "rw_shift 0 i conn_req2 data = rupd data i (Some conn_req2)"
| "rw_shift (Suc n) i conn_req2 data =
     rbind (cell data i) (\<lambda>conn_req3.
       rbind (rupd data i (Some conn_req2)) (\<lambda>data'.
         rw_shift n (Suc i) (conn_req3\<lparr>cr_req_batch_ref := cr_req_batch_ref conn_req2\<rparr>) data'))"

definition insert_read_write ::
    "config \<Rightarrow> byte list \<Rightarrow> nat \<Rightarrow> int \<Rightarrow> RequestType \<Rightarrow> nat \<Rightarrow> readwrite_pool \<Rightarrow> readwrite_pool res" where
  "insert_read_write c mem buf fd t ref pool =
     (let len = rw_length pool;
          data = (if len = 0 then replicate (PAGE_SIZE c) None else rw_data pool);
          r = \<lparr>cr_req_type = t, cr_req_batch_ref = Some ref, cr_client_sock_fd = fd, cr_buffer = buf\<rparr>
      in rbind (rw_search (rw_below c mem data (request_key c mem buf)) 0 len 0) (\<lambda>(left, conn_req).
           rbind (if left = len then rupd data (conn_req + (if left > 0 then 1 else 0)) (Some r)
                  else rw_shift (len - left) left r data) (\<lambda>data'.
             Inr (pool\<lparr>rw_data := data', rw_length := len + 1\<rparr>))))"

text \<open>The \<open>unsigned int\<close> \<open>left\<close> is returned as an \<open>int\<close>.\<close>

definition find_index_starting_from ::
    "config \<Rightarrow> byte list \<Rightarrow> nat \<Rightarrow> key res \<Rightarrow> readwrite_pool \<Rightarrow> int res" where
  "find_index_starting_from c mem start probe pool =
     rbind (search 1 (rw_below c mem (rw_data pool) probe) start (rw_length pool)) (\<lambda>left.
       if left = rw_length pool then Inr (-1)
       else if left = 0 then
         rbind (cell (rw_data pool) 0) (\<lambda>r.
           rbind (request_key c mem (cr_buffer r)) (\<lambda>k.
             rbind probe (\<lambda>k'.
               Inr (if memcmp k k' \<noteq> 0 then -1 else 0))))
       else Inr (sint (of_nat left :: uint)))"

definition remove_via_index :: "nat \<Rightarrow> readwrite_pool \<Rightarrow> readwrite_pool res" where
  "remove_via_index index pool =
     rbind (rnth (rw_data pool) index) (\<lambda>x.
       rbind (rupd (rw_data pool) index (map_option (cr_client_sock_fd_update (\<lambda>_. -1)) x)) (\<lambda>data.
         Inr (pool\<lparr>rw_data := data\<rparr>)))"

section \<open>The entries of a pool and its invariant\<close>

definition rw_entries :: "readwrite_pool \<Rightarrow> conn_req list" where
  "rw_entries pool = map the (take (rw_length pool) (rw_data pool))"

definition key_at :: "config \<Rightarrow> byte list \<Rightarrow> nat \<Rightarrow> key" where
  "key_at c mem buf = block mem (buf + 5) (KEY_LENGTH c)"

definition has_key :: "config \<Rightarrow> byte list \<Rightarrow> nat \<Rightarrow> bool" where
  "has_key c mem buf \<longleftrightarrow> buf + 5 + KEY_LENGTH c \<le> length mem"

abbreviation rw_key :: "config \<Rightarrow> byte list \<Rightarrow> readwrite_pool \<Rightarrow> nat \<Rightarrow> key" where
  "rw_key c mem pool i \<equiv> key_at c mem (cr_buffer (rw_entries pool ! i))"

definition rw_invar :: "config \<Rightarrow> byte list \<Rightarrow> readwrite_pool \<Rightarrow> bool" where
  "rw_invar c mem pool \<longleftrightarrow>
     (rw_length pool = 0 \<or>
      length (rw_data pool) = PAGE_SIZE c \<and> rw_length pool \<le> PAGE_SIZE c \<and>
      None \<notin> set (take (rw_length pool) (rw_data pool))) \<and>
     (\<forall>r \<in> set (rw_entries pool). has_key c mem (cr_buffer r)) \<and>
     sorted (map (key_at c mem \<circ> cr_buffer) (rw_entries pool))"


lemma cell_Some [simp]: "i < length data \<Longrightarrow> data ! i = Some r \<Longrightarrow> cell data i = Inr r"
  by (simp add: cell_def)

lemma request_key_ok [simp]: "has_key c mem buf \<Longrightarrow> request_key c mem buf = Inr (key_at c mem buf)"
  by (simp add: request_key_def has_key_def key_at_def)

lemma length_key_at [simp]: "has_key c mem buf \<Longrightarrow> length (key_at c mem buf) = KEY_LENGTH c"
  by (simp add: has_key_def key_at_def)

lemma length_rw_entries: "rw_invar c mem pool \<Longrightarrow> length (rw_entries pool) = rw_length pool"
  by (auto simp: rw_invar_def rw_entries_def)

lemma rw_entries_has_key:
  "rw_invar c mem pool \<Longrightarrow> i < rw_length pool \<Longrightarrow> has_key c mem (cr_buffer (rw_entries pool ! i))"
  using length_rw_entries [of c mem pool] by (auto simp: rw_invar_def)

lemma rw_data_nth:
  assumes "rw_invar c mem pool" "i < rw_length pool"
  shows "i < length (rw_data pool)" "rw_data pool ! i = Some (rw_entries pool ! i)"
proof -
  have "length (rw_data pool) = PAGE_SIZE c" "rw_length pool \<le> PAGE_SIZE c"
      "None \<notin> set (take (rw_length pool) (rw_data pool))"
    using assms by (auto simp: rw_invar_def)
  moreover from this show "i < length (rw_data pool)" using assms(2) by simp
  ultimately have "rw_data pool ! i \<in> set (take (rw_length pool) (rw_data pool))"
    using assms(2) by (auto simp: in_set_conv_nth intro!: exI [of _ i])
  with \<open>None \<notin> _\<close> \<open>i < length (rw_data pool)\<close> assms(2) show "rw_data pool ! i = Some (rw_entries pool ! i)"
    by (cases "rw_data pool ! i") (auto simp: rw_entries_def)
qed

interpretation rw: sorted_array rw_length "\<lambda>pool i. key_at c mem (cr_buffer (rw_entries pool ! i))"
    "rw_invar c mem" for c mem
proof
  fix pool i j assume "rw_invar c mem pool" "i \<le> j" "j < rw_length pool"
  then show "key_at c mem (cr_buffer (rw_entries pool ! i)) \<le> key_at c mem (cr_buffer (rw_entries pool ! j))"
    using length_rw_entries [of c mem pool]
      sorted_nth_mono [of "map (key_at c mem \<circ> cr_buffer) (rw_entries pool)" i j]
    by (simp add: rw_invar_def)
qed

text \<open>On a well-formed pool the comparison succeeds and compares the keys.\<close>

lemma rw_below_ok:
  assumes "rw_invar c mem pool" "length k = KEY_LENGTH c" "p < rw_length pool"
  shows "rw_below c mem (rw_data pool) (Inr k) p =
    Inr (key_at c mem (cr_buffer (rw_entries pool ! p)) < k)"
  using assms rw_data_nth [OF assms(1,3)] rw_entries_has_key [OF assms(1,3)]
  by (simp add: rw_below_def memcmp_order)

text \<open>
  The search loop with its pointer: it finds the position of the plain loop, and when it runs off
  the end the pointer is on the last element, which is what the code relies on to append.
\<close>

lemma rw_search_ok:
  assumes "\<And>p. l \<le> p \<Longrightarrow> p < r \<Longrightarrow> lt p = Inr (P p)"
  shows "\<exists>q. rw_search lt l r cur = Inr (lower_bound 1 P l r, q) \<and>
    (l < r \<and> lower_bound 1 P l r = r \<longrightarrow> q + 1 = r) \<and> (r \<le> l \<longrightarrow> q = cur)"
  using assms
proof (induction lt l r cur rule: rw_search.induct)
  case (1 lt l r cur)
  define mid where "mid = (l + r) div 2"
  show ?case
  proof (cases "l < r")
    case False
    then show ?thesis by (simp add: rw_search.simps [of lt l r cur])
  next
    case True
    then have mid: "l \<le> mid" "mid < r" by (auto simp: mid_def)
    then have lt: "lt mid = Inr (P mid)" using "1.prems" by simp
    have st: "lower_bound 1 P l r = (if P mid then lower_bound 1 P (mid + 1) r else lower_bound 1 P l mid)"
      using lower_bound_step [OF True zero_less_one mid_def] .
    show ?thesis
    proof (cases "P mid")
      case P: True
      have "\<exists>q. rw_search lt (mid + 1) r mid = Inr (lower_bound 1 P (mid + 1) r, q) \<and>
          (mid + 1 < r \<and> lower_bound 1 P (mid + 1) r = r \<longrightarrow> q + 1 = r) \<and> (r \<le> mid + 1 \<longrightarrow> q = mid)"
        using "1.IH"(1) [OF True mid_def lt] P "1.prems" mid by simp
      then show ?thesis
        using True P mid lt by (auto simp: rw_search.simps [of lt l r cur] st [unfolded One_nat_def] Let_def simp flip: mid_def)
    next
      case P: False
      have "\<exists>q. rw_search lt l mid mid = Inr (lower_bound 1 P l mid, q) \<and>
          (l < mid \<and> lower_bound 1 P l mid = mid \<longrightarrow> q + 1 = mid) \<and> (mid \<le> l \<longrightarrow> q = mid)"
        using "1.IH"(2) [OF True mid_def lt] P "1.prems" mid by simp
      moreover have "lower_bound 1 P l mid \<le> mid" using mid(1) by (rule lower_bound_le1)
      ultimately show ?thesis
        using True P mid lt by (auto simp: rw_search.simps [of lt l r cur] st [unfolded One_nat_def] Let_def simp flip: mid_def)
    qed
  qed
qed

text \<open>The shift loop moves every later entry one cell to the right, and gives each the reference in hand.\<close>

lemma rw_shift_ok:
  assumes "data = xs @ map Some es @ y # ys" "n = length es" "i = length xs"
  shows "rw_shift n i r data =
    Inr (xs @ map Some (r # map (cr_req_batch_ref_update (\<lambda>_. cr_req_batch_ref r)) es) @ ys)"
  using assms
proof (induction es arbitrary: n i r data xs)
  case Nil
  then show ?case by simp
next
  case (Cons e es)
  let ?e = "e\<lparr>cr_req_batch_ref := cr_req_batch_ref r\<rparr>"
  have up: "data[i := Some r] = (xs @ [Some r]) @ map Some es @ y # ys" using Cons.prems by simp
  have "cell data i = Inr e" "i < length data"
    using Cons.prems by (simp_all add: nth_append)
  then have "rw_shift n i r data = rw_shift (length es) (Suc i) ?e (data[i := Some r])"
    using Cons.prems by simp
  also have "\<dots> = Inr ((xs @ [Some r]) @
      map Some (?e # map (cr_req_batch_ref_update (\<lambda>_. cr_req_batch_ref ?e)) es) @ ys)"
    using up Cons.prems(3) by (intro Cons.IH) simp_all
  finally show ?case by (simp add: o_def)
qed

section \<open>What the operations do\<close>

text \<open>Where the new request goes, and what becomes of the later ones.\<close>

definition rw_inserted :: "config \<Rightarrow> byte list \<Rightarrow> conn_req \<Rightarrow> conn_req list \<Rightarrow> conn_req list" where
  "rw_inserted c mem r es =
     (let below = (\<lambda>e. key_at c mem (cr_buffer e) < key_at c mem (cr_buffer r))
      in takeWhile below es @
         r # map (cr_req_batch_ref_update (\<lambda>_. cr_req_batch_ref r)) (dropWhile below es))"

lemma rw_inserted_position:
  assumes "rw_invar c mem pool" "p = lower_bound 1 (\<lambda>i. key_at c mem (cr_buffer (rw_entries pool ! i)) < k) 0 (rw_length pool)"
  shows "takeWhile (\<lambda>e. key_at c mem (cr_buffer e) < k) (rw_entries pool) = take p (rw_entries pool)"
    and "dropWhile (\<lambda>e. key_at c mem (cr_buffer e) < k) (rw_entries pool) = drop p (rw_entries pool)"
    and "p \<le> rw_length pool"
proof -
  have p: "p = rw.position c mem pool k 0" by (simp add: assms(2) rw.position_def)
  then show le: "p \<le> rw_length pool" using rw.position_bounds [of 0 pool c mem k] by simp
  show tw: "takeWhile (\<lambda>e. key_at c mem (cr_buffer e) < k) (rw_entries pool) = take p (rw_entries pool)"
  proof (rule takeWhile_eq_take_P_nth)
    fix i assume "i < p"
    then show "key_at c mem (cr_buffer (rw_entries pool ! i)) < k"
      using rw.below_position [OF assms(1), of 0 i k] p by simp
  next
    assume "p < length (rw_entries pool)"
    then show "\<not> key_at c mem (cr_buffer (rw_entries pool ! p)) < k"
      using rw.from_position [OF assms(1), of 0 k p] p length_rw_entries [OF assms(1)] by (simp add: not_less)
  qed
  show "dropWhile (\<lambda>e. key_at c mem (cr_buffer e) < k) (rw_entries pool) = drop p (rw_entries pool)"
    using le length_rw_entries [OF assms(1)] by (simp add: dropWhile_eq_drop tw)
qed

lemma rw_inserted_sorted:
  assumes "sorted (map (key_at c mem \<circ> cr_buffer) es)"
  shows "sorted (map (key_at c mem \<circ> cr_buffer) (rw_inserted c mem r es))"
proof -
  let ?f = "key_at c mem \<circ> cr_buffer"
  have f: "?f \<circ> cr_req_batch_ref_update g = ?f" for g by auto
  have "map ?f (rw_inserted c mem r es) =
      takeWhile (\<lambda>k. k < ?f r) (map ?f es) @ ?f r # dropWhile (\<lambda>k. k < ?f r) (map ?f es)"
    by (simp add: rw_inserted_def Let_def f takeWhile_map dropWhile_map o_def)
  also have "sorted \<dots>" using assms by (rule sorted_insert_at)
  finally show ?thesis .
qed

lemma rw_inserted_buffers:
  "e \<in> set (rw_inserted c mem r es) \<Longrightarrow> cr_buffer e = cr_buffer r \<or> cr_buffer e \<in> cr_buffer ` set es"
  by (auto simp: rw_inserted_def Let_def dest: set_takeWhileD set_dropWhileD)

lemma mset_rw_inserted:
  assumes "\<And>e g. proj (cr_req_batch_ref_update g e) = proj e"
  shows "mset (map proj (rw_inserted c mem r es)) = add_mset (proj r) (mset (map proj es))"
proof -
  let ?b = "\<lambda>e. key_at c mem (cr_buffer e) < key_at c mem (cr_buffer r)"
  have "mset (map proj es) = image_mset proj (mset (takeWhile ?b es)) + image_mset proj (mset (dropWhile ?b es))"
    by (metis image_mset_union mset_append mset_map takeWhile_dropWhile_id)
  then show ?thesis
    by (simp add: rw_inserted_def Let_def multiset.map_comp o_def assms)
qed

text \<open>The array a call works on: freshly allocated when the pool was empty.\<close>

lemma rw_data_split:
  assumes "rw_invar c mem pool" "rw_length pool < PAGE_SIZE c"
    and "data = (if rw_length pool = 0 then replicate (PAGE_SIZE c) None else rw_data pool)"
  obtains y ys where "data = map Some (rw_entries pool) @ y # ys" "length data = PAGE_SIZE c"
    and "rw_invar c mem (pool\<lparr>rw_data := data\<rparr>)" "rw_entries (pool\<lparr>rw_data := data\<rparr>) = rw_entries pool"
proof -
  have len: "length data = PAGE_SIZE c" using assms by (auto simp: rw_invar_def)
  have es: "rw_entries (pool\<lparr>rw_data := data\<rparr>) = rw_entries pool"
    using assms(3) by (simp add: rw_entries_def)
  have inv: "rw_invar c mem (pool\<lparr>rw_data := data\<rparr>)"
    using assms es unfolding rw_invar_def by auto
  have "take (rw_length pool) data = map Some (rw_entries pool)"
  proof (rule nth_equalityI)
    show "length (take (rw_length pool) data) = length (map Some (rw_entries pool))"
      using len assms length_rw_entries by force
    fix i assume "i < length (take (rw_length pool) data)"
    then show "take (rw_length pool) data ! i = map Some (rw_entries pool) ! i"
      using rw_data_nth [OF inv, of i] es length_rw_entries [OF assms(1)] by simp
  qed
  moreover obtain y ys where "drop (rw_length pool) data = y # ys"
    using len assms(2) by (cases "drop (rw_length pool) data") auto
  ultimately have "data = map Some (rw_entries pool) @ y # ys"
    by (metis append_take_drop_id)
  then show ?thesis using that len inv es by blast
qed

lemma rw_insert_ok:
  assumes "rw_invar c mem pool" "has_key c mem buf" "rw_length pool < PAGE_SIZE c"
  shows "\<exists>pool'. insert_read_write c mem buf fd t ref pool = Inr pool' \<and> rw_invar c mem pool' \<and>
    rw_length pool' = rw_length pool + 1 \<and>
    rw_entries pool' = rw_inserted c mem
      \<lparr>cr_req_type = t, cr_req_batch_ref = Some ref, cr_client_sock_fd = fd, cr_buffer = buf\<rparr> (rw_entries pool) \<and>
    mset (map (\<lambda>r. (cr_buffer r, cr_client_sock_fd r, cr_req_type r)) (rw_entries pool')) =
      add_mset (buf, fd, t) (mset (map (\<lambda>r. (cr_buffer r, cr_client_sock_fd r, cr_req_type r)) (rw_entries pool)))"
proof -
  let ?len = "rw_length pool" and ?es = "rw_entries pool"
  define data where "data = (if ?len = 0 then replicate (PAGE_SIZE c) None else rw_data pool)"
  define r where
    "r = \<lparr>cr_req_type = t, cr_req_batch_ref = Some ref, cr_client_sock_fd = fd, cr_buffer = buf\<rparr>"
  define P where "P = (\<lambda>i. key_at c mem (cr_buffer (?es ! i)) < key_at c mem buf)"
  define p where "p = lower_bound 1 P 0 ?len"
  from rw_data_split [OF assms(1,3) data_def] obtain y ys where
      data: "data = map Some ?es @ y # ys" "length data = PAGE_SIZE c"
        "rw_invar c mem (pool\<lparr>rw_data := data\<rparr>)" "rw_entries (pool\<lparr>rw_data := data\<rparr>) = ?es" .
  have lt: "rw_below c mem data (request_key c mem buf) i = Inr (P i)" if "i < ?len" for i
    using rw_below_ok [OF data(3) length_key_at [OF assms(2)]] that data(4) assms(2) by (simp add: P_def)
  then have "\<exists>q. rw_search (rw_below c mem data (request_key c mem buf)) 0 ?len 0 = Inr (p, q) \<and>
      (0 < ?len \<and> p = ?len \<longrightarrow> q + 1 = ?len) \<and> (?len \<le> 0 \<longrightarrow> q = 0)"
    unfolding p_def by (intro rw_search_ok) simp
  then obtain q where q: "rw_search (rw_below c mem data (request_key c mem buf)) 0 ?len 0 = Inr (p, q)"
      "0 < ?len \<and> p = ?len \<longrightarrow> q + 1 = ?len" "?len \<le> 0 \<longrightarrow> q = 0"
    by blast
  have les: "length ?es = ?len" using length_rw_entries [OF assms(1)] .
  note pos = rw_inserted_position [OF assms(1) p_def [unfolded P_def]]
  have ins: "rw_inserted c mem r ?es = take p ?es @ r # map (cr_req_batch_ref_update (\<lambda>_. cr_req_batch_ref r)) (drop p ?es)"
    by (simp add: rw_inserted_def Let_def r_def pos)
  have "(if p = ?len then rupd data (q + (if p > 0 then 1 else 0)) (Some r) else rw_shift (?len - p) p r data) =
      Inr (map Some (rw_inserted c mem r ?es) @ ys)"
  proof (cases "p = ?len")
    case True
    then have "q + (if p > 0 then 1 else 0) = ?len" using q by (cases "?len = 0") auto
    then show ?thesis using True les by (simp add: data(1) ins list_update_append)
  next
    case False
    have "data = map Some (take p ?es) @ map Some (drop p ?es) @ y # ys"
      by (simp add: data(1) flip: append_assoc map_append)
    then show ?thesis
      using False pos(3) les
        rw_shift_ok [of data "map Some (take p ?es)" "drop p ?es" y ys "?len - p" p r]
      by (simp add: ins)
  qed
  then have run: "insert_read_write c mem buf fd t ref pool =
      Inr (pool\<lparr>rw_data := map Some (rw_inserted c mem r ?es) @ ys, rw_length := ?len + 1\<rparr>)"
    unfolding insert_read_write_def Let_def data_def [symmetric] r_def [symmetric]
    by (simp only: q(1) rbind_simps prod.case)
  let ?pool' = "pool\<lparr>rw_data := map Some (rw_inserted c mem r ?es) @ ys, rw_length := ?len + 1\<rparr>"
  have len': "length (rw_inserted c mem r ?es) = ?len + 1" using les pos(3) by (simp add: ins)
  then have es': "rw_entries ?pool' = rw_inserted c mem r ?es" by (simp add: rw_entries_def o_def)
  have "has_key c mem (cr_buffer e)" if "e \<in> set (rw_inserted c mem r ?es)" for e
    using rw_inserted_buffers [OF that] assms(1,2) by (auto simp: r_def rw_invar_def)
  moreover have "sorted (map (key_at c mem \<circ> cr_buffer) (rw_inserted c mem r ?es))"
    using assms(1) by (intro rw_inserted_sorted) (simp add: rw_invar_def)
  moreover have "length (map Some (rw_inserted c mem r ?es) @ ys) = PAGE_SIZE c"
    using data(1,2) les len' by simp
  ultimately have "rw_invar c mem ?pool'"
    unfolding rw_invar_def es' using len' assms(3) by auto
  moreover have "mset (map (\<lambda>r. (cr_buffer r, cr_client_sock_fd r, cr_req_type r)) (rw_inserted c mem r ?es)) =
      add_mset (buf, fd, t) (mset (map (\<lambda>r. (cr_buffer r, cr_client_sock_fd r, cr_req_type r)) ?es))"
    by (subst mset_rw_inserted) (simp_all add: r_def)
  ultimately show ?thesis
    using run es' unfolding r_def [symmetric] by simp
qed

text \<open>
  C2. Inserting a request into a well-formed pool with room succeeds, keeps the pool well formed
  (its entries sorted by key) and puts the request in front of the first entry whose key is not
  smaller. Every other entry keeps its buffer, its client and its type; the entries behind the new
  one all take over its batch reference.
\<close>

theorem insert_read_write_inserts:
  assumes "rw_invar c mem pool" "has_key c mem buf" "rw_length pool < PAGE_SIZE c"
  shows "\<exists>pool'. insert_read_write c mem buf fd t ref pool = Inr pool' \<and> rw_invar c mem pool' \<and>
    rw_length pool' = rw_length pool + 1 \<and>
    rw_entries pool' = rw_inserted c mem
      \<lparr>cr_req_type = t, cr_req_batch_ref = Some ref, cr_client_sock_fd = fd, cr_buffer = buf\<rparr> (rw_entries pool) \<and>
    mset (map (\<lambda>r. (cr_buffer r, cr_client_sock_fd r, cr_req_type r)) (rw_entries pool')) =
      add_mset (buf, fd, t) (mset (map (\<lambda>r. (cr_buffer r, cr_client_sock_fd r, cr_req_type r)) (rw_entries pool)))"
  using assms by (rule rw_insert_ok)

text \<open>A pool whose array is written by hand: three requests of one client batch.\<close>

definition sample_mem :: "byte list" where
  "sample_mem = replicate 5 0 @ [9] @ replicate 5 0 @ [3] @ replicate 5 0 @ [5]"

definition sample_req :: "int \<Rightarrow> nat \<Rightarrow> conn_req" where
  "sample_req fd buf = \<lparr>cr_req_type = READ, cr_req_batch_ref = Some 7, cr_client_sock_fd = fd, cr_buffer = buf\<rparr>"

definition sample_config :: config where
  "sample_config = cmake_config\<lparr>PAGE_SIZE := 4\<rparr>"

definition sample_pool :: readwrite_pool where
  "sample_pool = \<lparr>rw_data = [Some (sample_req 2 6), Some (sample_req 1 0), None, None], rw_length = 2,
     rw_num_sent = 0, rw_present_in_level = None\<rparr>"

lemma sample_pool_ok:
  "rw_invar sample_config sample_mem sample_pool" "has_key sample_config sample_mem 12"
  by code_simp+

theorem insert_read_write_inserts_witness:
  "\<exists>pool'. insert_read_write sample_config sample_mem 12 3 READ 7 sample_pool = Inr pool' \<and>
     rw_entries pool' = [sample_req 2 6, sample_req 3 12, sample_req 1 0]"
proof -
  have "rw_length sample_pool < PAGE_SIZE sample_config" by code_simp
  moreover have "rw_inserted sample_config sample_mem (sample_req 3 12) (rw_entries sample_pool) =
      [sample_req 2 6, sample_req 3 12, sample_req 1 0]"
    by code_simp
  ultimately show ?thesis
    using insert_read_write_inserts [OF sample_pool_ok, of 3 READ 7]
    unfolding sample_req_def by metis
qed

lemma rw_shift_full:
  assumes "data = xs @ map Some es" "n = length es" "i = length xs"
  shows "rw_shift n i r data = Inl OutOfBounds"
  using assms
proof (induction es arbitrary: n i r data xs)
  case (Cons e es)
  have "cell data i = Inr e" "i < length data"
    using Cons.prems by (simp_all add: nth_append)
  moreover have "data[i := Some r] = (xs @ [Some r]) @ map Some es" using Cons.prems by simp
  ultimately show ?case using Cons.prems Cons.IH [of "data[i := Some r]" "xs @ [Some r]"] by simp
qed simp

text \<open>
  A full pool is not protected: inserting one more request writes outside the array, whatever
  its key (the comment above the function says it is guaranteed to succeed).
\<close>

lemma insert_read_write_full:
  assumes "rw_invar c mem pool" "has_key c mem buf" "rw_length pool = PAGE_SIZE c" "0 < PAGE_SIZE c"
  shows "insert_read_write c mem buf fd t ref pool = Inl OutOfBounds"
proof -
  let ?len = "rw_length pool" and ?es = "rw_entries pool"
  define P where "P = (\<lambda>i. key_at c mem (cr_buffer (?es ! i)) < key_at c mem buf)"
  define p where "p = lower_bound 1 P 0 ?len"
  have len: "0 < ?len" "length (rw_data pool) = ?len" "length ?es = ?len"
    using assms length_rw_entries [OF assms(1)] by (auto simp: rw_invar_def)
  have data: "rw_data pool = map Some ?es"
    using len by (intro nth_equalityI) (simp_all add: rw_data_nth(2) [OF assms(1)])
  have "\<exists>q. rw_search (rw_below c mem (rw_data pool) (request_key c mem buf)) 0 ?len 0 = Inr (p, q) \<and>
      (0 < ?len \<and> p = ?len \<longrightarrow> q + 1 = ?len) \<and> (?len \<le> 0 \<longrightarrow> q = 0)"
    unfolding p_def P_def using rw_below_ok [OF assms(1) length_key_at [OF assms(2)]] assms(2) by (intro rw_search_ok) simp
  then obtain q where q: "rw_search (rw_below c mem (rw_data pool) (request_key c mem buf)) 0 ?len 0 = Inr (p, q)"
      "p = ?len \<Longrightarrow> q + 1 = ?len"
    using len(1) by blast
  have "rw_shift (?len - p) p r (rw_data pool) = Inl OutOfBounds" for r
    using rw_inserted_position(3) [OF assms(1) p_def [unfolded P_def]] len data
    by (intro rw_shift_full [where xs = "map Some (take p ?es)" and es = "drop p ?es"])
      (simp_all flip: map_append)
  moreover have "rupd (rw_data pool) (q + (if p > 0 then 1 else 0)) x = Inl OutOfBounds" if "p = ?len" for x
    using that q(2) len by simp
  ultimately have "(if p = ?len then rupd (rw_data pool) (q + (if p > 0 then 1 else 0)) (Some r)
      else rw_shift (?len - p) p r (rw_data pool)) = Inl OutOfBounds" for r
    by simp
  then show ?thesis
    unfolding insert_read_write_def Let_def using len(1)
    by (simp only: q(1) rbind_simps prod.case less_numeral_extra(3) if_False simp_thms neq0_conv [symmetric])
qed

lemma insert_read_write_full_example:
  "insert_read_write (sample_config\<lparr>PAGE_SIZE := 2\<rparr>) sample_mem 12 3 READ 7
     (sample_pool\<lparr>rw_data := [Some (sample_req 2 6), Some (sample_req 1 0)]\<rparr>) = Inl OutOfBounds"
  by (rule insert_read_write_full) code_simp+



text \<open>
  The buffers of two clients with consecutive descriptors overlap: the slot of a client is
  scaled by one byte, not by the length of a socket buffer.
\<close>

lemma connection_buffers_overlap:
  assumes "1 \<le> fd" "fd < int n"
  shows "\<exists>p1 p2 s1 s2 r1 r2. cp_insert fd RECV (new_connection_pool n pool_start) = Inr (p1, s1) \<and>
    cp_insert (fd + 1) RECV p1 = Inr (p2, s2) \<and>
    cell (cp_connections p2) s1 = Inr r1 \<and> cell (cp_connections p2) s2 = Inr r2 \<and>
    cr_client_sock_fd r1 = fd \<and> cr_client_sock_fd r2 = fd + 1 \<and>
    cr_buffer r2 = cr_buffer r1 + 1 \<and>
    {cr_buffer r1 ..< cr_buffer r1 + SOCKET_BUFFER_LENGTH c} \<inter>
      {cr_buffer r2 ..< cr_buffer r2 + SOCKET_BUFFER_LENGTH c} \<noteq> {}"
proof -
  define i where "i = nat (fd - 1)"
  have i: "fd = int i + 1" "Suc i < n" using assms by (auto simp: i_def)
  then show ?thesis
    by (simp add: cp_insert_def new_connection_pool_def Let_def nat_add_distrib
        SOCKET_BUFFER_LENGTH_def cell_def)
qed

lemma connection_buffers_overlap_example:
  "\<exists>p1 p2 s1 s2 r1 r2. cp_insert 1 RECV (new_connection_pool 100 0) = Inr (p1, s1) \<and>
    cp_insert 2 RECV p1 = Inr (p2, s2) \<and>
    cell (cp_connections p2) s1 = Inr r1 \<and> cell (cp_connections p2) s2 = Inr r2 \<and>
    cr_buffer r2 = cr_buffer r1 + 1"
  using connection_buffers_overlap [of 1 100 0 cmake_config] by (simp del: cmake_config_simps) blast

end
