(* ===== verification/Stack_Impl.thy ===== *)
theory Stack_Impl
  imports Read_Write_Pool
begin

text \<open>
  \<^verbatim>\<open>sstable/stack/stack.hpp\<close>: the explicit stack of the tree traversals. A cell holds four
  \<open>unsigned int\<close>s and is \<open>None\<close> until \<open>push_top\<close> has written it.
\<close>

type_synonym stack_cell = "uint \<times> uint \<times> uint \<times> uint"

record stack =
  st_back :: uint
  st_data :: "stack_cell option list"

definition new_stack :: "nat \<Rightarrow> stack" where
  "new_stack len = \<lparr>st_back = 0, st_data = replicate len None\<rparr>"

definition push_top :: "uint \<Rightarrow> uint \<Rightarrow> uint \<Rightarrow> uint \<Rightarrow> stack \<Rightarrow> stack res" where
  "push_top desired_sstable_offset cur_request left right s =
     rbind (rupd (st_data s) (unat (st_back s)) (Some (desired_sstable_offset, cur_request, left, right)))
       (\<lambda>d. Inr (s\<lparr>st_data := d, st_back := st_back s + 1\<rparr>))"

definition stack_top :: "stack \<Rightarrow> stack_cell res" where
  "stack_top s = cell (st_data s) (unat (st_back s))"

definition pop_top :: "stack \<Rightarrow> stack" where
  "pop_top s = s\<lparr>st_back := st_back s - 1\<rparr>"

definition stack_empty :: "stack \<Rightarrow> bool" where
  "stack_empty s \<longleftrightarrow> st_back s = 0"

text \<open>The cells below \<open>back\<close>, as the pushes and pops see them.\<close>

definition stack_contents :: "stack \<Rightarrow> stack_cell option list" where
  "stack_contents s = take (unat (st_back s)) (st_data s)"

definition stack_invar :: "stack \<Rightarrow> bool" where
  "stack_invar s \<longleftrightarrow> unat (st_back s) \<le> length (st_data s) \<and> length (st_data s) < 2 ^ 32"

lemma push_top_ok:
  assumes "stack_invar s" "unat (st_back s) < length (st_data s)"
  shows "\<exists>s'. push_top a b l r s = Inr s' \<and> stack_invar s' \<and> unat (st_back s') = unat (st_back s) + 1 \<and>
    st_data s' = (st_data s)[unat (st_back s) := Some (a, b, l, r)]"
proof -
  have "unat (st_back s + 1) = unat (st_back s) + 1"
    using assms by (simp add: stack_invar_def unat_word_ariths)
  then show ?thesis using assms by (simp add: push_top_def stack_invar_def)
qed

text \<open>
  Pushing and popping follow the stack discipline (a pop after a push restores the contents,
  and the stack is empty exactly when nothing is on it), but \<open>top\<close> after a push does not return the
  cell pushed: it reads the cell above it, whatever that still holds.
\<close>

lemma stack_push_pop_top:
  assumes "stack_invar s" "unat (st_back s) < length (st_data s)"
  shows "\<exists>s'. push_top a b l r s = Inr s' \<and> stack_invar s' \<and>
    stack_contents s' = stack_contents s @ [Some (a, b, l, r)] \<and> \<not> stack_empty s' \<and>
    stack_contents (pop_top s') = stack_contents s \<and> stack_empty (pop_top s') = (stack_contents s = []) \<and>
    stack_top s' = cell (st_data s) (unat (st_back s) + 1)"
proof -
  let ?b = "unat (st_back s)"
  from push_top_ok [OF assms, of a b l r] obtain s' where
      s': "push_top a b l r s = Inr s'" "stack_invar s'" "unat (st_back s') = ?b + 1"
        "st_data s' = (st_data s)[?b := Some (a, b, l, r)]" by blast
  have "st_back s' = st_back s + 1" using s'(1) assms(2) by (auto simp: push_top_def)
  then have b: "st_back (pop_top s') = st_back s" "st_data (pop_top s') = st_data s'"
    by (simp_all add: pop_top_def)
  have "stack_contents s' = stack_contents s @ [Some (a, b, l, r)]"
    using assms(2) by (simp add: stack_contents_def s' take_Suc_conv_app_nth)
  moreover have "\<not> stack_empty s'" using s'(3) by (auto simp: stack_empty_def)
  moreover have "stack_contents (pop_top s') = stack_contents s" by (simp add: stack_contents_def b s'(4))
  moreover have "stack_empty (pop_top s') = (stack_contents s = [])"
    using assms(2) by (auto simp: stack_empty_def stack_contents_def b unat_eq_zero)
  moreover have "stack_top s' = cell (st_data s) (?b + 1)"
    by (simp add: stack_top_def cell_def rnth_def s')
  ultimately show ?thesis using s'(1,2) by blast
qed

lemma stack_push_pop_top_example:
  "\<exists>s'. push_top 1 2 3 4 (new_stack 20) = Inr s' \<and> stack_contents s' = [Some (1, 2, 3, 4)] \<and>
     stack_top s' = Inl Indeterminate"
proof -
  have "stack_invar (new_stack 20)" by (simp add: stack_invar_def new_stack_def)
  moreover have "unat (st_back (new_stack 20)) < length (st_data (new_stack 20))"
      "stack_contents (new_stack 20) = []"
      "cell (st_data (new_stack 20)) (unat (st_back (new_stack 20)) + 1) = Inl Indeterminate"
    by code_simp+
  ultimately show ?thesis using stack_push_pop_top [of "new_stack 20" 1 2 3 4] by auto
qed

end
