(* ===== verification/Request_Batch.thy ===== *)
theory Request_Batch
  imports Stack_Impl
begin

text \<open>
  \<^verbatim>\<open>request_segment.hpp\<close> and \<^verbatim>\<open>request_batch.hpp\<close>: the segment a memtable is turned into
  when it is flushed, and the batch, whose content is either a pool of requests or a segment. The
  union's constructor \<open>Content() {}\<close> constructs neither member, which is the constructor
  \<open>Uninitialised\<close>.
\<close>

section \<open>RequestSegment\<close>

record request_segment =
  rs_stack :: stack
  rs_data :: "byte option list"

definition new_request_segment :: "config \<Rightarrow> request_segment" where
  "new_request_segment c = \<lparr>rs_stack = new_stack (max_sstable_height c), rs_data = []\<rparr>"

text \<open>One \<open>memcpy\<close> of an entry from the memtable into the tree.\<close>

definition copy_entry ::
    "config \<Rightarrow> byte list \<Rightarrow> nat \<Rightarrow> nat \<Rightarrow> byte option list \<Rightarrow> byte option list res" where
  "copy_entry c memtable_data dst src data =
     rbind (rslice memtable_data src (KEY_LENGTH c + VALUE_LENGTH c)) (\<lambda>e. rblit data dst (map Some e))"

text \<open>\<open>top_tree_index[back]\<close> with the signed index \<open>back\<close>.\<close>

definition tree_index :: "uint option list \<Rightarrow> int \<Rightarrow> uint res" where
  "tree_index ix b = rbind (rassert OutOfBounds (0 \<le> b)) (\<lambda>_. cell ix (nat b))"

definition set_tree_index :: "uint option list \<Rightarrow> int \<Rightarrow> uint \<Rightarrow> uint option list res" where
  "set_tree_index ix b v = rbind (rassert OutOfBounds (0 \<le> b)) (\<lambda>_. rupd ix (nat b) (Some v))"

record segment_state =
  sg_stack :: stack
  sg_data :: "byte option list"
  sg_top_tree_index :: "uint option list"
  sg_back :: int

text \<open>
  One of the two branches of the loop body: push the child, record its tree index and copy the
  entry at memtable offset \<open>src\<close> to byte \<open>tree_index\<close> of the tree.
\<close>

definition visit_child ::
    "config \<Rightarrow> byte list \<Rightarrow> uint \<Rightarrow> uint \<Rightarrow> uint \<Rightarrow> uint \<Rightarrow> uint \<Rightarrow> segment_state \<Rightarrow> segment_state res" where
  "visit_child c memtable_data child lo hi ix src st =
     rbind (push_top child lo hi 0 (sg_stack st)) (\<lambda>stk.
       rbind (set_tree_index (sg_top_tree_index st) (sg_back st) ix) (\<lambda>tti.
         rbind (copy_entry c memtable_data (unat ix) (unat src) (sg_data st)) (\<lambda>d.
           Inr (st\<lparr>sg_stack := stk, sg_top_tree_index := tti, sg_data := d, sg_back := sg_back st + 1\<rparr>))))"

definition segment_step :: "config \<Rightarrow> byte list \<Rightarrow> segment_state \<Rightarrow> segment_state res" where
  "segment_step c memtable_data st =
     rbind (stack_top (sg_stack st)) (\<lambda>(current, left, right, _).
       let left_child = drop_bit 1 (left + current);
           right_child = drop_bit 1 (current + right)
       in rbind (tree_index (sg_top_tree_index st) (sg_back st)) (\<lambda>ti.
            let tree_base = push_bit 1 ti;
                st1 = st\<lparr>sg_stack := pop_top (sg_stack st), sg_back := sg_back st - 1\<rparr>
            in rbind (if left_child < current
                      then visit_child c memtable_data left_child left current (tree_base + 1) left st1
                      else Inr st1) (\<lambda>st2.
                 if right_child > current
                 then visit_child c memtable_data right_child current right (tree_base + 2) right st2
                 else Inr st2)))"

text \<open>\<open>while (!stack.empty())\<close>; \<open>None\<close> is a traversal that never ends.\<close>

partial_function (option) segment_loop ::
    "config \<Rightarrow> byte list \<Rightarrow> segment_state \<Rightarrow> segment_state res option" where
  "segment_loop c memtable_data st =
     (if stack_empty (sg_stack st) then Some (Inr st)
      else case segment_step c memtable_data st of
             Inl e \<Rightarrow> Some (Inl e)
           | Inr st' \<Rightarrow> segment_loop c memtable_data st')"

definition insert_memtable ::
    "config \<Rightarrow> byte list \<Rightarrow> request_segment \<Rightarrow> request_segment res option" where
  "insert_memtable c memtable_data seg =
     (case rbind (push_top (of_nat (MEMTABLE_SIZE c div 2)) 0 (of_nat (MEMTABLE_SIZE c)) 0 (rs_stack seg)) (\<lambda>stk.
             rbind (copy_entry c memtable_data 0 (MEMTABLE_SIZE c div 2) (replicate (MEMTABLE_SIZE c) None)) (\<lambda>d.
               rbind (rupd (replicate (max_sstable_height c) None) 0 (Some 0)) (\<lambda>tti.
                 Inr \<lparr>sg_stack = stk, sg_data = d, sg_top_tree_index = tti, sg_back = 0\<rparr>))) of
        Inl e \<Rightarrow> Some (Inl e)
      | Inr st \<Rightarrow> map_option (map_sum id (\<lambda>st'. \<lparr>rs_stack = sg_stack st', rs_data = sg_data st'\<rparr>))
                  (segment_loop c memtable_data st))"

text \<open>
  Turning a full-size memtable into a segment never completes: after pushing the root, the
  traversal's first look at the top of the fresh stack reads a cell nobody has written.
\<close>

lemma insert_memtable_reads_unwritten:
  assumes "2 \<le> max_sstable_height c" "length memtable_data = MEMTABLE_SIZE c"
    and "KEY_LENGTH c + VALUE_LENGTH c \<le> MEMTABLE_SIZE c div 2"
  shows "insert_memtable c memtable_data (new_request_segment c) = Some (Inl Indeterminate)"
proof -
  obtain m where m: "max_sstable_height c = Suc (Suc m)"
    using assms(1) by (metis add_2_eq_Suc le_iff_add)
  let ?root = "(of_nat (MEMTABLE_SIZE c div 2), 0, of_nat (MEMTABLE_SIZE c), 0) :: stack_cell"
  let ?stk = "\<lparr>st_back = 1, st_data = Some ?root # None # replicate m None\<rparr>"
  have stk: "push_top (of_nat (MEMTABLE_SIZE c div 2)) 0 (of_nat (MEMTABLE_SIZE c)) 0
      (rs_stack (new_request_segment c)) = Inr ?stk"
    by (simp add: new_request_segment_def new_stack_def push_top_def m)
  have "MEMTABLE_SIZE c div 2 + (KEY_LENGTH c + VALUE_LENGTH c) \<le> length memtable_data"
    using assms(2,3) by linarith
  moreover have "length (block memtable_data (MEMTABLE_SIZE c div 2) (KEY_LENGTH c + VALUE_LENGTH c)) \<le> MEMTABLE_SIZE c"
    using assms(2) by simp
  ultimately have "\<exists>d. copy_entry c memtable_data 0 (MEMTABLE_SIZE c div 2) (replicate (MEMTABLE_SIZE c) None) = Inr d"
    by (simp add: copy_entry_def)
  then obtain d where
      d: "copy_entry c memtable_data 0 (MEMTABLE_SIZE c div 2) (replicate (MEMTABLE_SIZE c) None) = Inr d" ..
  have top: "stack_top ?stk = Inl Indeterminate" "\<not> stack_empty ?stk"
    by (simp_all add: stack_top_def cell_def stack_empty_def)
  have "segment_loop c memtable_data
      \<lparr>sg_stack = ?stk, sg_data = d, sg_top_tree_index = Some 0 # None # replicate m None, sg_back = 0\<rparr> =
      Some (Inl Indeterminate)"
    by (subst segment_loop.simps) (simp add: segment_step_def top)
  then show ?thesis by (simp add: insert_memtable_def stk d m)
qed

lemma insert_memtable_reads_unwritten_example:
  "insert_memtable cmake_config (replicate (MEMTABLE_SIZE cmake_config) 0)
     (new_request_segment cmake_config) = Some (Inl Indeterminate)"
  by (rule insert_memtable_reads_unwritten)
    (simp_all add: max_sstable_height_def MEMTABLE_SIZE_def)

section \<open>RequestBatch\<close>

datatype content = Uninitialised | Pool readwrite_pool | Segment request_segment

record request_batch =
  rb_req_type :: RequestType
  rb_content :: content

definition new_request_batch :: "RequestType \<Rightarrow> request_batch" where
  "new_request_batch t = \<lparr>rb_req_type = t, rb_content = Uninitialised\<rparr>"

text \<open>\<open>content.readwrite_pool\<close> and \<open>content.req_seg\<close> as the code accesses them.\<close>

definition batch_pool :: "request_batch \<Rightarrow> readwrite_pool res" where
  "batch_pool b = (case rb_content b of Pool p \<Rightarrow> Inr p | _ \<Rightarrow> Inl Indeterminate)"

definition batch_segment :: "request_batch \<Rightarrow> request_segment res" where
  "batch_segment b = (case rb_content b of Segment s \<Rightarrow> Inr s | _ \<Rightarrow> Inl Indeterminate)"

definition delete_request_batch :: "request_batch \<Rightarrow> unit res" where
  "delete_request_batch b =
     (if rb_req_type b = COMPACTION then rbind (batch_segment b) (\<lambda>_. Inr ())
      else rbind (batch_pool b) (\<lambda>_. Inr ()))"

text \<open>The batch passes its own address \<open>this\<close> as the reference.\<close>

definition batch_insert_read_write ::
    "config \<Rightarrow> byte list \<Rightarrow> nat \<Rightarrow> nat \<Rightarrow> int \<Rightarrow> RequestType \<Rightarrow> request_batch \<Rightarrow> request_batch res" where
  "batch_insert_read_write c mem this buf fd t b =
     rbind (batch_pool b) (\<lambda>p.
       rbind (insert_read_write c mem buf fd t this p) (\<lambda>p'. Inr (b\<lparr>rb_content := Pool p'\<rparr>)))"

definition batch_invar :: "config \<Rightarrow> byte list \<Rightarrow> nat \<Rightarrow> request_batch \<Rightarrow> bool" where
  "batch_invar c mem this b \<longleftrightarrow>
     (\<exists>p. rb_content b = Pool p \<and> rw_invar c mem p \<and>
          (\<forall>r \<in> set (rw_entries p). cr_req_batch_ref r = Some this))"

lemma rw_inserted_same_ref:
  assumes "\<forall>e \<in> set es. cr_req_batch_ref e = cr_req_batch_ref r"
  shows "rw_inserted c mem r es =
    (let below = (\<lambda>e. key_at c mem (cr_buffer e) < key_at c mem (cr_buffer r))
     in takeWhile below es @ r # dropWhile below es)"
proof -
  have "map (cr_req_batch_ref_update (\<lambda>_. cr_req_batch_ref r)) xs = xs" if "set xs \<subseteq> set es" for xs
    using that assms by (intro map_idI) (auto intro!: conn_req.equality)
  then show ?thesis by (simp add: rw_inserted_def Let_def set_dropWhileD subsetI)
qed

lemma batch_insert_ok:
  assumes "batch_invar c mem this b" "has_key c mem buf" "batch_pool b = Inr p" "rw_length p < PAGE_SIZE c"
  shows "\<exists>b' p'. batch_insert_read_write c mem this buf fd t b = Inr b' \<and> batch_invar c mem this b' \<and>
    batch_pool b' = Inr p' \<and> rw_length p' = rw_length p + 1 \<and>
    rw_entries p' = takeWhile (\<lambda>e. key_at c mem (cr_buffer e) < key_at c mem buf) (rw_entries p) @
      \<lparr>cr_req_type = t, cr_req_batch_ref = Some this, cr_client_sock_fd = fd, cr_buffer = buf\<rparr> #
      dropWhile (\<lambda>e. key_at c mem (cr_buffer e) < key_at c mem buf) (rw_entries p)"
proof -
  let ?r = "\<lparr>cr_req_type = t, cr_req_batch_ref = Some this, cr_client_sock_fd = fd, cr_buffer = buf\<rparr>"
  have p: "rb_content b = Pool p" "rw_invar c mem p" "\<forall>r \<in> set (rw_entries p). cr_req_batch_ref r = Some this"
    using assms(1,3) by (auto simp: batch_invar_def batch_pool_def)
  from rw_insert_ok [OF p(2) assms(2,4), of fd t this] obtain p' where
      p': "insert_read_write c mem buf fd t this p = Inr p'" "rw_invar c mem p'"
        "rw_length p' = rw_length p + 1" "rw_entries p' = rw_inserted c mem ?r (rw_entries p)" by blast
  then have es: "rw_entries p' = takeWhile (\<lambda>e. key_at c mem (cr_buffer e) < key_at c mem buf) (rw_entries p) @
      ?r # dropWhile (\<lambda>e. key_at c mem (cr_buffer e) < key_at c mem buf) (rw_entries p)"
    using p(3) by (subst (asm) rw_inserted_same_ref) (simp_all add: Let_def)
  moreover have "\<forall>r \<in> set (rw_entries p'). cr_req_batch_ref r = Some this"
    unfolding es using p(3) by (auto dest: set_takeWhileD set_dropWhileD)
  ultimately show ?thesis
    using p(1) p' by (simp add: batch_insert_read_write_def batch_pool_def batch_invar_def)
qed

lemma batch_insert_sorted:
  assumes "batch_invar c mem this b" "has_key c mem buf" "batch_pool b = Inr p" "rw_length p < PAGE_SIZE c"
  shows "\<exists>b' p'. batch_insert_read_write c mem this buf fd t b = Inr b' \<and> batch_invar c mem this b' \<and>
    batch_pool b' = Inr p' \<and> mset (rw_entries p') = add_mset
      \<lparr>cr_req_type = t, cr_req_batch_ref = Some this, cr_client_sock_fd = fd, cr_buffer = buf\<rparr> (mset (rw_entries p))"
proof -
  let ?P = "\<lambda>e. key_at c mem (cr_buffer e) < key_at c mem buf"
  have "mset (rw_entries p) = mset (takeWhile ?P (rw_entries p)) + mset (dropWhile ?P (rw_entries p))"
    by (metis mset_append takeWhile_dropWhile_id)
  with batch_insert_ok [OF assms, of fd t] show ?thesis by auto
qed

text \<open>
  C8. As long as a batch refers every request to itself, the careless copy of the batch reference
  in the shift loop is invisible: inserting a request keeps the requests sorted, leaves all others
  exactly as they were, and all of them still refer to the batch.
\<close>

theorem batch_insert_keeps_requests:
  assumes "batch_invar c mem this b" "has_key c mem buf" "batch_pool b = Inr p" "rw_length p < PAGE_SIZE c"
  shows "\<exists>b' p'. batch_insert_read_write c mem this buf fd t b = Inr b' \<and> batch_invar c mem this b' \<and>
    batch_pool b' = Inr p' \<and> rw_length p' = rw_length p + 1 \<and>
    rw_entries p' = takeWhile (\<lambda>e. key_at c mem (cr_buffer e) < key_at c mem buf) (rw_entries p) @
      \<lparr>cr_req_type = t, cr_req_batch_ref = Some this, cr_client_sock_fd = fd, cr_buffer = buf\<rparr> #
      dropWhile (\<lambda>e. key_at c mem (cr_buffer e) < key_at c mem buf) (rw_entries p)"
  using assms by (rule batch_insert_ok)

theorem batch_insert_keeps_requests_witness:
  "\<exists>b' p'. batch_insert_read_write sample_config sample_mem 7 12 3 READ
      \<lparr>rb_req_type = READ, rb_content = Pool sample_pool\<rparr> = Inr b' \<and>
    batch_pool b' = Inr p' \<and> rw_entries p' = [sample_req 2 6, sample_req 3 12, sample_req 1 0]"
proof -
  let ?b = "\<lparr>rb_req_type = READ, rb_content = Pool sample_pool\<rparr>"
  have ent: "rw_entries sample_pool = [sample_req 2 6, sample_req 1 0]" by code_simp
  have "batch_invar sample_config sample_mem 7 ?b"
    using sample_pool_ok(1) by (simp add: batch_invar_def ent sample_req_def)
  moreover have "rw_length sample_pool < PAGE_SIZE sample_config" by code_simp
  moreover have "key_at sample_config sample_mem 6 < key_at sample_config sample_mem 12"
      "\<not> key_at sample_config sample_mem 0 < key_at sample_config sample_mem 12"
    by code_simp+
  ultimately show ?thesis
    using batch_insert_keeps_requests [of sample_config sample_mem 7 ?b 12 sample_pool 3 READ] sample_pool_ok(2)
    by (auto simp: batch_pool_def ent sample_req_def)
qed

text \<open>
  A batch as its constructor leaves it has no initialised content: the first insertion, and
  the destructor, read an indeterminate member.
\<close>

lemma fresh_batch_indeterminate:
  "batch_insert_read_write c mem this buf fd t (new_request_batch t') = Inl Indeterminate \<and>
   delete_request_batch (new_request_batch t') = Inl Indeterminate"
  by (simp add: batch_insert_read_write_def delete_request_batch_def batch_pool_def batch_segment_def
      new_request_batch_def)

end
