(* ===== verification/Fifo.thy ===== *)
theory Fifo
  imports RingDB_Prelude
begin

text \<open>
  The contract of a first-in first-out queue, as the clients of \<open>BufferQueue\<close> and
  \<open>RequestBatchWaitQueue\<close> rely on it. \<open>room q n\<close> says that \<open>n\<close> more elements can be enqueued; a
  dequeue is allowed while more than \<open>lag\<close> elements are in the queue. The lemmas on sequences of
  operations are proved here once.
\<close>

text \<open>Enqueue a list from left to right; dequeue \<open>n\<close> elements, in the order they come out.\<close>

fun enq_list :: "('a \<Rightarrow> 'q \<Rightarrow> 'q res) \<Rightarrow> 'a list \<Rightarrow> 'q \<Rightarrow> 'q res" where
  "enq_list enq [] q = Inr q"
| "enq_list enq (x # xs) q = rbind (enq x q) (enq_list enq xs)"

fun deq_n :: "('q \<Rightarrow> ('a \<times> 'q) res) \<Rightarrow> nat \<Rightarrow> 'q \<Rightarrow> ('a list \<times> 'q) res" where
  "deq_n deq 0 q = Inr ([], q)"
| "deq_n deq (Suc n) q =
     rbind (deq q) (\<lambda>(x, q'). rbind (deq_n deq n q') (\<lambda>(xs, q''). Inr (x # xs, q'')))"

locale fifo =
  fixes enq :: "'a \<Rightarrow> 'q \<Rightarrow> 'q res"
    and deq :: "'q \<Rightarrow> ('a \<times> 'q) res"
    and contents :: "'q \<Rightarrow> 'a list"
    and invar :: "'q \<Rightarrow> bool"
    and room :: "'q \<Rightarrow> nat \<Rightarrow> bool"
    and lag :: nat
  assumes enq_ok: "invar q \<Longrightarrow> room q (Suc n) \<Longrightarrow>
      \<exists>q'. enq x q = Inr q' \<and> invar q' \<and> room q' n \<and> contents q' = contents q @ [x]"
    and deq_ok: "invar q \<Longrightarrow> lag < length (contents q) \<Longrightarrow>
      \<exists>q'. deq q = Inr (hd (contents q), q') \<and> invar q' \<and> contents q' = tl (contents q)"
    and deq_room: "invar q \<Longrightarrow> lag < length (contents q) \<Longrightarrow> deq q = Inr (x, q') \<Longrightarrow>
      room q n \<Longrightarrow> room q' (Suc n)"
begin

lemma enq_list_ok:
  "invar q \<Longrightarrow> room q (length xs + n) \<Longrightarrow>
   \<exists>q'. enq_list enq xs q = Inr q' \<and> invar q' \<and> room q' n \<and> contents q' = contents q @ xs"
proof (induction xs arbitrary: q)
  case Nil
  then show ?case by simp
next
  case (Cons x xs)
  from Cons.prems obtain q1 where q1: "enq x q = Inr q1" "invar q1"
      "room q1 (length xs + n)" "contents q1 = contents q @ [x]"
    using enq_ok [of q "length xs + n" x] by auto
  with Cons.IH [of q1] show ?case by auto
qed

lemma deq_n_ok:
  "invar q \<Longrightarrow> n + lag \<le> length (contents q) \<Longrightarrow>
   \<exists>q'. deq_n deq n q = Inr (take n (contents q), q') \<and> invar q' \<and> contents q' = drop n (contents q)"
proof (induction n arbitrary: q)
  case 0
  then show ?case by simp
next
  case (Suc n)
  then obtain q1 where q1: "deq q = Inr (hd (contents q), q1)" "invar q1"
      "contents q1 = tl (contents q)"
    using deq_ok [of q] by auto
  have "n + lag \<le> length (contents q1)" using Suc.prems q1 by simp
  with Suc.IH q1 obtain q2 where q2: "deq_n deq n q1 = Inr (take n (contents q1), q2)" "invar q2"
      "contents q2 = drop n (contents q1)"
    by blast
  have "contents q \<noteq> []" using Suc.prems by auto
  then have "take (Suc n) (contents q) = hd (contents q) # take n (contents q1)"
    using q1(3) by (cases "contents q") auto
  then show ?case
    using q1 q2 \<open>contents q \<noteq> []\<close> by (auto simp: drop_Suc)
qed

text \<open>What comes out is what went in, in order, behind what was already there.\<close>

lemma enq_then_deq:
  assumes "invar q" "room q (length xs)" "n + lag \<le> length (contents q) + length xs"
  shows "\<exists>q1 q2. enq_list enq xs q = Inr q1 \<and> deq_n deq n q1 = Inr (take n (contents q @ xs), q2) \<and>
    invar q2 \<and> contents q2 = drop n (contents q @ xs)"
proof -
  from assms(1,2) obtain q1 where q1: "enq_list enq xs q = Inr q1" "invar q1"
      "contents q1 = contents q @ xs"
    using enq_list_ok [of q xs 0] by auto
  with assms(3) deq_n_ok [of q1 n] show ?thesis by auto
qed

text \<open>Moving elements to another queue of the same kind keeps them all, in order.\<close>

lemma move_between:
  assumes "invar p" "n + lag \<le> length (contents p)" "invar q" "room q n"
  shows "\<exists>xs p' q'. deq_n deq n p = Inr (xs, p') \<and> enq_list enq xs q = Inr q' \<and>
    invar p' \<and> invar q' \<and> contents p = xs @ contents p' \<and> contents q' = contents q @ xs"
proof -
  from assms(1,2) obtain p' where p': "deq_n deq n p = Inr (take n (contents p), p')" "invar p'"
      "contents p' = drop n (contents p)"
    using deq_n_ok by blast
  have "length (take n (contents p)) = n" using assms(2) by simp
  with assms(3,4) obtain q' where "enq_list enq (take n (contents p)) q = Inr q'" "invar q'"
      "contents q' = contents q @ take n (contents p)"
    using enq_list_ok [of q "take n (contents p)" 0] by auto
  with p' show ?thesis by auto
qed

end

end
