(* ===== verification/Buffer_Queue.thy ===== *)
theory Buffer_Queue
  imports Fifo Constants
begin

text \<open>
  \<^verbatim>\<open>level_info/buffer_queue/buffer_queue.hpp\<close>: the ring buffer through which SSTables hand page
  cache buffers to each other. A buffer is the address of its first byte, 0 is \<open>nullptr\<close>.
  \<open>push_back\<close> advances \<open>back\<close> before it writes and \<open>pop_front\<close> reads at \<open>queue_front\<close>
  before it advances, both starting at 0: the queue delivers in order, but one element late.
\<close>

type_synonym buf = nat

record buffer_queue =
  bq_queue_front :: uint
  bq_back :: uint
  bq_cur_num_buffers :: uint
  bq_num_new_buffers :: uint
  bq_queue :: "buf list"
  bq_atomic_guard :: byte
  bq_is_single_thread :: bool

text \<open>
  A constructed queue. The slots of the array and \<open>is_single_thread\<close> have no initialiser: what
  they hold is an argument. The template's \<open>length\<close> is the length of the array.
\<close>

definition new_buffer_queue :: "config \<Rightarrow> buf list \<Rightarrow> bool \<Rightarrow> buffer_queue" where
  "new_buffer_queue c slots single =
     \<lparr>bq_queue_front = 0, bq_back = 0, bq_cur_num_buffers = of_nat (max_sstable_height c),
      bq_num_new_buffers = 0, bq_queue = slots, bq_atomic_guard = 1, bq_is_single_thread = single\<rparr>"

definition bq_front :: "buffer_queue \<Rightarrow> buf res" where
  "bq_front q = rnth (bq_queue q) (unat (bq_queue_front q))"

definition bq_push_back :: "buf \<Rightarrow> buffer_queue \<Rightarrow> buffer_queue res" where
  "bq_push_back buffer q =
     (if bq_queue q = [] then Inl DivByZero
      else let b = (bq_back q + 1) mod of_nat (length (bq_queue q))
           in rbind (rupd (bq_queue q) (unat b) buffer)
                (\<lambda>slots. Inr (q\<lparr>bq_back := b, bq_queue := slots,
                   bq_cur_num_buffers := bq_cur_num_buffers q + 1,
                   bq_num_new_buffers := bq_num_new_buffers q + 1\<rparr>)))"

definition bq_pop_front :: "buffer_queue \<Rightarrow> (buf \<times> buffer_queue) res" where
  "bq_pop_front q =
     (if bq_queue q = [] then Inl DivByZero
      else rbind (rnth (bq_queue q) (unat (bq_queue_front q)))
             (\<lambda>front_buffer. Inr (front_buffer,
                q\<lparr>bq_cur_num_buffers := bq_cur_num_buffers q - 1,
                  bq_num_new_buffers := bq_num_new_buffers q - 1,
                  bq_queue_front := (bq_queue_front q + 1) mod of_nat (length (bq_queue q))\<rparr>)))"

section \<open>Invariant and abstraction\<close>

abbreviation bq_len :: "buffer_queue \<Rightarrow> nat" where
  "bq_len q \<equiv> length (bq_queue q)"

text \<open>The ring's contents: the slots from \<open>queue_front\<close> up to and including \<open>back\<close>.\<close>

definition bq_contents :: "buffer_queue \<Rightarrow> buf list" where
  "bq_contents q =
     map (\<lambda>i. bq_queue q ! ((unat (bq_queue_front q) + i) mod bq_len q))
       [0 ..< Suc (unat (bq_num_new_buffers q))]"

definition bq_invar :: "buffer_queue \<Rightarrow> bool" where
  "bq_invar q \<longleftrightarrow> 0 < bq_len q \<and> bq_len q < 2 ^ 32 \<and> unat (bq_queue_front q) < bq_len q \<and>
     unat (bq_num_new_buffers q) < bq_len q \<and>
     unat (bq_back q) = (unat (bq_queue_front q) + unat (bq_num_new_buffers q)) mod bq_len q"

definition bq_room :: "buffer_queue \<Rightarrow> nat \<Rightarrow> bool" where
  "bq_room q n \<longleftrightarrow> unat (bq_num_new_buffers q) + n < bq_len q"

lemma unat_ring_succ:
  fixes w :: uint
  assumes "unat w < n" "n < 2 ^ 32"
  shows "unat ((w + 1) mod of_nat n) = (unat w + 1) mod n"
proof -
  have "unat (of_nat n :: uint) = n" using assms(2) by (simp add: unat_of_nat)
  moreover have "unat (w + 1) = unat w + 1" using assms by (simp add: unat_word_ariths)
  ultimately show ?thesis by (simp add: unat_mod)
qed

lemma ring_slot_neq:
  "i < k \<Longrightarrow> k < n \<Longrightarrow> (f + i) mod n \<noteq> (f + k) mod (n :: nat)"
  by (metis (no_types, lifting) add_diff_cancel_left less_imp_diff_less mod_eq_dvd_iff_nat
      nat_dvd_not_less nat_add_left_cancel_less order_less_imp_le zero_less_diff)

lemma bq_push_back_ok:
  assumes "bq_invar q" "bq_room q (Suc n)"
  shows "\<exists>q'. bq_push_back x q = Inr q' \<and> bq_invar q' \<and> bq_room q' n \<and>
    bq_contents q' = bq_contents q @ [x]"
proof -
  let ?L = "bq_len q" and ?f = "unat (bq_queue_front q)" and ?k = "unat (bq_num_new_buffers q)"
  let ?b = "(bq_back q + 1) mod of_nat ?L"
  define q' where "q' = q\<lparr>bq_back := ?b, bq_queue := (bq_queue q)[unat ?b := x],
    bq_cur_num_buffers := bq_cur_num_buffers q + 1,
    bq_num_new_buffers := bq_num_new_buffers q + 1\<rparr>"
  have L: "0 < ?L" "?L < 2 ^ 32" "?f < ?L" "Suc ?k < ?L"
    using assms by (auto simp: bq_invar_def bq_room_def)
  have bk: "unat (bq_back q) = (?f + ?k) mod ?L" using assms(1) by (simp add: bq_invar_def)
  have b: "unat ?b = (?f + Suc ?k) mod ?L"
  proof -
    have "unat (bq_back q) < ?L" using bk L(1) by simp
    from unat_ring_succ [OF this L(2)] show ?thesis
      by (simp add: bk mod_Suc_eq)
  qed
  have k: "unat (bq_num_new_buffers q + 1) = Suc ?k"
    using L by (simp add: unat_word_ariths)
  have "bq_push_back x q = Inr q'"
    using L(1) b by (auto simp: bq_push_back_def q'_def Let_def)
  moreover have "bq_invar q'"
    using L k b by (simp add: bq_invar_def q'_def)
  moreover have "bq_room q' n"
    using assms(2) k by (simp add: bq_room_def q'_def)
  moreover have "bq_contents q' = bq_contents q @ [x]"
  proof -
    have "(bq_queue q)[unat ?b := x] ! ((?f + i) mod ?L) = bq_queue q ! ((?f + i) mod ?L)"
      if "i < Suc ?k" for i
      using ring_slot_neq [OF that L(4), of ?f] by (simp add: b nth_list_update)
    moreover have "(bq_queue q)[unat ?b := x] ! ((?f + Suc ?k) mod ?L) = x"
      using L(1) by (simp add: b)
    ultimately show ?thesis
      by (simp add: bq_contents_def q'_def k del: upt_Suc) (simp add: upt_Suc_append del: upt_Suc)
  qed
  ultimately show ?thesis by blast
qed

lemma bq_pop_front_ok:
  assumes "bq_invar q" "1 < length (bq_contents q)"
  shows "\<exists>q'. bq_pop_front q = Inr (hd (bq_contents q), q') \<and> bq_invar q' \<and>
    bq_contents q' = tl (bq_contents q) \<and> bq_len q' = bq_len q \<and>
    unat (bq_num_new_buffers q) = Suc (unat (bq_num_new_buffers q'))"
proof -
  let ?L = "bq_len q" and ?f = "unat (bq_queue_front q)"
  obtain k where k: "unat (bq_num_new_buffers q) = Suc k"
    using assms(2) by (cases "unat (bq_num_new_buffers q)") (auto simp: bq_contents_def)
  define q' where "q' = q\<lparr>bq_cur_num_buffers := bq_cur_num_buffers q - 1,
    bq_num_new_buffers := bq_num_new_buffers q - 1,
    bq_queue_front := (bq_queue_front q + 1) mod of_nat ?L\<rparr>"
  have L: "0 < ?L" "?L < 2 ^ 32" "?f < ?L" using assms(1) by (auto simp: bq_invar_def)
  have f: "unat ((bq_queue_front q + 1) mod of_nat ?L) = Suc ?f mod ?L"
    using unat_ring_succ [OF L(3,2)] by simp
  have k': "unat (bq_num_new_buffers q - 1) = k"
    using k by (simp add: unat_sub_if')
  have "bq_pop_front q = Inr (hd (bq_contents q), q')"
  proof -
    have "hd (bq_contents q) = bq_queue q ! ?f"
      using L(3) by (simp add: bq_contents_def upt_rec del: upt_Suc)
    then show ?thesis using L by (auto simp: bq_pop_front_def q'_def)
  qed
  moreover have "bq_invar q'"
    using assms(1) L f k k' by (simp add: bq_invar_def q'_def mod_add_left_eq)
  moreover have "bq_contents q' = tl (bq_contents q)"
  proof -
    have "tl [0 ..< Suc (Suc k)] = map Suc [0 ..< Suc k]"
      by (simp add: map_Suc_upt tl_upt del: upt_Suc)
    then show ?thesis
      using L by (simp add: bq_contents_def q'_def f k k' mod_add_left_eq o_def
        del: upt_Suc flip: map_tl)
  qed
  ultimately show ?thesis using k k' by (auto simp: q'_def)
qed

interpretation bq: fifo bq_push_back bq_pop_front bq_contents bq_invar bq_room 1
proof (unfold_locales, goal_cases)
  case (1 q n x)
  then show ?case by (rule bq_push_back_ok)
next
  case (2 q)
  then show ?case using bq_pop_front_ok [of q] by blast
next
  case (3 q x q' n)
  then show ?case using bq_pop_front_ok [of q] by (auto simp: bq_room_def)
qed

lemma new_buffer_queue_invar:
  assumes "slots \<noteq> []" "length slots < 2 ^ 32"
  shows "bq_invar (new_buffer_queue c slots single)"
    and "bq_contents (new_buffer_queue c slots single) = [hd slots]"
    and "bq_room (new_buffer_queue c slots single) n \<longleftrightarrow> n < length slots"
  using assms by (auto simp: bq_invar_def bq_contents_def bq_room_def new_buffer_queue_def hd_conv_nth)

text \<open>
  C22. Buffers handed over through a \<open>BufferQueue\<close> come out in the order they went in, none lost or
  repeated, behind one phantom element: the first \<open>pop_front\<close> of a new queue returns what happened
  to be in slot 0, and the \<open>i\<close>-th one the buffer of the push before.
\<close>

theorem buffer_queue_fifo_one_late:
  assumes "length xs < length slots" "length slots < 2 ^ 32" "n \<le> length xs"
  shows "\<exists>q1 q2. enq_list bq_push_back xs (new_buffer_queue c slots single) = Inr q1 \<and>
    deq_n bq_pop_front n q1 = Inr (take n (hd slots # xs), q2) \<and>
    bq_invar q2 \<and> bq_contents q2 = drop n (hd slots # xs)"
proof -
  have ne: "slots \<noteq> []" using assms(1) by auto
  note new = new_buffer_queue_invar [OF ne assms(2), of c single]
  show ?thesis
    using bq.enq_then_deq [of "new_buffer_queue c slots single" xs n] new assms by simp
qed

theorem buffer_queue_fifo_one_late_witness:
  "\<exists>q1 q2. enq_list bq_push_back [7, 8] (new_buffer_queue cmake_config [99, 0, 0, 0] True) = Inr q1 \<and>
    deq_n bq_pop_front 2 q1 = Inr ([99, 7], q2) \<and> bq_invar q2 \<and> bq_contents q2 = [8]"
  using buffer_queue_fifo_one_late [of "[7, 8]" "[99, 0, 0, 0]" 2 cmake_config True] by simp

text \<open>Popping a queue with no new buffer still returns a slot, and both counters go below 0.\<close>

lemma bq_pop_front_empty:
  assumes "bq_invar q" "bq_num_new_buffers q = 0"
  shows "\<exists>q'. bq_pop_front q = Inr (bq_queue q ! unat (bq_queue_front q), q') \<and>
    bq_num_new_buffers q' = - 1"
  using assms by (auto simp: bq_pop_front_def bq_invar_def)

end
