(* ===== verification/Wait_Queue.thy ===== *)
theory Wait_Queue
  imports Fifo
begin

text \<open>
  \<^verbatim>\<open>sstable/request_batch/request_batch_wait_queue.hpp\<close>: the linked queue in front of every
  SSTable. Nodes live in an explicit heap: \<open>new\<close> takes the next unused address, \<open>delete\<close> removes
  the node, and an access through a null or deleted pointer is undefined behaviour. Address 0 is
  \<open>nullptr\<close>. The element type stands for \<open>RequestBatch*\<close>.
\<close>

record 'b node =
  nd_req_batch :: 'b
  nd_next :: nat

record 'b wait_queue =
  wq_front :: nat
  wq_back :: nat
  wq_size :: uint
  wq_atomic_consumer_guard :: byte
  wq_atomic_producer_guard :: byte
  wq_is_single_thread :: bool
  wq_heap :: "nat \<Rightarrow> 'b node option"
  wq_alloc :: nat

text \<open>A constructed queue; \<open>back\<close> and \<open>is_single_thread\<close> have no initialiser.\<close>

definition new_wait_queue :: "nat \<Rightarrow> bool \<Rightarrow> 'b wait_queue" where
  "new_wait_queue garbage single =
     \<lparr>wq_front = 0, wq_back = garbage, wq_size = 0, wq_atomic_consumer_guard = 1,
      wq_atomic_producer_guard = 1, wq_is_single_thread = single, wq_heap = Map.empty, wq_alloc = 1\<rparr>"

definition deref :: "(nat \<Rightarrow> 'b node option) \<Rightarrow> nat \<Rightarrow> 'b node res" where
  "deref h p =
     (if p = 0 then Inl NullDeref
      else case h p of None \<Rightarrow> Inl UseAfterFree | Some n \<Rightarrow> Inr n)"

definition new_node :: "'b \<Rightarrow> 'b wait_queue \<Rightarrow> nat \<times> 'b wait_queue" where
  "new_node b q =
     (wq_alloc q, q\<lparr>wq_heap := (wq_heap q)(wq_alloc q \<mapsto> \<lparr>nd_req_batch = b, nd_next = 0\<rparr>),
                    wq_alloc := Suc (wq_alloc q)\<rparr>)"

text \<open>\<open>front = back = new Node(req_batch)\<close>.\<close>

definition start_list :: "'b \<Rightarrow> 'b wait_queue \<Rightarrow> 'b wait_queue" where
  "start_list b q = (let (p, q1) = new_node b q in q1\<lparr>wq_front := p, wq_back := p\<rparr>)"

text \<open>\<open>back->next = new Node(req_batch)\<close>, with \<open>back\<close> moved on to the new node or not.\<close>

definition link_back :: "bool \<Rightarrow> 'b \<Rightarrow> 'b wait_queue \<Rightarrow> 'b wait_queue res" where
  "link_back move b q =
     (let (p, q1) = new_node b q
      in rbind (deref (wq_heap q1) (wq_back q1))
           (\<lambda>n. Inr (q1\<lparr>wq_heap := (wq_heap q1)(wq_back q1 \<mapsto> n\<lparr>nd_next := p\<rparr>),
                        wq_back := (if move then p else wq_back q1)\<rparr>)))"

definition add_size :: "uint \<Rightarrow> 'b wait_queue \<Rightarrow> 'b wait_queue" where
  "add_size d q = q\<lparr>wq_size := wq_size q + d\<rparr>"

definition standard_push_back :: "'b \<Rightarrow> 'b wait_queue \<Rightarrow> 'b wait_queue res" where
  "standard_push_back b q =
     rbind (if wq_front q = 0 then Inr (start_list b q) else link_back True b q)
       (\<lambda>q'. Inr (if wq_is_single_thread q' then q' else add_size 1 q'))"

definition try_push_back :: "'b \<Rightarrow> bool \<Rightarrow> 'b wait_queue \<Rightarrow> (bool \<times> 'b wait_queue) res" where
  "try_push_back b could_contend_with_consumer q =
     (if wq_is_single_thread q then
        rbind (standard_push_back b q) (\<lambda>q'. Inr (True, q'))
      else if could_contend_with_consumer then
        (if wq_atomic_consumer_guard q = 0 then Inr (False, q)
         else rbind (standard_push_back b q) (\<lambda>q'. Inr (True, q')))
      else
        (let size_var = sint (wq_size q)
         in if 1 < size_var then
              rbind (link_back True b q) (\<lambda>q'. Inr (True, add_size 1 q'))
            else if size_var = 0 then
              (if wq_atomic_consumer_guard q = 0 then Inr (False, q)
               else Inr (True, add_size 1 (start_list b q)))
            else if size_var = 1 then
              (if wq_atomic_consumer_guard q = 0 then Inr (False, q)
               else rbind (link_back False b q) (\<lambda>q'. Inr (True, add_size 1 q')))
            else Inr (True, add_size 1 (start_list b q))))"

text \<open>
  \<open>guard.size.fetch_sub(1) - 1 >= 0\<close> compares an \<open>unsigned int\<close> with 0. The source declares
  \<open>node2\<close> without the star; it is read as the pointer it is used as.
\<close>

definition wq_pop_front :: "'b wait_queue \<Rightarrow> ('b option \<times> 'b wait_queue) res" where
  "wq_pop_front q =
     (if wq_is_single_thread q then
        (if wq_front q \<noteq> 0 then
           rbind (deref (wq_heap q) (wq_front q))
             (\<lambda>n. Inr (Some (nd_req_batch n),
                q\<lparr>wq_heap := (wq_heap q)(wq_front q := None), wq_front := nd_next n\<rparr>))
         else Inr (None, q))
      else
        (let q1 = add_size (- 1) q
         in if 0 \<le> wq_size q - 1 then
              rbind (deref (wq_heap q1) (wq_front q1))
                (\<lambda>n. Inr (Some (nd_req_batch n),
                   q1\<lparr>wq_front := nd_next n, wq_atomic_consumer_guard := 1,
                      wq_heap := (wq_heap q1)(wq_front q1 := None)\<rparr>))
            else Inr (None, (add_size 1 q1)\<lparr>wq_atomic_consumer_guard := 1\<rparr>)))"

text \<open>The caller's view of a pop that it goes on to dereference.\<close>

definition wq_take :: "'b wait_queue \<Rightarrow> ('b \<times> 'b wait_queue) res" where
  "wq_take q =
     rbind (wq_pop_front q)
       (\<lambda>(r, q'). case r of None \<Rightarrow> Inl NullDeref | Some b \<Rightarrow> Inr (b, q'))"

section \<open>The list in the heap\<close>

fun lseg :: "(nat \<Rightarrow> 'b node option) \<Rightarrow> nat \<Rightarrow> (nat \<times> 'b) list \<Rightarrow> bool" where
  "lseg h p [] \<longleftrightarrow> p = 0"
| "lseg h p ((a, b) # ns) \<longleftrightarrow> p = a \<and> a \<noteq> 0 \<and>
     (\<exists>n. h a = Some \<lparr>nd_req_batch = b, nd_next = n\<rparr> \<and> lseg h n ns)"

fun walk :: "nat \<Rightarrow> (nat \<Rightarrow> 'b node option) \<Rightarrow> nat \<Rightarrow> (nat \<times> 'b) list" where
  "walk 0 h p = []"
| "walk (Suc fuel) h p =
     (if p = 0 then []
      else case h p of None \<Rightarrow> [] | Some n \<Rightarrow> (p, nd_req_batch n) # walk fuel h (nd_next n))"

text \<open>
  Every node of the list has its own address below \<open>wq_alloc\<close>, so that many steps reach its end.
\<close>

definition wq_nodes :: "'b wait_queue \<Rightarrow> (nat \<times> 'b) list" where
  "wq_nodes q = walk (wq_alloc q) (wq_heap q) (wq_front q)"

definition wq_contents :: "'b wait_queue \<Rightarrow> 'b list" where
  "wq_contents q = map snd (wq_nodes q)"

definition wq_rep :: "'b wait_queue \<Rightarrow> (nat \<times> 'b) list \<Rightarrow> bool" where
  "wq_rep q ns \<longleftrightarrow> lseg (wq_heap q) (wq_front q) ns \<and> distinct (map fst ns) \<and>
     (\<forall>a \<in> fst ` set ns. a < wq_alloc q) \<and> (ns \<noteq> [] \<longrightarrow> wq_back q = fst (last ns)) \<and>
     0 < wq_alloc q \<and> (wq_is_single_thread q \<or> wq_size q = of_nat (length ns))"

definition wq_invar :: "'b wait_queue \<Rightarrow> bool" where
  "wq_invar q \<longleftrightarrow> wq_rep q (wq_nodes q)"

lemma lseg_fresh [simp]: "a \<notin> fst ` set ns \<Longrightarrow> lseg (h(a := v)) p ns = lseg h p ns"
  by (induction h p ns rule: lseg.induct) auto

lemma lseg_nonzero: "lseg h p ns \<Longrightarrow> a \<in> fst ` set ns \<Longrightarrow> a \<noteq> 0"
  by (induction h p ns rule: lseg.induct) auto

lemma walk_lseg: "lseg h p ns \<Longrightarrow> length ns \<le> fuel \<Longrightarrow> walk fuel h p = ns"
proof (induction fuel arbitrary: p ns)
  case 0
  then show ?case by simp
next
  case (Suc fuel)
  then show ?case by (cases ns) (auto split: option.splits)
qed

lemma wq_rep_nodes: "wq_rep q ns \<Longrightarrow> wq_nodes q = ns"
proof -
  assume r: "wq_rep q ns"
  have "set (map fst ns) \<subseteq> {1 ..< wq_alloc q}"
    using r lseg_nonzero unfolding wq_rep_def by fastforce
  then have "card (set (map fst ns)) \<le> card {1 ..< wq_alloc q}"
    by (intro card_mono) auto
  moreover have "card (set (map fst ns)) = length ns"
    using r distinct_card [of "map fst ns"] by (simp add: wq_rep_def)
  ultimately have "length ns \<le> wq_alloc q" by simp
  with r show ?thesis by (simp add: wq_rep_def wq_nodes_def walk_lseg)
qed

lemma wq_repI: "wq_rep q ns \<Longrightarrow> wq_invar q \<and> wq_contents q = map snd ns"
  by (simp add: wq_invar_def wq_contents_def wq_rep_nodes)

lemma wq_invarE:
  assumes "wq_invar q"
  obtains ns where "wq_rep q ns" "wq_contents q = map snd ns"
  using assms by (auto simp: wq_invar_def wq_contents_def)

text \<open>Hanging a node behind the last one.\<close>

lemma lseg_snoc:
  assumes "lseg h p ns" "distinct (map fst ns)" "ns \<noteq> []" "a \<noteq> 0" "a \<notin> fst ` set ns"
  shows "\<exists>n. h (fst (last ns)) = Some n \<and>
    lseg (h(a \<mapsto> \<lparr>nd_req_batch = b, nd_next = 0\<rparr>, fst (last ns) \<mapsto> n\<lparr>nd_next := a\<rparr>)) p (ns @ [(a, b)])"
  using assms
proof (induction ns arbitrary: p)
  case (Cons xc ns)
  obtain x c where xc: "xc = (x, c)" by (cases xc)
  with Cons.prems obtain m where m: "p = x" "x \<noteq> 0" "h x = Some \<lparr>nd_req_batch = c, nd_next = m\<rparr>"
      "lseg h m ns"
    by auto
  show ?case
  proof (cases "ns = []")
    case True
    with m Cons.prems xc show ?thesis by auto
  next
    case False
    obtain n where n: "h (fst (last ns)) = Some n"
        "lseg (h(a \<mapsto> \<lparr>nd_req_batch = b, nd_next = 0\<rparr>, fst (last ns) \<mapsto> n\<lparr>nd_next := a\<rparr>)) m (ns @ [(a, b)])"
    proof -
      have "distinct (map fst ns)" "a \<notin> fst ` set ns" using Cons.prems(2,5) by auto
      then show thesis using Cons.IH [OF m(4) _ False Cons.prems(4)] that by blast
    qed
    have "fst (last ns) \<in> fst ` set ns" using False by simp
    then have "fst (last ns) \<noteq> x" using Cons.prems xc by auto
    with n m Cons.prems False xc show ?thesis by (intro exI [of _ n]) (simp add: fun_upd_def)
  qed
qed simp

section \<open>The operations implement a queue\<close>

lemma wq_rep_start:
  assumes "wq_front q = 0" "wq_rep q ns"
  shows "wq_rep (if wq_is_single_thread q then start_list b q else add_size 1 (start_list b q))
    [(wq_alloc q, b)]"
proof -
  have "ns = []" using assms by (cases ns) (auto simp: wq_rep_def)
  with assms show ?thesis
    by (auto simp: wq_rep_def start_list_def new_node_def add_size_def)
qed

lemma wq_rep_link:
  assumes "ns \<noteq> []" "wq_rep q ns"
  shows "\<exists>q'. link_back True b q = Inr q' \<and> wq_is_single_thread q' = wq_is_single_thread q \<and>
    wq_rep (if wq_is_single_thread q then q' else add_size 1 q') (ns @ [(wq_alloc q, b)])"
proof -
  let ?a = "wq_alloc q" and ?l = "fst (last ns)"
  have rep: "lseg (wq_heap q) (wq_front q) ns" "distinct (map fst ns)"
      "\<forall>a \<in> fst ` set ns. a < ?a" "wq_back q = ?l" "0 < ?a"
      "wq_is_single_thread q \<or> wq_size q = of_nat (length ns)"
    using assms by (auto simp: wq_rep_def)
  have fresh: "?a \<notin> fst ` set ns" using rep(3) by auto
  from lseg_snoc [OF rep(1,2) assms(1) _ fresh, of b] rep(5)
  obtain n where n: "wq_heap q ?l = Some n"
      "lseg ((wq_heap q)(?a \<mapsto> \<lparr>nd_req_batch = b, nd_next = 0\<rparr>, ?l \<mapsto> n\<lparr>nd_next := ?a\<rparr>))
         (wq_front q) (ns @ [(?a, b)])"
    by auto
  have "?l \<in> fst ` set ns" using assms(1) by simp
  then have l: "?l \<noteq> 0" "?l \<noteq> ?a"
    using lseg_nonzero [OF rep(1), of ?l] fresh by metis+
  have "\<forall>a \<in> fst ` set ns. a < Suc ?a" using rep(3) by auto
  with n l rep fresh show ?thesis
    by (auto simp: link_back_def new_node_def deref_def wq_rep_def add_size_def)
qed

lemma standard_push_back_rep:
  assumes "wq_rep q ns"
  shows "\<exists>q'. standard_push_back b q = Inr q' \<and> wq_rep q' (ns @ [(wq_alloc q, b)])"
proof (cases "ns = []")
  case True
  then have f: "wq_front q = 0" using assms by (simp add: wq_rep_def)
  moreover have "wq_is_single_thread (start_list b q) = wq_is_single_thread q"
    by (simp add: start_list_def new_node_def)
  ultimately show ?thesis
    using wq_rep_start [OF f assms, of b] True by (simp add: standard_push_back_def)
next
  case False
  then have "wq_front q \<noteq> 0" using assms by (cases ns) (auto simp: wq_rep_def)
  with wq_rep_link [OF False assms, of b] show ?thesis by (auto simp: standard_push_back_def)
qed

lemma wq_pop_front_rep:
  assumes "wq_rep q ((a, b) # ns)"
  shows "\<exists>q'. wq_pop_front q = Inr (Some b, q') \<and> wq_rep q' ns"
proof -
  let ?q' = "if wq_is_single_thread q
     then q\<lparr>wq_heap := (wq_heap q)(a := None), wq_front := if ns = [] then 0 else fst (hd ns)\<rparr>
     else q\<lparr>wq_size := wq_size q - 1, wq_front := if ns = [] then 0 else fst (hd ns),
            wq_atomic_consumer_guard := 1, wq_heap := (wq_heap q)(a := None)\<rparr>"
  have rep: "wq_front q = a" "a \<noteq> 0" "distinct (map fst ns)" "a \<notin> fst ` set ns"
      "\<forall>a \<in> fst ` set ns. a < wq_alloc q" "ns \<noteq> [] \<longrightarrow> wq_back q = fst (last ns)" "0 < wq_alloc q"
      "wq_is_single_thread q \<or> wq_size q = of_nat (length ns) + 1"
    using assms by (auto simp: wq_rep_def)
  obtain m where m: "wq_heap q a = Some \<lparr>nd_req_batch = b, nd_next = m\<rparr>" "lseg (wq_heap q) m ns"
    using assms by (auto simp: wq_rep_def)
  then have nx: "m = (if ns = [] then 0 else fst (hd ns))" by (cases ns) auto
  have "wq_pop_front q = Inr (Some b, ?q')"
    using rep m nx by (simp add: wq_pop_front_def deref_def add_size_def)
  moreover have "wq_rep ?q' ns"
    using rep m(2) nx by (auto simp: wq_rep_def)
  ultimately show ?thesis by blast
qed

interpretation wq: fifo standard_push_back wq_take wq_contents wq_invar "\<lambda>_ _. True" 0
proof (unfold_locales, goal_cases)
  case (1 q n x)
  then obtain ns where ns: "wq_rep q ns" "wq_contents q = map snd ns" by (elim wq_invarE)
  from standard_push_back_rep [OF ns(1), of x] obtain q' where
      "standard_push_back x q = Inr q'" "wq_rep q' (ns @ [(wq_alloc q, x)])" by blast
  with wq_repI [of q'] ns(2) show ?case by fastforce
next
  case (2 q)
  then obtain ns where ns: "wq_rep q ns" "wq_contents q = map snd ns" by (elim wq_invarE)
  with 2 obtain a b ms where "ns = (a, b) # ms" by (cases ns) auto
  with wq_pop_front_rep [of q a b ms] ns obtain q' where
      "wq_pop_front q = Inr (Some b, q')" "wq_rep q' ms" "ns = (a, b) # ms" by blast
  with wq_repI [of q'] ns(2) show ?case by (auto simp: wq_take_def)
qed simp

lemma new_wait_queue_rep: "wq_rep (new_wait_queue garbage single) []"
  by (simp add: wq_rep_def new_wait_queue_def)

lemma new_wait_queue_invar:
  "wq_invar (new_wait_queue garbage single)" "wq_contents (new_wait_queue garbage single) = []"
  by (rule wq_repI [OF new_wait_queue_rep, THEN conjunct1],
      simp add: wq_repI [OF new_wait_queue_rep])

text \<open>
  C1. The linked wait queue is a queue, in both modes and whatever the uninitialised \<open>back\<close> holds:
  batches appended with \<open>standard_push_back\<close> to a new queue are popped in the same order, with no
  access to a deleted node, and what is left are the batches not yet popped.
\<close>

theorem wait_queue_fifo:
  assumes "n \<le> length bs"
  shows "\<exists>q1 q2. enq_list standard_push_back bs (new_wait_queue garbage single) = Inr q1 \<and>
    deq_n wq_take n q1 = Inr (take n bs, q2) \<and> wq_invar q2 \<and> wq_contents q2 = drop n bs"
  using wq.enq_then_deq [where q = "new_wait_queue garbage single" and xs = bs and n = n] assms
  by (simp add: new_wait_queue_invar)

theorem wait_queue_fifo_witness:
  "\<exists>q1 q2. enq_list standard_push_back [10, 20, 30 :: nat] (new_wait_queue 77 False) = Inr q1 \<and>
    deq_n wq_take 2 q1 = Inr ([10, 20], q2) \<and> wq_invar q2 \<and> wq_contents q2 = [30]"
  using wait_queue_fifo [of 2 "[10, 20, 30 :: nat]" 77 False] by simp

section \<open>The lock-free producer path\<close>

text \<open>
  C9. As long as the consumer does not hold its guard, \<open>try_push_back\<close> succeeds and does exactly
  what \<open>standard_push_back\<close> does, on every branch but one: an uncontended push onto a
  multi-threaded queue that holds exactly one batch.
\<close>

theorem try_push_back_standard:
  assumes "wq_invar q" "length (wq_contents q) < 2 ^ 31" "wq_atomic_consumer_guard q \<noteq> 0"
    and "wq_is_single_thread q \<or> could_contend \<or> length (wq_contents q) \<noteq> 1"
  shows "try_push_back b could_contend q = rbind (standard_push_back b q) (\<lambda>q'. Inr (True, q'))"
proof (cases "wq_is_single_thread q \<or> could_contend")
  case True
  then show ?thesis using assms(3) by (auto simp: try_push_back_def)
next
  case False
  obtain ns where ns: "wq_rep q ns" "wq_contents q = map snd ns" using assms(1) by (elim wq_invarE)
  have len: "length ns < 2 ^ 31" "length ns \<noteq> 1" using assms(2,4) False ns by auto
  have size: "sint (wq_size q) = int (length ns)"
    using ns(1) False len(1) by (simp add: wq_rep_def sint_of_small_nat)
  have single: "link_back True b q = Inr q' \<Longrightarrow> \<not> wq_is_single_thread q'"
      "\<not> wq_is_single_thread (start_list b q)" for q'
    using False by (auto simp: link_back_def start_list_def new_node_def rbind_eq_Inr Let_def)
  show ?thesis
  proof (cases "ns = []")
    case True
    then have "wq_front q = 0" using ns(1) by (simp add: wq_rep_def)
    with True False assms(3) size single show ?thesis
      by (simp add: try_push_back_def standard_push_back_def)
  next
    case ne: False
    then have "wq_front q \<noteq> 0" using ns(1) by (cases ns) (auto simp: wq_rep_def)
    moreover have "1 < int (length ns)" using len(2) ne by (cases ns) auto
    ultimately show ?thesis
      using False size single
      by (cases "link_back True b q") (auto simp: try_push_back_def standard_push_back_def)
  qed
qed

theorem try_push_back_standard_witness:
  "try_push_back (5 :: nat) False (new_wait_queue 0 False) =
     rbind (standard_push_back 5 (new_wait_queue 0 False)) (\<lambda>q'. Inr (True, q'))"
proof (rule try_push_back_standard)
  show "wq_invar (new_wait_queue 0 False :: nat wait_queue)" by (rule new_wait_queue_invar)
qed (simp_all add: new_wait_queue_invar, simp_all add: new_wait_queue_def)

text \<open>
  On the remaining branch \<open>back\<close> is not moved to the new node, so the next push overwrites its
  link: of three batches pushed one after the other, without any contention, onto a new
  multi-threaded queue, the second is lost although the queue counts three.
\<close>

lemma try_push_back_loses_batch:
  "\<exists>q1 q2 q3. try_push_back a False (new_wait_queue garbage False) = Inr (True, q1) \<and>
     try_push_back b False q1 = Inr (True, q2) \<and> try_push_back c False q2 = Inr (True, q3) \<and>
     wq_contents q2 = [a, b] \<and> wq_contents q3 = [a, c] \<and> wq_size q3 = 3"
  by (simp add: try_push_back_def new_wait_queue_def start_list_def new_node_def add_size_def
      link_back_def deref_def wq_contents_def wq_nodes_def Let_def numeral_eq_Suc)

text \<open>
  \<open>pop_front\<close> of an empty queue returns no batch in single-threaded mode. In multi-threaded mode
  the test for emptiness compares an unsigned number with 0 and always passes, so the null
  \<open>front\<close> is dereferenced.
\<close>

lemma wq_pop_front_empty:
  assumes "wq_front q = 0"
  shows "wq_pop_front q = (if wq_is_single_thread q then Inr (None, q) else Inl NullDeref)"
  using assms by (simp add: wq_pop_front_def add_size_def deref_def)

lemma wq_pop_front_empty_example:
  "wq_pop_front (new_wait_queue 3 False :: nat wait_queue) = Inl NullDeref"
  using wq_pop_front_empty [of "new_wait_queue 3 False :: nat wait_queue"]
  by (simp add: new_wait_queue_def)

end
