(* ===== verification/Sparse_Index.thy ===== *)
theory Sparse_Index
  imports Constants
begin

text \<open>
  \<^verbatim>\<open>level_info/sparse_index/sparse_index.hpp\<close>: for every table of a level (or every memtable) the
  smallest and the largest key, in one byte array of \<open>LEVEL_FACTOR\<close> pairs. A \<open>char*\<close> into the
  array is the offset it has there.
\<close>

type_synonym sparse_index = "byte list"

definition new_sparse_index :: "config \<Rightarrow> sparse_index" where
  "new_sparse_index c = replicate (2 * KEY_LENGTH c * LEVEL_FACTOR c) 0"

definition get_table_min_key :: "config \<Rightarrow> nat \<Rightarrow> nat" where
  "get_table_min_key c table_num = 2 * KEY_LENGTH c * table_num"

definition get_table_max_key :: "config \<Rightarrow> nat \<Rightarrow> nat" where
  "get_table_max_key c table_num = 2 * KEY_LENGTH c * table_num + KEY_LENGTH c"

definition set_table_min_key :: "config \<Rightarrow> nat \<Rightarrow> key \<Rightarrow> sparse_index \<Rightarrow> sparse_index res" where
  "set_table_min_key c table_num k index = rblit index (2 * KEY_LENGTH c * table_num) k"

definition set_table_max_key :: "config \<Rightarrow> nat \<Rightarrow> key \<Rightarrow> sparse_index \<Rightarrow> sparse_index res" where
  "set_table_max_key c table_num k index =
     rblit index (2 * KEY_LENGTH c * table_num + KEY_LENGTH c) k"

definition insert_range ::
    "config \<Rightarrow> key \<Rightarrow> key \<Rightarrow> nat \<Rightarrow> sparse_index \<Rightarrow> sparse_index res" where
  "insert_range c min_key max_key table_num index =
     (let offset = 2 * KEY_LENGTH c * table_num
      in rbind (rblit index offset min_key) (\<lambda>index'. rblit index' (offset + KEY_LENGTH c) max_key))"

definition remove_table :: "config \<Rightarrow> nat \<Rightarrow> sparse_index \<Rightarrow> sparse_index res" where
  "remove_table c table_num index =
     (let offset = 2 * KEY_LENGTH c * table_num
      in rbind (rfill index offset (offset + KEY_LENGTH c) 0)
           (\<lambda>index'. rfill index' (offset + KEY_LENGTH c) (offset + 2 * KEY_LENGTH c) 0))"

text \<open>
  The loop of \<open>get_table_num\<close>: \<open>i\<close> is a byte offset that is bounded by \<open>LEVEL_FACTOR\<close>, and it is
  also what is returned; \<open>-1\<close> is the largest \<open>unsigned int\<close>. Keys have at least one byte (the
  guard keeps the function total).
\<close>

function get_table_num_from ::
    "config \<Rightarrow> key \<Rightarrow> nat \<Rightarrow> sparse_index \<Rightarrow> (uint \<times> sparse_index) res" where
  "get_table_num_from c k i index =
     (if i < LEVEL_FACTOR c \<and> 0 < KEY_LENGTH c then
        rbind (rslice index i (KEY_LENGTH c)) (\<lambda>lo.
          if memcmp lo (null_key (KEY_LENGTH c)) = 0 then
            rbind (rblit index i k) (\<lambda>index'. Inr (- 1, index'))
          else if memcmp lo k \<le> 0 then
            rbind (rslice index (i + KEY_LENGTH c) (KEY_LENGTH c)) (\<lambda>hi.
              if 0 \<le> memcmp hi k then
                (if memcmp hi (null_key (KEY_LENGTH c)) = 0 then
                   rbind (rblit index (i + KEY_LENGTH c) k) (\<lambda>index'. Inr (of_nat i, index'))
                 else Inr (of_nat i, index))
              else get_table_num_from c k (i + 2 * KEY_LENGTH c) index)
          else get_table_num_from c k (i + 2 * KEY_LENGTH c) index)
      else Inr (- 1, index))"
  by pat_completeness auto
termination
  by (relation "measure (\<lambda>(c, k, i, index). LEVEL_FACTOR c - i)") auto

declare get_table_num_from.simps [simp del]

definition get_table_num :: "config \<Rightarrow> key \<Rightarrow> sparse_index \<Rightarrow> (uint \<times> sparse_index) res" where
  "get_table_num c k index = get_table_num_from c k 0 index"

section \<open>The slots of the index\<close>

text \<open>What the users of the index rely on: numbered cells that keep what was written to them.\<close>

locale slots =
  fixes get_slot :: "'s \<Rightarrow> nat \<Rightarrow> 'v res"
    and set_slot :: "nat \<Rightarrow> 'v \<Rightarrow> 's \<Rightarrow> 's res"
    and invar :: "'s \<Rightarrow> bool"
    and valid :: "'v \<Rightarrow> bool"
    and count :: nat
  assumes set_slot_ok: "invar s \<Longrightarrow> i < count \<Longrightarrow> valid v \<Longrightarrow>
      \<exists>s'. set_slot i v s = Inr s' \<and> invar s' \<and> get_slot s' i = Inr v \<and>
        (\<forall>j < count. j \<noteq> i \<longrightarrow> get_slot s' j = get_slot s j)"
begin

text \<open>A sequence of writes to different slots can be read back in full.\<close>

lemma set_slots_ok:
  assumes "invar s" "distinct (map fst ivs)" "\<forall>(i, v) \<in> set ivs. i < count \<and> valid v"
  shows "\<exists>s'. rfold (\<lambda>(i, v). set_slot i v) ivs s = Inr s' \<and> invar s' \<and>
    (\<forall>(i, v) \<in> set ivs. get_slot s' i = Inr v) \<and>
    (\<forall>j < count. j \<notin> fst ` set ivs \<longrightarrow> get_slot s' j = get_slot s j)"
  using assms
proof (induction ivs arbitrary: s)
  case Nil
  then show ?case by simp
next
  case (Cons iv ivs)
  obtain i v where iv: "iv = (i, v)" by (cases iv)
  from Cons.prems iv obtain s1 where s1: "set_slot i v s = Inr s1" "invar s1"
      "get_slot s1 i = Inr v" "\<forall>j < count. j \<noteq> i \<longrightarrow> get_slot s1 j = get_slot s j"
    using set_slot_ok [of s i v] by auto
  from Cons.IH [OF s1(2)] Cons.prems obtain s' where
      s': "rfold (\<lambda>(i, v). set_slot i v) ivs s1 = Inr s'" "invar s'"
      "\<forall>(i, v) \<in> set ivs. get_slot s' i = Inr v"
      "\<forall>j < count. j \<notin> fst ` set ivs \<longrightarrow> get_slot s' j = get_slot s1 j"
    by auto
  have "get_slot s' i = Inr v"
    using s'(4) s1(3) Cons.prems iv by auto
  with s' s1 iv show ?case by auto
qed

end

definition si_invar :: "config \<Rightarrow> sparse_index \<Rightarrow> bool" where
  "si_invar c index \<longleftrightarrow> length index = 2 * KEY_LENGTH c * LEVEL_FACTOR c"

definition min_key_of :: "config \<Rightarrow> sparse_index \<Rightarrow> nat \<Rightarrow> key res" where
  "min_key_of c index t = rslice index (get_table_min_key c t) (KEY_LENGTH c)"

definition max_key_of :: "config \<Rightarrow> sparse_index \<Rightarrow> nat \<Rightarrow> key res" where
  "max_key_of c index t = rslice index (get_table_max_key c t) (KEY_LENGTH c)"

lemma pair_in_bounds:
  assumes "t < LEVEL_FACTOR c"
  shows "2 * KEY_LENGTH c * t + 2 * KEY_LENGTH c \<le> 2 * KEY_LENGTH c * LEVEL_FACTOR c"
proof -
  have "2 * KEY_LENGTH c * (t + 1) \<le> 2 * KEY_LENGTH c * LEVEL_FACTOR c"
    using assms by (intro mult_le_mono2) simp
  then show ?thesis by simp
qed

lemma pairs_apart:
  assumes "i < (j :: nat)"
  shows "2 * (kl :: nat) * i + 2 * kl \<le> 2 * kl * j"
proof -
  have "2 * kl * (i + 1) \<le> 2 * kl * j" using assms by (intro mult_le_mono2) simp
  then show ?thesis by simp
qed

lemmas si_defs = si_invar_def min_key_of_def max_key_of_def get_table_min_key_def
  get_table_max_key_def set_table_min_key_def set_table_max_key_def

text \<open>One cell at distance \<open>d\<close> in each pair (0 for the smallest, \<open>KEY_LENGTH\<close> for the largest key).\<close>

lemma cell_write:
  assumes "si_invar c s" "i < LEVEL_FACTOR c" "length v = KEY_LENGTH c" "d \<le> KEY_LENGTH c"
  shows "\<exists>s'. rblit s (2 * KEY_LENGTH c * i + d) v = Inr s' \<and> si_invar c s' \<and>
    rslice s' (2 * KEY_LENGTH c * i + d) (KEY_LENGTH c) = Inr v \<and>
    (\<forall>j < LEVEL_FACTOR c. j \<noteq> i \<longrightarrow>
      rslice s' (2 * KEY_LENGTH c * j + d) (KEY_LENGTH c) = rslice s (2 * KEY_LENGTH c * j + d) (KEY_LENGTH c))"
proof -
  have i: "2 * KEY_LENGTH c * i + d + length v \<le> length s"
    using assms pair_in_bounds [OF assms(2)] by (simp add: si_invar_def)
  have "block (blit s (2 * KEY_LENGTH c * i + d) v) (2 * KEY_LENGTH c * j + d) (KEY_LENGTH c) =
      block s (2 * KEY_LENGTH c * j + d) (KEY_LENGTH c)"
    and "2 * KEY_LENGTH c * j + d + KEY_LENGTH c \<le> length s"
    if "j < LEVEL_FACTOR c" "j \<noteq> i" for j
    using i assms that pair_in_bounds [OF that(1)]
      pairs_apart [of i j "KEY_LENGTH c"] pairs_apart [of j i "KEY_LENGTH c"]
    by (auto intro!: block_blit_disjoint simp: si_invar_def neq_iff)
  with i assms show ?thesis by (simp add: block_blit_same si_invar_def)
qed

interpretation min_slot: slots "min_key_of c" "set_table_min_key c" "si_invar c"
    "\<lambda>k. length k = KEY_LENGTH c" "LEVEL_FACTOR c" for c
proof (unfold_locales, goal_cases)
  case (1 s i v)
  then show ?case using cell_write [of c s i v 0] by (simp add: si_defs)
qed

interpretation max_slot: slots "max_key_of c" "set_table_max_key c" "si_invar c"
    "\<lambda>k. length k = KEY_LENGTH c" "LEVEL_FACTOR c" for c
proof (unfold_locales, goal_cases)
  case (1 s i v)
  then show ?case using cell_write [of c s i v "KEY_LENGTH c"] by (simp add: si_defs)
qed

lemma cell_other_half:
  assumes "si_invar c s" "i < LEVEL_FACTOR c" "length v = KEY_LENGTH c" "j < LEVEL_FACTOR c"
    "d \<le> KEY_LENGTH c" "e \<le> KEY_LENGTH c" "d + KEY_LENGTH c \<le> e \<or> e + KEY_LENGTH c \<le> d"
    "rblit s (2 * KEY_LENGTH c * i + d) v = Inr s'"
  shows "rslice s' (2 * KEY_LENGTH c * j + e) (KEY_LENGTH c) = rslice s (2 * KEY_LENGTH c * j + e) (KEY_LENGTH c)"
proof -
  have i: "2 * KEY_LENGTH c * i + d + length v \<le> length s"
    and j: "2 * KEY_LENGTH c * j + e + KEY_LENGTH c \<le> length s"
    using assms pair_in_bounds [OF assms(2)] pair_in_bounds [OF assms(4)] by (simp_all add: si_invar_def)
  have "block (blit s (2 * KEY_LENGTH c * i + d) v) (2 * KEY_LENGTH c * j + e) (KEY_LENGTH c) =
      block s (2 * KEY_LENGTH c * j + e) (KEY_LENGTH c)"
    using i j assms pairs_apart [of i j "KEY_LENGTH c"] pairs_apart [of j i "KEY_LENGTH c"]
    by (intro block_blit_disjoint) (auto simp: neq_iff intro: linorder_cases [of i j])
  moreover have "s' = blit s (2 * KEY_LENGTH c * i + d) v" using assms(8) i by simp
  ultimately show ?thesis using i j by simp
qed

lemma insert_range_keys:
  assumes "si_invar c index" "t < LEVEL_FACTOR c"
    "length lo = KEY_LENGTH c" "length hi = KEY_LENGTH c"
  shows "\<exists>index'. insert_range c lo hi t index = Inr index' \<and> si_invar c index' \<and>
    min_key_of c index' t = Inr lo \<and> max_key_of c index' t = Inr hi \<and>
    (\<forall>u < LEVEL_FACTOR c. u \<noteq> t \<longrightarrow>
      min_key_of c index' u = min_key_of c index u \<and> max_key_of c index' u = max_key_of c index u)"
proof -
  from min_slot.set_slot_ok [of c index t lo] assms obtain i1 where
      i1: "set_table_min_key c t lo index = Inr i1" "si_invar c i1" "min_key_of c i1 t = Inr lo"
      "\<forall>u < LEVEL_FACTOR c. u \<noteq> t \<longrightarrow> min_key_of c i1 u = min_key_of c index u"
    by auto
  from max_slot.set_slot_ok [of c i1 t hi] i1(2) assms obtain i2 where
      i2: "set_table_max_key c t hi i1 = Inr i2" "si_invar c i2" "max_key_of c i2 t = Inr hi"
      "\<forall>u < LEVEL_FACTOR c. u \<noteq> t \<longrightarrow> max_key_of c i2 u = max_key_of c i1 u"
    by auto
  have "max_key_of c i1 u = max_key_of c index u" if "u < LEVEL_FACTOR c" for u
    using cell_other_half [OF assms(1,2,3) that, of 0 "KEY_LENGTH c" i1] i1(1) by (simp add: si_defs)
  moreover have "min_key_of c i2 u = min_key_of c i1 u" if "u < LEVEL_FACTOR c" for u
    using cell_other_half [OF i1(2) assms(2,4) that, of "KEY_LENGTH c" 0 i2] i2(1) by (simp add: si_defs)
  moreover have "insert_range c lo hi t index = Inr i2"
    using i1(1) i2(1) by (simp add: insert_range_def Let_def si_defs)
  ultimately show ?thesis using i1 i2 assms(2) by (intro exI [of _ i2]) simp
qed

lemma remove_table_insert_range:
  assumes "si_invar c index" "t < LEVEL_FACTOR c"
  shows "remove_table c t index = insert_range c (null_key (KEY_LENGTH c)) (null_key (KEY_LENGTH c)) t index"
  using assms pair_in_bounds [OF assms(2)]
  by (simp add: remove_table_def insert_range_def Let_def rfill_def si_invar_def null_key_def)

text \<open>
  C21. The range table works: \<open>insert_range\<close> at a table of the level makes exactly that table's
  smallest and largest key the given ones, \<open>remove_table\<close> makes them null, and neither touches the
  other tables or leaves the array.
\<close>

theorem sparse_index_ranges:
  assumes "si_invar c index" "t < LEVEL_FACTOR c"
    and "length lo = KEY_LENGTH c" "length hi = KEY_LENGTH c"
  shows "\<exists>i1 i2. insert_range c lo hi t index = Inr i1 \<and> remove_table c t i1 = Inr i2 \<and>
    si_invar c i1 \<and> min_key_of c i1 t = Inr lo \<and> max_key_of c i1 t = Inr hi \<and>
    min_key_of c i2 t = Inr (null_key (KEY_LENGTH c)) \<and> max_key_of c i2 t = Inr (null_key (KEY_LENGTH c)) \<and>
    (\<forall>u < LEVEL_FACTOR c. u \<noteq> t \<longrightarrow>
      min_key_of c i1 u = min_key_of c index u \<and> max_key_of c i1 u = max_key_of c index u \<and>
      min_key_of c i2 u = min_key_of c index u \<and> max_key_of c i2 u = max_key_of c index u)"
proof -
  from insert_range_keys [OF assms] obtain i1 where i1: "insert_range c lo hi t index = Inr i1"
      "si_invar c i1" "min_key_of c i1 t = Inr lo" "max_key_of c i1 t = Inr hi"
      "\<forall>u < LEVEL_FACTOR c. u \<noteq> t \<longrightarrow>
        min_key_of c i1 u = min_key_of c index u \<and> max_key_of c i1 u = max_key_of c index u"
    by blast
  from insert_range_keys [OF i1(2) assms(2), of "null_key (KEY_LENGTH c)" "null_key (KEY_LENGTH c)"]
  show ?thesis using i1 remove_table_insert_range [OF i1(2) assms(2)] by auto
qed

theorem sparse_index_ranges_witness:
  "\<exists>i1 i2. insert_range cmake_config [3] [9] 4 (new_sparse_index cmake_config) = Inr i1 \<and>
    remove_table cmake_config 4 i1 = Inr i2 \<and> min_key_of cmake_config i1 4 = Inr [3] \<and>
    max_key_of cmake_config i2 4 = Inr [0]"
proof -
  have "si_invar cmake_config (new_sparse_index cmake_config)"
    by (simp add: si_invar_def new_sparse_index_def)
  from sparse_index_ranges [OF this, of 4 "[3]" "[9]"]
  show ?thesis by (auto simp: null_key_def)
qed

section \<open>Looking a key up\<close>

lemma si_cells:
  assumes "si_invar c index" "t < LEVEL_FACTOR c"
  shows "\<exists>lo hi. min_key_of c index t = Inr lo \<and> max_key_of c index t = Inr hi \<and>
    length lo = KEY_LENGTH c \<and> length hi = KEY_LENGTH c \<and>
    rslice index (2 * KEY_LENGTH c * t) (KEY_LENGTH c) = Inr lo \<and>
    rslice index (2 * KEY_LENGTH c * t + KEY_LENGTH c) (KEY_LENGTH c) = Inr hi"
  using assms pair_in_bounds [OF assms(2)] by (auto simp: si_defs)

text \<open>
  The result of a lookup that starts at the pair \<open>t\<close>: either no table, or the byte offset of a
  pair whose range holds the key, with the index unchanged.
\<close>

lemma get_table_num_from_result:
  assumes "si_invar c index" "length k = KEY_LENGTH c"
  shows "\<exists>r index'. get_table_num_from c k (2 * KEY_LENGTH c * t) index = Inr (r, index') \<and>
    si_invar c index' \<and>
    (\<forall>u < LEVEL_FACTOR c. max_key_of c index' u = max_key_of c index u) \<and>
    (r = - 1 \<or> index' = index \<and> (\<exists>u lo hi. u < LEVEL_FACTOR c \<and> 2 * KEY_LENGTH c * u < LEVEL_FACTOR c \<and>
       r = of_nat (2 * KEY_LENGTH c * u) \<and> min_key_of c index u = Inr lo \<and>
       max_key_of c index u = Inr hi \<and> lo \<le> k \<and> k \<le> hi))"
proof (induction "LEVEL_FACTOR c - 2 * KEY_LENGTH c * t" arbitrary: t rule: less_induct)
  case less
  let ?i = "2 * KEY_LENGTH c * t" and ?n = "null_key (KEY_LENGTH c)"
  show ?case
  proof (cases "?i < LEVEL_FACTOR c \<and> 0 < KEY_LENGTH c")
    case False
    then show ?thesis using assms(1) by (subst get_table_num_from.simps) auto
  next
    case guard: True
    have "t \<le> ?i" using guard by simp
    with guard have t: "t < LEVEL_FACTOR c" by (metis le_less_trans)
    from si_cells [OF assms(1) t] obtain lo hi where cells: "min_key_of c index t = Inr lo"
        "max_key_of c index t = Inr hi" "length lo = KEY_LENGTH c" "length hi = KEY_LENGTH c"
        "rslice index ?i (KEY_LENGTH c) = Inr lo" "rslice index (?i + KEY_LENGTH c) (KEY_LENGTH c) = Inr hi"
      by blast
    note step = get_table_num_from.simps [of c k ?i index]
    have nexti: "?i + 2 * KEY_LENGTH c = 2 * KEY_LENGTH c * Suc t" by simp
    have ord: "memcmp lo ?n = 0 \<longleftrightarrow> lo = ?n" "memcmp lo k \<le> 0 \<longleftrightarrow> lo \<le> k" "0 \<le> memcmp hi k \<longleftrightarrow> k \<le> hi"
        "memcmp hi ?n = 0 \<longleftrightarrow> hi = ?n"
      using cells(3,4) assms(2) by (simp_all add: memcmp_order)
    consider (free) "lo = ?n" | (hit) "lo \<noteq> ?n" "lo \<le> k" "k \<le> hi"
      | (miss) "lo \<noteq> ?n" "\<not> (lo \<le> k \<and> k \<le> hi)" by blast
    then show ?thesis
    proof cases
      case free
      from cell_write [OF assms(1) t assms(2), of 0] obtain index' where
          i': "rblit index ?i k = Inr index'" "si_invar c index'" by auto
      have "max_key_of c index' u = max_key_of c index u" if "u < LEVEL_FACTOR c" for u
        using cell_other_half [OF assms(1) t assms(2) that, of 0 "KEY_LENGTH c" index'] i'(1)
        by (simp add: si_defs)
      with free guard cells i' ord show ?thesis by (simp add: step)
    next
      case hit
      have "hi \<noteq> ?n"
        using hit not_below_null_key [OF cells(3) hit(1)] by auto
      with hit guard cells ord assms(1) t show ?thesis by (auto simp: step)
    next
      case miss
      have "get_table_num_from c k ?i index = get_table_num_from c k (2 * KEY_LENGTH c * Suc t) index"
        using miss guard cells ord by (auto simp: step nexti simp del: mult_Suc_right)
      moreover have "LEVEL_FACTOR c - 2 * KEY_LENGTH c * Suc t < LEVEL_FACTOR c - ?i"
        using guard by (intro diff_less_mono2) simp_all
      ultimately show ?thesis using less.hyps by presburger
    qed
  qed
qed

text \<open>
  \<open>get_table_num\<close> never leaves the index array. When it finds a table, the key lies in that
  table's range and nothing is changed, but what it returns is the byte offset of the table's
  pair, \<open>2 * KEY_LENGTH\<close> times its number, and only the tables whose offset is below
  \<open>LEVEL_FACTOR\<close> are looked at.
\<close>

lemma get_table_num_result:
  assumes "si_invar c index" "length k = KEY_LENGTH c"
  shows "\<exists>r index'. get_table_num c k index = Inr (r, index') \<and> si_invar c index' \<and>
    (r = - 1 \<or> index' = index \<and> (\<exists>u lo hi. u < LEVEL_FACTOR c \<and> 2 * KEY_LENGTH c * u < LEVEL_FACTOR c \<and>
       r = of_nat (2 * KEY_LENGTH c * u) \<and> min_key_of c index u = Inr lo \<and>
       max_key_of c index u = Inr hi \<and> lo \<le> k \<and> k \<le> hi))"
  using get_table_num_from_result [OF assms, of 0] by (auto simp: get_table_num_def)

lemma get_table_num_result_example:
  "\<exists>r index'. get_table_num cmake_config [5] (blit (new_sparse_index cmake_config) 0 [7, 8, 3, 9]) = Inr (r, index') \<and>
    si_invar cmake_config index' \<and> r = 2"
proof -
  let ?ix = "blit (new_sparse_index cmake_config) 0 [7, 8, 3, 9]"
  have inv: "si_invar cmake_config ?ix"
    by (simp add: si_invar_def new_sparse_index_def)
  have "get_table_num cmake_config [5] ?ix = Inr (2, ?ix)"
    by code_simp
  with get_table_num_result [OF inv, of "[5]"] show ?thesis by simp
qed

definition max_keys_null :: "config \<Rightarrow> sparse_index \<Rightarrow> bool" where
  "max_keys_null c index \<longleftrightarrow>
     si_invar c index \<and> (\<forall>u < LEVEL_FACTOR c. max_key_of c index u = Inr (null_key (KEY_LENGTH c)))"

lemma new_sparse_index_null: "max_keys_null c (new_sparse_index c)"
  unfolding max_keys_null_def
proof (intro conjI allI impI)
  fix u assume "u < LEVEL_FACTOR c"
  from pair_in_bounds [OF this]
  show "max_key_of c (new_sparse_index c) u = Inr (null_key (KEY_LENGTH c))"
    by (simp add: si_defs new_sparse_index_def null_key_def block_replicate)
qed (simp add: si_invar_def new_sparse_index_def)

text \<open>
  While no largest key has been recorded, as in a new index, every lookup of a proper key answers
  \<open>-1\<close>, and this stays so however many keys are looked up.
\<close>

lemma get_table_num_fresh:
  assumes "max_keys_null c index" "length k = KEY_LENGTH c" "k \<noteq> null_key (KEY_LENGTH c)"
  shows "\<exists>index'. get_table_num c k index = Inr (- 1, index') \<and> max_keys_null c index'"
proof -
  have inv: "si_invar c index" using assms(1) by (simp add: max_keys_null_def)
  from get_table_num_from_result [OF inv assms(2), of 0] obtain r index' where
      r: "get_table_num c k index = Inr (r, index')" "si_invar c index'"
      "\<forall>u < LEVEL_FACTOR c. max_key_of c index' u = max_key_of c index u"
      "r = - 1 \<or> (\<exists>u < LEVEL_FACTOR c. \<exists>hi. max_key_of c index u = Inr hi \<and> k \<le> hi)"
    by (auto simp: get_table_num_def)
  have "\<not> k \<le> null_key (KEY_LENGTH c)"
    using not_below_null_key [OF assms(2,3)] by simp
  then have "r = - 1" using r(4) assms(1) by (auto simp: max_keys_null_def)
  with r assms(1) show ?thesis by (auto simp: max_keys_null_def)
qed

lemma get_table_num_fresh_example:
  "\<exists>index'. get_table_num cmake_config [5] (new_sparse_index cmake_config) = Inr (- 1, index') \<and>
    max_keys_null cmake_config index'"
  by (rule get_table_num_fresh [OF new_sparse_index_null]) (simp_all add: null_key_def)

end
