(* ===== verification/Bloom_Filter.thy ===== *)
theory Bloom_Filter
  imports Constants
begin

text \<open>
  \<^verbatim>\<open>level_info/filter/bloom_filter/bloom_filter.hpp\<close> (the copy the program includes), the check of
  its stale twin \<^verbatim>\<open>level_info/filter/bloom_filter.hpp\<close>, and \<open>Filter\<close>. The bit array is a byte
  list; hashes and counters are 64-bit words. A C string is the list of bytes from its pointer to
  the end of the object it points into. A floating-point number is the real number it denotes,
  with a rounding after each operation that is an argument. The numbers of bits and of hashes are
  arguments here; \<open>Bloom_Measures\<close> has their computation from logarithms.
\<close>

unbundle bit_operations_syntax

section \<open>Hashing\<close>

fun strlen :: "byte list \<Rightarrow> nat res" where
  "strlen [] = Inl OutOfBounds"
| "strlen (b # bs) = (if b = 0 then Inr 0 else rbind (strlen bs) (\<lambda>n. Inr (Suc n)))"

definition fnv_1a :: "byte list \<Rightarrow> nat \<Rightarrow> usize res" where
  "fnv_1a str seed =
     rbind (strlen str) (\<lambda>len.
       Inr (fold (\<lambda>b h. (h XOR ucast b) * 1099511628211) (take len str)
              (14695981039346656037 + of_nat (31 * seed))))"

fun default_hash_loop :: "byte list \<Rightarrow> nat list \<Rightarrow> usize list res" where
  "default_hash_loop str [] = Inr []"
| "default_hash_loop str (i # is) =
     rbind (fnv_1a str i) (\<lambda>h. rbind (default_hash_loop str is) (\<lambda>hs. Inr (h # hs)))"

definition default_hash :: "nat \<Rightarrow> byte list \<Rightarrow> usize list res" where
  "default_hash num_hashes str = default_hash_loop str [0 ..< num_hashes]"

text \<open>A function pointer: the default, or one a caller has installed.\<close>

datatype hash_ptr = Default_hash | User_hash nat

type_synonym user_hash = "nat \<Rightarrow> nat \<Rightarrow> byte list \<Rightarrow> usize list res"

section \<open>The filter\<close>

record bloom_filter =
  estimated_elements :: usize
  number_hashes :: uint
  number_bits :: usize
  bloom :: "byte list"
  bloom_length :: nat
  elements_added :: usize
  hash_function :: hash_ptr

definition compile_time_bloom_length :: "config \<Rightarrow> usize \<Rightarrow> nat" where
  "compile_time_bloom_length c m = (unat m + KEY_LENGTH c - 1) div KEY_LENGTH c"

definition bloom_filter_set_hash_function :: "hash_ptr option \<Rightarrow> bloom_filter \<Rightarrow> bloom_filter" where
  "bloom_filter_set_hash_function h bf =
     bf\<lparr>hash_function := (case h of None \<Rightarrow> Default_hash | Some f \<Rightarrow> f)\<rparr>"

definition new_bloom_filter :: "config \<Rightarrow> usize \<Rightarrow> uint \<Rightarrow> usize \<Rightarrow> bloom_filter" where
  "new_bloom_filter c num_elements k m =
     (let len = lcm (compile_time_bloom_length c m) (ALIGN_NO_FALSE_SHARING c)
      in bloom_filter_set_hash_function None
           \<lparr>estimated_elements = num_elements, number_hashes = k, number_bits = m,
            bloom = replicate len 0, bloom_length = len, elements_added = 0, hash_function = Default_hash\<rparr>)"

definition bloom_filter_calculate_hashes :: "user_hash \<Rightarrow> bloom_filter \<Rightarrow> byte list \<Rightarrow> uint \<Rightarrow> usize list res" where
  "bloom_filter_calculate_hashes user bf str k =
     (case hash_function bf of
        Default_hash \<Rightarrow> default_hash (unat k) str
      | User_hash f \<Rightarrow> user f (unat k) str)"

text \<open>One iteration of the loop that sets bits.\<close>

definition bloom_set :: "usize \<Rightarrow> usize list \<Rightarrow> nat \<Rightarrow> byte list \<Rightarrow> byte list res" where
  "bloom_set m hashes i bl =
     rbind (rnth hashes i) (\<lambda>h.
       rbind (rassert DivByZero (m \<noteq> 0)) (\<lambda>_.
         let idx = unat ((h mod m) div 8);
             b = unat ((h mod m) mod 8)
         in rbind (rnth bl idx) (\<lambda>c. rupd bl idx (c OR push_bit b 1))))"

text \<open>The loop over the iterations in a given order; OpenMP may run them in any.\<close>

definition bloom_set_all :: "usize \<Rightarrow> usize list \<Rightarrow> nat list \<Rightarrow> byte list \<Rightarrow> byte list res" where
  "bloom_set_all m hashes order bl = rfold (bloom_set m hashes) order bl"

definition BLOOM_SUCCESS :: int where "BLOOM_SUCCESS = 1"

definition BLOOM_FAILURE :: int where "BLOOM_FAILURE = 0"

definition bloom_filter_add_string_alt ::
    "usize list \<Rightarrow> uint \<Rightarrow> bloom_filter \<Rightarrow> (int \<times> bloom_filter) res" where
  "bloom_filter_add_string_alt hashes number_hashes_passed bf =
     (if number_hashes_passed < number_hashes bf then Inr (BLOOM_FAILURE, bf)
      else rbind (bloom_set_all (number_bits bf) hashes [0 ..< unat (number_hashes bf)] (bloom bf)) (\<lambda>bl.
             Inr (BLOOM_SUCCESS, bf\<lparr>bloom := bl, elements_added := elements_added bf + 1\<rparr>)))"

definition bloom_filter_add_string :: "user_hash \<Rightarrow> byte list \<Rightarrow> bloom_filter \<Rightarrow> (int \<times> bloom_filter) res" where
  "bloom_filter_add_string user str bf =
     rbind (bloom_filter_calculate_hashes user bf str (number_hashes bf)) (\<lambda>hashes.
       bloom_filter_add_string_alt hashes (number_hashes bf) bf)"

text \<open>\<open>CHECK_BIT\<close> is the masked byte, not a truth value.\<close>

definition CHECK_BIT :: "byte list \<Rightarrow> usize \<Rightarrow> uint res" where
  "CHECK_BIT bl k =
     rbind (rnth bl (unat (k div 8))) (\<lambda>c. Inr (ucast c AND push_bit (unat (k mod 8)) 1))"

definition check_hash :: "usize \<Rightarrow> byte list \<Rightarrow> usize list \<Rightarrow> nat \<Rightarrow> uint res" where
  "check_hash m bl hashes i =
     rbind (rnth hashes i) (\<lambda>h. rbind (rassert DivByZero (m \<noteq> 0)) (\<lambda>_. CHECK_BIT bl (h mod m)))"

definition bloom_filter_check_string_alt :: "usize list \<Rightarrow> uint \<Rightarrow> bloom_filter \<Rightarrow> int res" where
  "bloom_filter_check_string_alt hashes number_hashes_passed bf =
     (if number_hashes_passed < number_hashes bf then Inr BLOOM_FAILURE
      else rbind (rfold (\<lambda>i r. rbind (check_hash (number_bits bf) (bloom bf) hashes i) (\<lambda>x. Inr (r + x)))
                    [0 ..< unat (number_hashes bf)] 0) (\<lambda>r.
             Inr (if r = number_hashes bf then BLOOM_SUCCESS else BLOOM_FAILURE)))"

text \<open>The stale copy assigns instead of adding, and returns the last masked byte.\<close>

definition stale_check_string_alt :: "nat list \<Rightarrow> usize list \<Rightarrow> uint \<Rightarrow> bloom_filter \<Rightarrow> int res" where
  "stale_check_string_alt order hashes number_hashes_passed bf =
     (if number_hashes_passed < number_hashes bf then Inr BLOOM_FAILURE
      else rbind (rfold (\<lambda>i r. check_hash (number_bits bf) (bloom bf) hashes i) order 1) (\<lambda>r. Inr (uint r)))"

text \<open>The constructor of the stale copy does not clear the bits: they are whatever was in the memory.\<close>

definition stale_new_bloom_filter :: "config \<Rightarrow> usize \<Rightarrow> uint \<Rightarrow> usize \<Rightarrow> (nat \<Rightarrow> byte) \<Rightarrow> bloom_filter" where
  "stale_new_bloom_filter c num_elements k m bits =
     (let len = lcm (compile_time_bloom_length c m) (ALIGN_NO_FALSE_SHARING c)
      in bloom_filter_set_hash_function None
           \<lparr>estimated_elements = num_elements, number_hashes = k, number_bits = m,
            bloom = map bits [0 ..< len], bloom_length = len, elements_added = 0, hash_function = Default_hash\<rparr>)"

definition bloom_filter_check_string :: "user_hash \<Rightarrow> byte list \<Rightarrow> bloom_filter \<Rightarrow> int res" where
  "bloom_filter_check_string user str bf =
     rbind (bloom_filter_calculate_hashes user bf str (number_hashes bf)) (\<lambda>hashes.
       bloom_filter_check_string_alt hashes (number_hashes bf) bf)"

fun clear_loop :: "nat list \<Rightarrow> byte list \<Rightarrow> byte list res" where
  "clear_loop [] bl = Inr bl"
| "clear_loop (i # is) bl = rbind (rupd bl i 0) (clear_loop is)"

definition bloom_filter_clear :: "bloom_filter \<Rightarrow> (int \<times> bloom_filter) res" where
  "bloom_filter_clear bf =
     rbind (clear_loop [0 ..< bloom_length bf] (bloom bf)) (\<lambda>bl.
       Inr (BLOOM_SUCCESS, bf\<lparr>bloom := bl, elements_added := 0\<rparr>))"

section \<open>Counting bits\<close>

definition B2 :: "nat \<Rightarrow> nat list" where "B2 n = [n, n + 1, n + 1, n + 2]"

definition B4 :: "nat \<Rightarrow> nat list" where "B4 n = B2 n @ B2 (n + 1) @ B2 (n + 1) @ B2 (n + 2)"

definition B6 :: "nat \<Rightarrow> nat list" where "B6 n = B4 n @ B4 (n + 1) @ B4 (n + 1) @ B4 (n + 2)"

definition bits_set_table :: "nat list" where
  "bits_set_table = B6 0 @ B6 1 @ B6 1 @ B6 2"

definition sum_bits_set_char :: "byte \<Rightarrow> nat" where
  "sum_bits_set_char b = bits_set_table ! unat b"

definition count_loop :: "(nat \<Rightarrow> byte res) \<Rightarrow> nat \<Rightarrow> usize res" where
  "count_loop byte_at len =
     rfold (\<lambda>i r. rbind (byte_at i) (\<lambda>b. Inr (r + of_nat (sum_bits_set_char b)))) [0 ..< len] 0"

definition bloom_filter_count_set_bits :: "bloom_filter \<Rightarrow> usize res" where
  "bloom_filter_count_set_bits bf = count_loop (rnth (bloom bf)) (bloom_length bf)"

definition check_if_union_or_intersection_ok :: "bloom_filter \<Rightarrow> bloom_filter \<Rightarrow> bloom_filter \<Rightarrow> int" where
  "check_if_union_or_intersection_ok res bf1 bf2 =
     (if number_hashes res \<noteq> number_hashes bf1 \<or> number_hashes bf1 \<noteq> number_hashes bf2 then BLOOM_FAILURE
      else if number_bits res \<noteq> number_bits bf1 \<or> number_bits bf1 \<noteq> number_bits bf2 then BLOOM_FAILURE
      else if hash_function res \<noteq> hash_function bf1 \<or> hash_function bf1 \<noteq> hash_function bf2 then BLOOM_FAILURE
      else BLOOM_SUCCESS)"

definition byte_pair :: "(byte \<Rightarrow> byte \<Rightarrow> byte) \<Rightarrow> bloom_filter \<Rightarrow> bloom_filter \<Rightarrow> nat \<Rightarrow> byte res" where
  "byte_pair f bf1 bf2 i = rbind (rnth (bloom bf1) i) (\<lambda>a. rbind (rnth (bloom bf2) i) (\<lambda>b. Inr (f a b)))"

definition bloom_filter_count_union_bits_set :: "bloom_filter \<Rightarrow> bloom_filter \<Rightarrow> usize res" where
  "bloom_filter_count_union_bits_set bf1 bf2 =
     (if check_if_union_or_intersection_ok bf1 bf1 bf2 = BLOOM_FAILURE then Inr 0
      else count_loop (byte_pair (OR) bf1 bf2) (bloom_length bf1))"

definition bloom_filter_count_intersection_bits_set :: "bloom_filter \<Rightarrow> bloom_filter \<Rightarrow> usize res" where
  "bloom_filter_count_intersection_bits_set bf1 bf2 =
     (if check_if_union_or_intersection_ok bf1 bf1 bf2 = BLOOM_FAILURE then Inr 0
      else count_loop (byte_pair (AND) bf1 bf2) (bloom_length bf1))"

section \<open>The estimated number of elements\<close>

text \<open>
  The conversion of a floating-point value to \<open>uint64_t\<close> drops the fraction and is undefined when the
  result does not fit. \<open>rnd\<close> is the rounding to \<open>float\<close> after each operation. Where the logarithm or a
  quotient is infinite or not a number, so is the value that is converted.
\<close>

definition to_uint64 :: "real \<Rightarrow> usize res" where
  "to_uint64 v = (if - 1 < v \<and> v < 2 ^ 64 then Inr (of_nat (nat \<lfloor>v\<rfloor>)) else Inl FloatRange)"

definition bloom_filter_estimate_elements_by_values :: "(real \<Rightarrow> real) \<Rightarrow> usize \<Rightarrow> usize \<Rightarrow> int \<Rightarrow> usize res" where
  "bloom_filter_estimate_elements_by_values rnd m X k =
     (let a = rnd (1 - rnd (rnd (real (unat X)) / rnd (real (unat m))))
      in if m = 0 \<or> k = 0 \<or> a \<le> 0 then Inl FloatRange
         else let log_n = rnd (ln a)
              in to_uint64 (- rnd (rnd (rnd (real (unat m)) / rnd (real_of_int k)) * log_n)))"

definition bloom_filter_estimate_elements :: "(real \<Rightarrow> real) \<Rightarrow> bloom_filter \<Rightarrow> usize res" where
  "bloom_filter_estimate_elements rnd bf =
     rbind (bloom_filter_count_set_bits bf) (\<lambda>x.
       bloom_filter_estimate_elements_by_values rnd (number_bits bf) x (sint (number_hashes bf)))"

definition bloom_filter_set_elements_to_estimated :: "(real \<Rightarrow> real) \<Rightarrow> bloom_filter \<Rightarrow> bloom_filter res" where
  "bloom_filter_set_elements_to_estimated rnd bf =
     rbind (bloom_filter_estimate_elements rnd bf) (\<lambda>e. Inr (bf\<lparr>elements_added := e\<rparr>))"

definition combine ::
    "(byte \<Rightarrow> byte \<Rightarrow> byte) \<Rightarrow> (real \<Rightarrow> real) \<Rightarrow>
     bloom_filter \<Rightarrow> bloom_filter \<Rightarrow> bloom_filter \<Rightarrow> (int \<times> bloom_filter) res" where
  "combine f rnd res bf1 bf2 =
     (if check_if_union_or_intersection_ok res bf1 bf2 = BLOOM_FAILURE then Inr (BLOOM_FAILURE, res)
      else rbind (rfold (\<lambda>i bl. rbind (byte_pair f bf1 bf2 i) (rupd bl i)) [0 ..< bloom_length bf1] (bloom res)) (\<lambda>bl.
             rbind (bloom_filter_set_elements_to_estimated rnd (res\<lparr>bloom := bl\<rparr>)) (\<lambda>res'.
               Inr (BLOOM_SUCCESS, res'))))"

definition bloom_filter_union ::
    "(real \<Rightarrow> real) \<Rightarrow> bloom_filter \<Rightarrow> bloom_filter \<Rightarrow> bloom_filter \<Rightarrow> (int \<times> bloom_filter) res" where
  "bloom_filter_union = combine (OR)"

definition bloom_filter_intersect ::
    "(real \<Rightarrow> real) \<Rightarrow> bloom_filter \<Rightarrow> bloom_filter \<Rightarrow> bloom_filter \<Rightarrow> (int \<times> bloom_filter) res" where
  "bloom_filter_intersect = combine (AND)"

section \<open>Filter\<close>

text \<open>\<open>Filter\<close> only ever installs the default hash.\<close>

definition no_user_hash :: user_hash where
  "no_user_hash _ _ _ = Inl WildPointer"

definition insert_key :: "byte list \<Rightarrow> bloom_filter \<Rightarrow> bloom_filter res" where
  "insert_key key flt = rbind (bloom_filter_add_string no_user_hash key flt) (\<lambda>(_, f). Inr f)"

definition prob_contains_key :: "byte list \<Rightarrow> bloom_filter \<Rightarrow> bool res" where
  "prob_contains_key key flt =
     rbind (bloom_filter_check_string no_user_hash key flt) (\<lambda>r. Inr (r \<noteq> BLOOM_FAILURE))"

definition filter_empty :: "bloom_filter \<Rightarrow> bool" where
  "filter_empty flt \<longleftrightarrow> elements_added flt = 0"

section \<open>The bit array as a set of positions\<close>

definition bloom_bit :: "byte list \<Rightarrow> nat \<Rightarrow> bool" where
  "bloom_bit bl j = bit (bl ! (j div 8)) (j mod 8)"

definition bits_fit :: "usize \<Rightarrow> byte list \<Rightarrow> bool" where
  "bits_fit m bl \<longleftrightarrow> m \<noteq> 0 \<and> unat m \<le> 8 * length bl"

definition slot :: "usize \<Rightarrow> usize \<Rightarrow> nat" where
  "slot m h = unat (h mod m)"

definition set_slot :: "nat \<Rightarrow> byte list \<Rightarrow> byte list" where
  "set_slot k bl = bl[k div 8 := bl ! (k div 8) OR push_bit (k mod 8) 1]"

lemma unat_div_mod_8 [simp]: "unat ((x :: usize) div 8) = unat x div 8" "unat (x mod 8) = unat x mod 8"
  by (simp_all add: unat_div unat_mod)

lemma slot_bound: "bits_fit m bl \<Longrightarrow> slot m h div 8 < length bl"
proof -
  assume "bits_fit m bl"
  then have "slot m h < 8 * length bl"
    by (auto simp: bits_fit_def slot_def unat_mod unat_gt_0 intro: less_le_trans [OF mod_less_divisor])
  then show ?thesis by (simp add: less_mult_imp_div_less mult.commute)
qed

lemma bloom_set_ok:
  assumes "bits_fit m bl" "i < length hashes"
  shows "bloom_set m hashes i bl = Inr (set_slot (slot m (hashes ! i)) bl)"
  using assms slot_bound [OF assms(1), of "hashes ! i"]
  by (simp add: bloom_set_def Let_def bits_fit_def set_slot_def slot_def)

lemma length_set_slot [simp]: "length (set_slot k bl) = length bl"
  by (simp add: set_slot_def)

lemma bloom_bit_set_slot:
  assumes "k div 8 < length bl"
  shows "bloom_bit (set_slot k bl) j \<longleftrightarrow> j = k \<or> bloom_bit bl j"
proof (cases "j div 8 = k div 8")
  case True
  have "j = k \<longleftrightarrow> j mod 8 = k mod 8" using True by (metis div_mult_mod_eq)
  then show ?thesis
    using assms True by (auto simp: bloom_bit_def set_slot_def bit_or_iff bit_exp_iff)
next
  case False
  then have "j \<noteq> k" by auto
  then show ?thesis using False by (simp add: bloom_bit_def set_slot_def)
qed

lemma bloom_eqI:
  assumes "length bl = length bl'" "\<And>j. j < 8 * length bl \<Longrightarrow> bloom_bit bl j = bloom_bit bl' j"
  shows "bl = bl'"
proof (rule nth_equalityI [OF assms(1)], rule bit_eqI)
  fix i n assume i: "i < length bl" and "possible_bit TYPE(byte) n"
  then have "n < 8" by simp
  then have "(8 * i + n) div 8 = i" "(8 * i + n) mod 8 = n" "8 * i + n < 8 * length bl" using i by auto
  then show "bit (bl ! i) n = bit (bl' ! i) n"
    using assms(2) [of "8 * i + n"] by (simp add: bloom_bit_def)
qed

lemma bloom_set_all_ok:
  assumes "bits_fit m bl" "\<forall>i \<in> set order. i < length hashes"
  shows "\<exists>bl'. bloom_set_all m hashes order bl = Inr bl' \<and> length bl' = length bl \<and>
    (\<forall>j. bloom_bit bl' j \<longleftrightarrow> bloom_bit bl j \<or> j \<in> (\<lambda>i. slot m (hashes ! i)) ` set order)"
  using assms unfolding bloom_set_all_def
proof (induction order arbitrary: bl)
  case Nil
  then show ?case by simp
next
  case (Cons i order)
  let ?bl = "set_slot (slot m (hashes ! i)) bl"
  have run: "bloom_set m hashes i bl = Inr ?bl" using Cons.prems by (simp add: bloom_set_ok)
  have bits: "bloom_bit ?bl j \<longleftrightarrow> j = slot m (hashes ! i) \<or> bloom_bit bl j" for j
    using slot_bound [OF Cons.prems(1)] by (rule bloom_bit_set_slot)
  have "bits_fit m ?bl" using Cons.prems(1) by (simp add: bits_fit_def)
  from Cons.IH [OF this] Cons.prems(2) obtain bl' where
      "rfold (bloom_set m hashes) order ?bl = Inr bl'" "length bl' = length bl"
      "\<forall>j. bloom_bit bl' j \<longleftrightarrow> bloom_bit ?bl j \<or> j \<in> (\<lambda>i. slot m (hashes ! i)) ` set order"
    by auto
  then show ?case by (auto simp: run bits)
qed

text \<open>
  C23. The parallel loop that sets the bits of an element gives the same bit array in whatever order
  its iterations run.
\<close>

theorem bloom_set_any_order:
  assumes "bits_fit m bl" "n \<le> length hashes" "mset order = mset [0 ..< n]"
  shows "\<exists>bl'. bloom_set_all m hashes order bl = Inr bl' \<and> bloom_set_all m hashes [0 ..< n] bl = Inr bl'"
proof -
  have s: "set order = {0 ..< n}" using mset_eq_setD [OF assms(3)] by simp
  from bloom_set_all_ok [OF assms(1), of order hashes] assms(2) obtain b1 where
      b1: "bloom_set_all m hashes order bl = Inr b1" "length b1 = length bl"
        "\<forall>j. bloom_bit b1 j \<longleftrightarrow> bloom_bit bl j \<or> j \<in> (\<lambda>i. slot m (hashes ! i)) ` {0 ..< n}"
    by (auto simp: s)
  from bloom_set_all_ok [OF assms(1), of "[0 ..< n]" hashes] assms(2) obtain b2 where
      b2: "bloom_set_all m hashes [0 ..< n] bl = Inr b2" "length b2 = length bl"
        "\<forall>j. bloom_bit b2 j \<longleftrightarrow> bloom_bit bl j \<or> j \<in> (\<lambda>i. slot m (hashes ! i)) ` {0 ..< n}"
    by auto
  have "b1 = b2" using b1 b2 by (intro bloom_eqI) simp_all
  then show ?thesis using b1(1) b2(1) by simp
qed

theorem bloom_set_any_order_witness:
  "bloom_set_all 16 [3, 12, 9] [2, 0, 1] [0, 0] = Inr [8, 18] \<and>
   bloom_set_all 16 [3, 12, 9] [0, 1, 2] [0, 0] = Inr [8, 18]"
proof -
  have "bits_fit 16 [0, 0]" by (simp add: bits_fit_def)
  moreover have "mset [2, 0, 1 :: nat] = mset [0 ..< 3]" by (simp add: numeral_3_eq_3 upt_rec)
  moreover have "bloom_set_all 16 [3, 12, 9] [2, 0, 1] [0, 0] = Inr [8, 18]" by code_simp
  moreover have "[0 ..< 3] = [0, 1, 2 :: nat]" by code_simp
  ultimately show ?thesis
    using bloom_set_any_order [of 16 "[0, 0]" 3 "[3, 12, 9]" "[2, 0, 1]"] by simp
qed

section \<open>Membership\<close>

lemma masked_byte:
  assumes "n < 8"
  shows "(ucast (b :: byte) AND push_bit n 1 :: uint) = (if bit b n then 2 ^ n else 0)"
proof (rule bit_word_eqI)
  fix i :: nat assume "i < LENGTH(32)"
  then show "bit (ucast b AND push_bit n 1 :: uint) i = bit (if bit b n then 2 ^ n else 0 :: uint) i"
    using assms by (auto simp: bit_and_iff bit_ucast_iff bit_exp_iff)
qed

lemma check_hash_ok:
  assumes "bits_fit m bl" "i < length hashes"
  shows "check_hash m bl hashes i =
    Inr (if bloom_bit bl (slot m (hashes ! i)) then 2 ^ (slot m (hashes ! i) mod 8) else 0)"
  using assms slot_bound [OF assms(1), of "hashes ! i"]
  by (simp add: check_hash_def CHECK_BIT_def bits_fit_def slot_def masked_byte bloom_bit_def
      del: push_bit_of_1)

lemma rfold_sum:
  fixes a :: "'a :: comm_monoid_add"
  assumes "\<forall>i \<in> set is. f i = Inr (g i)"
  shows "rfold (\<lambda>i r. rbind (f i) (\<lambda>x. Inr (r + x))) is a = Inr (a + (\<Sum>i \<leftarrow> is. g i))"
  using assms by (induction "is" arbitrary: a) (simp_all add: add.assoc)

text \<open>The masked bytes add up to the number of hashes only if every one of them is 1.\<close>

lemma sum_powers_eq_length:
  fixes e :: "nat \<Rightarrow> nat"
  assumes "n < 2 ^ 24" "\<forall>i < n. e i < 8"
  shows "(\<Sum>i \<leftarrow> [0 ..< n]. 2 ^ e i :: uint) = of_nat n \<longleftrightarrow> (\<forall>i < n. e i = 0)"
proof -
  have bounds: "k \<le> (\<Sum>i \<leftarrow> [0 ..< k]. 2 ^ e i) \<and> (\<Sum>i \<leftarrow> [0 ..< k]. 2 ^ e i) \<le> 128 * k \<and>
      ((\<Sum>i \<leftarrow> [0 ..< k]. 2 ^ e i) = k \<longleftrightarrow> (\<forall>i < k. e i = 0))" if "k \<le> n" for k :: nat
    using that
  proof (induction k)
    case (Suc k)
    then have "e k \<le> 7" using assms(2) by (simp add: less_Suc_eq_le [symmetric])
    then have "(2 :: nat) ^ e k \<le> 2 ^ 7" by (intro power_increasing) simp_all
    moreover have "1 \<le> (2 :: nat) ^ e k" by simp
    ultimately have "(\<Sum>i \<leftarrow> [0 ..< k]. 2 ^ e i) + 2 ^ e k = Suc k \<longleftrightarrow>
        (\<Sum>i \<leftarrow> [0 ..< k]. 2 ^ e i) = k \<and> (2 :: nat) ^ e k = 1"
      using Suc by linarith
    then show ?case using Suc \<open>1 \<le> 2 ^ e k\<close> \<open>2 ^ e k \<le> 2 ^ 7\<close> by (auto simp: less_Suc_eq)
  qed simp
  have eq: "(\<Sum>i \<leftarrow> xs. 2 ^ e i :: uint) = of_nat (\<Sum>i \<leftarrow> xs. 2 ^ e i)" for xs
    by (induction xs) simp_all
  have "(\<Sum>i \<leftarrow> [0 ..< n]. 2 ^ e i) < (2 :: nat) ^ 32" "n < 2 ^ 32"
    using bounds [of n] assms(1) by simp_all
  then have "(of_nat (\<Sum>i \<leftarrow> [0 ..< n]. 2 ^ e i) :: uint) = of_nat n \<longleftrightarrow> (\<Sum>i \<leftarrow> [0 ..< n]. 2 ^ e i) = n"
    by (simp add: word_of_nat_eq_iff take_bit_eq_mod)
  then show ?thesis using bounds [of n] unfolding eq by simp
qed

definition has_slots :: "usize list \<Rightarrow> bloom_filter \<Rightarrow> bool" where
  "has_slots hashes bf \<longleftrightarrow> bits_fit (number_bits bf) (bloom bf) \<and> unat (number_hashes bf) \<le> length hashes \<and>
     (\<forall>i < unat (number_hashes bf). bloom_bit (bloom bf) (slot (number_bits bf) (hashes ! i)))"

lemma add_string_alt_ok:
  assumes "bits_fit (number_bits bf) (bloom bf)" "unat (number_hashes bf) \<le> length hashes"
    and "number_hashes bf \<le> passed"
  shows "\<exists>bl'. bloom_filter_add_string_alt hashes passed bf =
      Inr (BLOOM_SUCCESS, bf\<lparr>bloom := bl', elements_added := elements_added bf + 1\<rparr>) \<and>
    length bl' = length (bloom bf) \<and>
    (\<forall>j. bloom_bit bl' j \<longleftrightarrow> bloom_bit (bloom bf) j \<or>
       (\<exists>i < unat (number_hashes bf). j = slot (number_bits bf) (hashes ! i)))"
  using bloom_set_all_ok [OF assms(1), of "[0 ..< unat (number_hashes bf)]" hashes] assms(2,3)
  by (fastforce simp: bloom_filter_add_string_alt_def)

lemma add_string_alt_slots:
  assumes "bits_fit (number_bits bf) (bloom bf)" "unat (number_hashes bf) \<le> length hashes"
    and "number_hashes bf \<le> passed"
  obtains bf' where "bloom_filter_add_string_alt hashes passed bf = Inr (BLOOM_SUCCESS, bf')"
    and "has_slots hashes bf'" "number_hashes bf' = number_hashes bf" "number_bits bf' = number_bits bf"
    and "\<And>hs. has_slots hs bf \<Longrightarrow> has_slots hs bf'"
proof -
  from add_string_alt_ok [OF assms] obtain bl' where
      "bloom_filter_add_string_alt hashes passed bf =
        Inr (BLOOM_SUCCESS, bf\<lparr>bloom := bl', elements_added := elements_added bf + 1\<rparr>)"
      "length bl' = length (bloom bf)"
      "\<forall>j. bloom_bit bl' j \<longleftrightarrow> bloom_bit (bloom bf) j \<or>
         (\<exists>i < unat (number_hashes bf). j = slot (number_bits bf) (hashes ! i))" by blast
  then show ?thesis
    using assms
    by (intro that [of "bf\<lparr>bloom := bl', elements_added := elements_added bf + 1\<rparr>"])
      (auto simp: has_slots_def bits_fit_def)
qed

lemma check_string_alt_slots:
  assumes "has_slots hashes bf" "number_hashes bf \<le> passed" "unat (number_hashes bf) < 2 ^ 24"
  shows "bloom_filter_check_string_alt hashes passed bf =
    Inr (if \<forall>i < unat (number_hashes bf). slot (number_bits bf) (hashes ! i) mod 8 = 0
         then BLOOM_SUCCESS else BLOOM_FAILURE)"
proof -
  let ?n = "unat (number_hashes bf)" and ?e = "\<lambda>i. slot (number_bits bf) (hashes ! i) mod 8"
  have "\<forall>i \<in> set [0 ..< ?n]. check_hash (number_bits bf) (bloom bf) hashes i = Inr (2 ^ ?e i)"
    using assms(1) by (simp add: has_slots_def check_hash_ok)
  then have "rfold (\<lambda>i r. rbind (check_hash (number_bits bf) (bloom bf) hashes i) (\<lambda>x. Inr (r + x)))
      [0 ..< ?n] 0 = Inr (0 + (\<Sum>i \<leftarrow> [0 ..< ?n]. 2 ^ ?e i))"
    by (rule rfold_sum)
  moreover have "(\<Sum>i \<leftarrow> [0 ..< ?n]. 2 ^ ?e i) = number_hashes bf \<longleftrightarrow> (\<forall>i < ?n. ?e i = 0)"
    using sum_powers_eq_length [OF assms(3), of ?e] by simp
  ultimately show ?thesis
    using assms(2) by (simp add: bloom_filter_check_string_alt_def not_less [symmetric])
qed

lemma stale_check_slots:
  assumes "has_slots hashes bf" "number_hashes bf \<le> passed" "set order \<subseteq> {0 ..< unat (number_hashes bf)}"
  shows "\<exists>r. stale_check_string_alt order hashes passed bf = Inr r \<and> r \<noteq> BLOOM_FAILURE"
proof -
  have "\<exists>r'. rfold (\<lambda>i r. check_hash (number_bits bf) (bloom bf) hashes i) order r = Inr r' \<and> r' \<noteq> 0"
    if "r \<noteq> 0" for r
    using assms(3) that
  proof (induction order arbitrary: r)
    case (Cons i order)
    then have "check_hash (number_bits bf) (bloom bf) hashes i =
        Inr (2 ^ (slot (number_bits bf) (hashes ! i) mod 8))"
      using assms(1) by (simp add: has_slots_def check_hash_ok)
    moreover have "slot (number_bits bf) (hashes ! i) mod 8 < LENGTH(32)"
      by (rule less_trans [OF mod_less_divisor]) simp_all
    then have "(2 ^ (slot (number_bits bf) (hashes ! i) mod 8) :: uint) \<noteq> 0"
      by (metis exp_eq_zero_iff not_le)
    ultimately show ?case using Cons by auto
  qed simp
  from this [of 1] assms(2) show ?thesis
    by (auto simp: stale_check_string_alt_def BLOOM_FAILURE_def uint_0_iff)
qed

text \<open>
  In the copy of the bloom filter the program uses, an element that was just added is reported
  as present only if all its bits fall on multiples of eight: the check adds up masked bytes and
  compares the sum with the number of hashes.
\<close>

lemma bloom_check_after_add:
  assumes "bits_fit (number_bits bf) (bloom bf)" "unat (number_hashes bf) \<le> length hashes"
    and "number_hashes bf \<le> passed" "unat (number_hashes bf) < 2 ^ 24"
  shows "\<exists>bf'. bloom_filter_add_string_alt hashes passed bf = Inr (BLOOM_SUCCESS, bf') \<and>
    bloom_filter_check_string_alt hashes passed bf' =
      Inr (if \<forall>i < unat (number_hashes bf). slot (number_bits bf) (hashes ! i) mod 8 = 0
           then BLOOM_SUCCESS else BLOOM_FAILURE)"
proof -
  from add_string_alt_slots [OF assms(1-3)] obtain bf' where
      bf': "bloom_filter_add_string_alt hashes passed bf = Inr (BLOOM_SUCCESS, bf')"
        "has_slots hashes bf'" "number_hashes bf' = number_hashes bf" "number_bits bf' = number_bits bf" .
  then show ?thesis
    using check_string_alt_slots [OF bf'(2), of passed] assms(3,4) by simp
qed

definition sample_filter :: bloom_filter where
  "sample_filter = new_bloom_filter (cmake_config\<lparr>KEY_LENGTH := 8, ALIGN_NO_FALSE_SHARING := 1\<rparr>) 2 3 16"

lemma sample_filter_eq:
  "sample_filter = \<lparr>estimated_elements = 2, number_hashes = 3, number_bits = 16, bloom = [0, 0],
     bloom_length = 2, elements_added = 0, hash_function = Default_hash\<rparr>"
proof -
  have "replicate 2 (0 :: byte) = [0, 0]" by (simp add: numeral_2_eq_2)
  then show ?thesis
    by (simp add: sample_filter_def new_bloom_filter_def bloom_filter_set_hash_function_def Let_def
        compile_time_bloom_length_def)
qed

lemma sample_filter_fits:
  "bits_fit (number_bits sample_filter) (bloom sample_filter)" "number_hashes sample_filter = 3"
  "number_bits sample_filter = 16"
  by (simp_all add: sample_filter_eq bits_fit_def)

lemma bloom_check_after_add_example:
  "\<exists>bf'. bloom_filter_add_string_alt [3, 12, 9] 3 sample_filter = Inr (BLOOM_SUCCESS, bf') \<and>
     bloom_filter_check_string_alt [3, 12, 9] 3 bf' = Inr BLOOM_FAILURE"
proof -
  have "\<not> (\<forall>i < 3. slot 16 ([3, 12, 9] ! i) mod 8 = 0)"
    by (auto simp: slot_def intro!: exI [of _ 0])
  then show ?thesis
    using bloom_check_after_add [OF sample_filter_fits(1), of "[3, 12, 9]" 3] sample_filter_fits(2,3)
    by (auto simp del: One_nat_def)
qed

text \<open>
  The stale copy has no false negatives: once an element has been added, and whatever is added
  after it, its check never reports a failure, in whatever order the parallel loop runs.
\<close>

lemma stale_check_no_false_negative:
  assumes "bits_fit (number_bits bf) (bloom bf)" "unat (number_hashes bf) \<le> length hashes"
    and "\<forall>hs \<in> set later. unat (number_hashes bf) \<le> length hs"
    and "mset order = mset [0 ..< unat (number_hashes bf)]"
  shows "\<exists>bf'. rfold (\<lambda>hs b. rbind (bloom_filter_add_string_alt hs (number_hashes b) b) (\<lambda>(_, b'). Inr b'))
      (hashes # later) bf = Inr bf' \<and>
    (\<exists>r. stale_check_string_alt order hashes (number_hashes bf') bf' = Inr r \<and> r \<noteq> BLOOM_FAILURE)"
proof -
  let ?add = "\<lambda>hs b. rbind (bloom_filter_add_string_alt hs (number_hashes b) b) (\<lambda>(_, b'). Inr b')"
  have many: "\<exists>b'. rfold ?add later b = Inr b' \<and> number_hashes b' = number_hashes b \<and> has_slots hashes b'"
    if "has_slots hashes b" "\<forall>hs \<in> set later. unat (number_hashes b) \<le> length hs" for b
    using that
  proof (induction later arbitrary: b)
    case (Cons hs later)
    have "bits_fit (number_bits b) (bloom b)" using Cons.prems(1) by (simp add: has_slots_def)
    from add_string_alt_slots [OF this, of hs "number_hashes b"] Cons.prems(2) obtain b1 where
        "bloom_filter_add_string_alt hs (number_hashes b) b = Inr (BLOOM_SUCCESS, b1)"
        "number_hashes b1 = number_hashes b" "has_slots hashes b \<Longrightarrow> has_slots hashes b1"
      by (metis list.set_intros(1) order_refl)
    then show ?case using Cons.IH [of b1] Cons.prems by simp
  qed simp
  from add_string_alt_slots [OF assms(1,2) order_refl] obtain b1 where
      b1: "bloom_filter_add_string_alt hashes (number_hashes bf) bf = Inr (BLOOM_SUCCESS, b1)"
        "has_slots hashes b1" "number_hashes b1 = number_hashes bf" .
  from many [OF b1(2)] assms(3) b1(3) obtain b2 where
      b2: "rfold ?add later b1 = Inr b2" "number_hashes b2 = number_hashes b1" "has_slots hashes b2" by auto
  have "set order = {0 ..< unat (number_hashes bf)}" using mset_eq_setD [OF assms(4)] by simp
  then show ?thesis
    using stale_check_slots [OF b2(3) order_refl, of order] b1 b2(1,2) by auto
qed

lemma stale_check_no_false_negative_example:
  "\<exists>bf'. rfold (\<lambda>hs b. rbind (bloom_filter_add_string_alt hs (number_hashes b) b) (\<lambda>(_, b'). Inr b'))
      [[3, 12, 9], [5, 6, 7]] sample_filter = Inr bf' \<and>
    (\<exists>r. stale_check_string_alt [2, 0, 1] [3, 12, 9] (number_hashes bf') bf' = Inr r \<and> r \<noteq> BLOOM_FAILURE)"
proof -
  have "unat (number_hashes sample_filter) = 3" by (simp add: sample_filter_fits(2))
  then have "mset [2, 0, 1 :: nat] = mset [0 ..< unat (number_hashes sample_filter)]"
    by (simp only:) (simp add: numeral_3_eq_3 upt_rec)
  then show ?thesis
    using stale_check_no_false_negative [OF sample_filter_fits(1), of "[3, 12, 9]" "[[5, 6, 7]]" "[2, 0, 1]"]
    by (simp add: sample_filter_fits(2))
qed

text \<open>
  With cleared memory the stale constructor gives the same filter as the one in use. With other contents the new
  filter reports elements although none was added.
\<close>

lemma stale_new_filter_cleared: "stale_new_bloom_filter c n k m (\<lambda>_. 0) = new_bloom_filter c n k m"
  by (simp add: stale_new_bloom_filter_def new_bloom_filter_def map_replicate_const)

lemma stale_new_filter_reports:
  "let bf = stale_new_bloom_filter (cmake_config\<lparr>KEY_LENGTH := 8, ALIGN_NO_FALSE_SHARING := 1\<rparr>) 2 3 16 (\<lambda>_. 255)
   in filter_empty bf \<and> stale_check_string_alt [0, 1, 2] [3, 12, 9] 3 bf = Inr 2"
  by code_simp

section \<open>Counting bits\<close>

lemma bits_set_table_all:
  "list_all (\<lambda>(b :: byte, n). n = length (filter (bit b) [0 ..< 8]))
     (zip (map word_of_int [0 .. 255]) bits_set_table)"
  by code_simp

lemma length_bits_set_table: "length bits_set_table = 256"
  by (simp add: bits_set_table_def B6_def B4_def B2_def)

lemma sum_bits_set_char_bits: "sum_bits_set_char b = length (filter (bit b) [0 ..< 8])"
proof -
  have b: "unat b < 256" using unsigned_less [of b, where 'a = nat] by simp
  then have "0 + int (unat b) \<le> 255" by linarith
  then have "[0 .. 255] ! unat b = 0 + int (unat b)" by (rule nth_upto)
  with b have "zip (map word_of_int [0 .. 255]) bits_set_table ! unat b = (b, bits_set_table ! unat b)"
    by (simp add: length_bits_set_table)
  moreover have "zip (map word_of_int [0 .. 255]) bits_set_table ! unat b \<in>
      set (zip (map word_of_int [0 .. 255]) bits_set_table)"
    using b by (intro nth_mem) (simp add: length_bits_set_table)
  ultimately show ?thesis
    using bits_set_table_all unfolding list_all_iff sum_bits_set_char_def by auto
qed

lemma filter_or_and_length:
  "length (filter (\<lambda>x. P x \<or> Q x) xs) + length (filter (\<lambda>x. P x \<and> Q x) xs) =
   length (filter P xs) + length (filter Q xs)"
  by (induction xs) auto

lemma sum_bits_or_and:
  "sum_bits_set_char (a OR b) + sum_bits_set_char (a AND b) = sum_bits_set_char a + sum_bits_set_char b"
proof -
  have "bit (a OR b) = (\<lambda>n. bit a n \<or> bit b n)" "bit (a AND b) = (\<lambda>n. bit a n \<and> bit b n)"
    by (simp_all add: fun_eq_iff bit_or_iff bit_and_iff)
  then show ?thesis by (simp only: sum_bits_set_char_bits filter_or_and_length)
qed

lemma count_loop_ok:
  assumes "\<forall>i < len. byte_at i = Inr (f i)"
  shows "count_loop byte_at len = Inr (of_nat (\<Sum>i \<leftarrow> [0 ..< len]. sum_bits_set_char (f i)))"
proof -
  have "count_loop byte_at len =
      rfold (\<lambda>i r. rbind (rbind (byte_at i) (\<lambda>b. Inr (of_nat (sum_bits_set_char b)))) (\<lambda>x. Inr (r + x))) [0 ..< len] 0"
    by (simp add: count_loop_def rbind_assoc)
  also have "\<dots> = Inr (0 + (\<Sum>i \<leftarrow> [0 ..< len]. of_nat (sum_bits_set_char (f i))))"
    using assms by (intro rfold_sum) simp
  also have "(\<Sum>i \<leftarrow> xs. of_nat (sum_bits_set_char (f i)) :: usize) = of_nat (\<Sum>i \<leftarrow> xs. sum_bits_set_char (f i))" for xs
    by (induction xs) simp_all
  finally show ?thesis by simp
qed

lemma count_bits_positions:
  "(\<Sum>i \<leftarrow> [0 ..< n]. sum_bits_set_char (bl ! i)) = length (filter (bloom_bit bl) [0 ..< 8 * n])"
proof (induction n)
  case (Suc n)
  have "[0 ..< 8 * Suc n] = [0 ..< 8 * n] @ map (\<lambda>k. 8 * n + k) [0 ..< 8]"
    using upt_add_eq_append [of 0 "8 * n" 8] map_add_upt [of "8 * n" 8] by (simp add: ac_simps)
  moreover have "bloom_bit bl (8 * n + k) = bit (bl ! n) k" if "k < 8" for k
    using that by (simp add: bloom_bit_def)
  then have "filter (\<lambda>k. bloom_bit bl (8 * n + k)) [0 ..< 8] = filter (bit (bl ! n)) [0 ..< 8]"
    by (intro filter_cong) simp_all
  then have "length (filter (bloom_bit bl) (map (\<lambda>k. 8 * n + k) [0 ..< 8])) = sum_bits_set_char (bl ! n)"
    by (simp add: sum_bits_set_char_bits filter_map o_def)
  ultimately show ?case using Suc by simp
qed simp

lemma pair_counts:
  assumes "check_if_union_or_intersection_ok bf1 bf1 bf2 = BLOOM_SUCCESS"
    and "length (bloom bf1) = bloom_length bf1" "length (bloom bf2) = bloom_length bf1"
  shows "bloom_filter_count_union_bits_set bf1 bf2 =
      Inr (of_nat (\<Sum>i \<leftarrow> [0 ..< bloom_length bf1]. sum_bits_set_char (bloom bf1 ! i OR bloom bf2 ! i)))"
    "bloom_filter_count_intersection_bits_set bf1 bf2 =
      Inr (of_nat (\<Sum>i \<leftarrow> [0 ..< bloom_length bf1]. sum_bits_set_char (bloom bf1 ! i AND bloom bf2 ! i)))"
  using assms
  by (simp_all add: bloom_filter_count_union_bits_set_def bloom_filter_count_intersection_bits_set_def
      byte_pair_def BLOOM_SUCCESS_def BLOOM_FAILURE_def
      count_loop_ok [where f = "\<lambda>i. bloom bf1 ! i OR bloom bf2 ! i"]
      count_loop_ok [where f = "\<lambda>i. bloom bf1 ! i AND bloom bf2 ! i"])

text \<open>
  C24. The bit counts: the table-driven count is the number of positions set in the bit array, and
  the counts of a union and of an intersection satisfy inclusion and exclusion.
\<close>

theorem bloom_counts:
  assumes "check_if_union_or_intersection_ok bf1 bf1 bf2 = BLOOM_SUCCESS"
    and "length (bloom bf1) = bloom_length bf1" "length (bloom bf2) = bloom_length bf1"
    and "bloom_length bf2 = bloom_length bf1"
  shows "\<exists>n1 n2 nu ni. bloom_filter_count_set_bits bf1 = Inr n1 \<and> bloom_filter_count_set_bits bf2 = Inr n2 \<and>
    bloom_filter_count_union_bits_set bf1 bf2 = Inr nu \<and>
    bloom_filter_count_intersection_bits_set bf1 bf2 = Inr ni \<and> nu + ni = n1 + n2 \<and>
    n1 = of_nat (card {j. j < 8 * length (bloom bf1) \<and> bloom_bit (bloom bf1) j})"
proof -
  let ?n = "bloom_length bf1" and ?a = "\<lambda>i. bloom bf1 ! i" and ?b = "\<lambda>i. bloom bf2 ! i"
  have c: "bloom_filter_count_set_bits bf1 = Inr (of_nat (\<Sum>i \<leftarrow> [0 ..< ?n]. sum_bits_set_char (?a i)))"
      "bloom_filter_count_set_bits bf2 = Inr (of_nat (\<Sum>i \<leftarrow> [0 ..< ?n]. sum_bits_set_char (?b i)))"
    using assms(2-4) by (simp_all add: bloom_filter_count_set_bits_def count_loop_ok)
  note u = pair_counts [OF assms(1-3)]
  have "(\<Sum>i \<leftarrow> xs. sum_bits_set_char (?a i OR ?b i)) + (\<Sum>i \<leftarrow> xs. sum_bits_set_char (?a i AND ?b i)) =
      (\<Sum>i \<leftarrow> xs. sum_bits_set_char (?a i)) + (\<Sum>i \<leftarrow> xs. sum_bits_set_char (?b i))" for xs
  proof (induction xs)
    case (Cons x xs)
    then show ?case using sum_bits_or_and [of "?a x" "?b x"] by simp
  qed simp
  moreover have "length (filter (bloom_bit (bloom bf1)) [0 ..< 8 * ?n]) =
      card {j. j < 8 * length (bloom bf1) \<and> bloom_bit (bloom bf1) j}"
    unfolding assms(2) by (subst distinct_card [symmetric]) (auto intro: arg_cong [where f = card])
  ultimately show ?thesis
    using c u by (simp only: sum.inject count_bits_positions ex_simps simp_thms flip: of_nat_add)
qed

theorem bloom_counts_witness:
  "\<exists>nu ni. bloom_filter_count_union_bits_set sample_filter (sample_filter\<lparr>bloom := [255, 1]\<rparr>) = Inr nu \<and>
     bloom_filter_count_intersection_bits_set sample_filter (sample_filter\<lparr>bloom := [255, 1]\<rparr>) = Inr ni \<and>
     nu + ni = 9"
proof -
  let ?g = "sample_filter\<lparr>bloom := [255, 1]\<rparr>"
  have "bloom_filter_count_set_bits sample_filter = Inr 0" "bloom_filter_count_set_bits ?g = Inr 9"
      "check_if_union_or_intersection_ok sample_filter sample_filter ?g = BLOOM_SUCCESS"
      "length (bloom sample_filter) = bloom_length sample_filter"
      "length (bloom ?g) = bloom_length sample_filter" "bloom_length ?g = bloom_length sample_filter"
    unfolding sample_filter_eq by code_simp+
  then show ?thesis using bloom_counts [of sample_filter ?g] by auto
qed

section \<open>The filter of a level\<close>

lemma lcm_ge: "0 < b \<Longrightarrow> a \<le> lcm a (b :: nat)"
  by (cases "a = 0") (simp_all add: dvd_imp_le lcm_pos_nat)

text \<open>
  The bit array a filter allocates has room for all its bits as long as keys are at most eight
  bytes long: its length in bytes is the number of bits divided by the key length.
\<close>

lemma new_bloom_filter_fits:
  assumes "0 < KEY_LENGTH c" "KEY_LENGTH c \<le> 8" "0 < ALIGN_NO_FALSE_SHARING c" "m \<noteq> 0"
  shows "bits_fit m (bloom (new_bloom_filter c num_elements k m)) \<and>
    bloom_length (new_bloom_filter c num_elements k m) = length (bloom (new_bloom_filter c num_elements k m)) \<and>
    filter_empty (new_bloom_filter c num_elements k m)"
proof -
  let ?l = "(unat m + KEY_LENGTH c - 1) div KEY_LENGTH c"
  have "unat m \<le> KEY_LENGTH c * ?l"
  proof -
    have "unat m + KEY_LENGTH c - 1 = KEY_LENGTH c * ?l + (unat m + KEY_LENGTH c - 1) mod KEY_LENGTH c" by simp
    moreover have "(unat m + KEY_LENGTH c - 1) mod KEY_LENGTH c \<le> KEY_LENGTH c - 1"
      using mod_less_divisor [OF assms(1), of "unat m + KEY_LENGTH c - 1"] by linarith
    ultimately show ?thesis using assms(1) by linarith
  qed
  also have "\<dots> \<le> 8 * lcm ?l (ALIGN_NO_FALSE_SHARING c)"
    using assms(2,3) by (intro mult_le_mono) (auto intro: lcm_ge)
  finally show ?thesis
    using assms(4)
    by (simp add: new_bloom_filter_def bloom_filter_set_hash_function_def Let_def bits_fit_def
        compile_time_bloom_length_def filter_empty_def)
qed

lemma new_bloom_filter_fits_example:
  "bits_fit 5000 (bloom (new_bloom_filter cmake_config 699050 7 5000))"
  using new_bloom_filter_fits [of cmake_config 5000] by simp

text \<open>With longer keys the array can be too short.\<close>

lemma new_bloom_filter_long_keys:
  "\<not> bits_fit 1024 (bloom (new_bloom_filter (cmake_config\<lparr>KEY_LENGTH := 16\<rparr>) 100 7 1024))"
  by (simp add: new_bloom_filter_def bloom_filter_set_hash_function_def Let_def bits_fit_def
      compile_time_bloom_length_def)

lemma default_hash_ok:
  assumes "strlen str = Inr n"
  shows "\<exists>hs. default_hash k str = Inr hs \<and> length hs = k"
proof -
  have "\<exists>hs. default_hash_loop str xs = Inr hs \<and> length hs = length xs" for xs
    using assms by (induction xs) (auto simp: fnv_1a_def)
  then show ?thesis by (metis default_hash_def diff_zero length_upt)
qed

lemma strlen_prefix: "0 \<notin> set bs \<Longrightarrow> strlen (bs @ 0 # rest) = Inr (length bs)"
  by (induction bs) auto

lemma strlen_unterminated: "0 \<notin> set bs \<Longrightarrow> strlen bs = Inl OutOfBounds"
  by (induction bs) auto

text \<open>
  C25. Inserting a terminated key into a level's filter succeeds and counts it; asking for the same
  key afterwards answers yes exactly when every hash of the key falls on a multiple of eight. A key
  with no terminating null byte behind it is read past the end of its object.
\<close>

theorem filter_insert_then_contains:
  assumes "bits_fit (number_bits f) (bloom f)" "hash_function f = Default_hash"
    and "unat (number_hashes f) < 2 ^ 24" "0 \<notin> set key" "0 < number_hashes f"
  shows "(\<exists>f' hashes. insert_key (key @ 0 # rest) f = Inr f' \<and> elements_added f' = elements_added f + 1 \<and>
      default_hash (unat (number_hashes f)) (key @ 0 # rest) = Inr hashes \<and>
      prob_contains_key (key @ 0 # rest) f' =
        Inr (\<forall>i < unat (number_hashes f). slot (number_bits f) (hashes ! i) mod 8 = 0)) \<and>
    insert_key key f = Inl OutOfBounds \<and> prob_contains_key key f = Inl OutOfBounds"
proof -
  let ?k = "unat (number_hashes f)" and ?str = "key @ 0 # rest"
  from default_hash_ok [OF strlen_prefix [OF assms(4)]] obtain hs where
      hs: "default_hash ?k ?str = Inr hs" "length hs = ?k" by blast
  from add_string_alt_ok [OF assms(1), of hs "number_hashes f"] hs obtain bl where
      bl: "bloom_filter_add_string_alt hs (number_hashes f) f =
        Inr (BLOOM_SUCCESS, f\<lparr>bloom := bl, elements_added := elements_added f + 1\<rparr>)" by auto
  let ?f' = "f\<lparr>bloom := bl, elements_added := elements_added f + 1\<rparr>"
  have slots: "has_slots hs ?f'"
    by (rule add_string_alt_slots [OF assms(1) _ order_refl, of hs]) (use hs(2) bl in simp_all)
  have "prob_contains_key ?str ?f' = Inr (\<forall>i < ?k. slot (number_bits f) (hs ! i) mod 8 = 0)"
    using check_string_alt_slots [OF slots, of "number_hashes f"] hs(1) assms(2,3)
    by (simp add: prob_contains_key_def bloom_filter_check_string_def bloom_filter_calculate_hashes_def
        BLOOM_SUCCESS_def BLOOM_FAILURE_def)
  moreover have "insert_key ?str f = Inr ?f'"
    using bl hs(1) assms(2)
    by (simp add: insert_key_def bloom_filter_add_string_def bloom_filter_calculate_hashes_def)
  moreover have "default_hash ?k key = Inl OutOfBounds"
    using strlen_unterminated [OF assms(4)] assms(5)
    by (simp add: default_hash_def fnv_1a_def upt_conv_Cons word_less_nat_alt)
  then have "insert_key key f = Inl OutOfBounds" "prob_contains_key key f = Inl OutOfBounds"
    using assms(2)
    by (simp_all add: insert_key_def bloom_filter_add_string_def bloom_filter_calculate_hashes_def
        prob_contains_key_def bloom_filter_check_string_def)
  ultimately show ?thesis using hs(1) by simp
qed

theorem filter_insert_then_contains_witness:
  "\<exists>f'. insert_key [7, 0] sample_filter = Inr f' \<and> elements_added f' = 1 \<and>
     insert_key [7] sample_filter = Inl OutOfBounds"
  using filter_insert_then_contains [OF sample_filter_fits(1), of "[7]" "[]"]
  by (auto simp: sample_filter_eq)

text \<open>
  The hash runs to the first null byte: what follows the key in its buffer is part of it, so the
  same key stored with two different values has two different hashes.
\<close>

lemma fnv_1a_reads_value: "fnv_1a ([7 :: byte] @ [1, 0]) 0 \<noteq> fnv_1a ([7] @ [2, 0]) 0"
  by code_simp

lemma combine_loop_ok:
  assumes "n \<le> length (bloom bf1)" "n \<le> length (bloom bf2)" "n \<le> length bl"
  shows "rfold (\<lambda>i bl. rbind (byte_pair f bf1 bf2 i) (rupd bl i)) [0 ..< n] bl =
    Inr (map (\<lambda>i. f (bloom bf1 ! i) (bloom bf2 ! i)) [0 ..< n] @ drop n bl)"
  using assms
proof (induction n)
  case (Suc n)
  have "drop n bl = bl ! n # drop (Suc n) bl" using Suc.prems(3) by (simp add: Cons_nth_drop_Suc)
  with Suc show ?case by (simp add: rfold_append byte_pair_def list_update_append)
qed simp

text \<open>The number of bits that are set in the bytewise combination of two filters.\<close>

definition combined :: "(byte \<Rightarrow> byte \<Rightarrow> byte) \<Rightarrow> bloom_filter \<Rightarrow> bloom_filter \<Rightarrow> byte list" where
  "combined f bf1 bf2 = map (\<lambda>i. f (bloom bf1 ! i) (bloom bf2 ! i)) [0 ..< bloom_length bf1]"

definition combined_count :: "(byte \<Rightarrow> byte \<Rightarrow> byte) \<Rightarrow> bloom_filter \<Rightarrow> bloom_filter \<Rightarrow> nat" where
  "combined_count f bf1 bf2 =
     (\<Sum>i \<leftarrow> [0 ..< bloom_length bf1]. sum_bits_set_char (f (bloom bf1 ! i) (bloom bf2 ! i)))"

lemma combine_result:
  assumes "check_if_union_or_intersection_ok res bf1 bf2 = BLOOM_SUCCESS"
    and "length (bloom bf1) = bloom_length bf1" "length (bloom bf2) = bloom_length bf1"
    and "length (bloom res) = bloom_length bf1" "bloom_length res = bloom_length bf1"
  shows "combine f rnd res bf1 bf2 =
    rbind (bloom_filter_estimate_elements_by_values rnd (number_bits res) (of_nat (combined_count f bf1 bf2))
             (sint (number_hashes res)))
      (\<lambda>e. Inr (BLOOM_SUCCESS, res\<lparr>bloom := combined f bf1 bf2, elements_added := e\<rparr>))"
proof -
  have "check_if_union_or_intersection_ok res bf1 bf2 \<noteq> BLOOM_FAILURE"
    using assms(1) by (simp add: BLOOM_SUCCESS_def BLOOM_FAILURE_def)
  moreover have "count_loop (rnth (combined f bf1 bf2)) (bloom_length bf1) = Inr (of_nat (combined_count f bf1 bf2))"
    by (subst count_loop_ok [where f = "\<lambda>i. f (bloom bf1 ! i) (bloom bf2 ! i)"])
      (simp_all add: combined_def combined_count_def)
  ultimately show ?thesis
    using combine_loop_ok [of "bloom_length bf1" bf1 bf2 "bloom res" f] assms(2-5)
    by (simp add: combine_def bloom_filter_set_elements_to_estimated_def bloom_filter_estimate_elements_def
        bloom_filter_count_set_bits_def combined_def [symmetric] rbind_assoc)
qed

text \<open>
  The union of two compatible filters has exactly the bits that one of them has, so it reports
  every element either contains; the intersection has the bits both have.
\<close>

lemma combined_bits:
  assumes "j < 8 * bloom_length bf1"
  shows "bloom_bit (combined (OR) bf1 bf2) j \<longleftrightarrow> bloom_bit (bloom bf1) j \<or> bloom_bit (bloom bf2) j"
    and "bloom_bit (combined (AND) bf1 bf2) j \<longleftrightarrow> bloom_bit (bloom bf1) j \<and> bloom_bit (bloom bf2) j"
  using assms
  by (simp_all add: combined_def bloom_bit_def bit_or_iff bit_and_iff less_mult_imp_div_less mult.commute)

lemma union_has_slots:
  assumes "check_if_union_or_intersection_ok res bf1 bf2 = BLOOM_SUCCESS"
    and "length (bloom bf1) = bloom_length bf1" "length (bloom bf2) = bloom_length bf1"
    and "has_slots hashes bf1 \<or> has_slots hashes bf2"
  shows "has_slots hashes (res\<lparr>bloom := combined (OR) bf1 bf2, elements_added := e\<rparr>)"
proof -
  have same: "number_bits res = number_bits bf1" "number_bits res = number_bits bf2"
      "number_hashes res = number_hashes bf1" "number_hashes res = number_hashes bf2"
    using assms(1) by (auto simp: check_if_union_or_intersection_ok_def BLOOM_SUCCESS_def BLOOM_FAILURE_def split: if_splits)
  have len: "length (combined (OR) bf1 bf2) = bloom_length bf1" by (simp add: combined_def)
  have fit: "slot m h < 8 * bloom_length bf1" if "bits_fit m bl" "length bl = bloom_length bf1" for m h bl
    using slot_bound [OF that(1), of h] that(2) by simp
  show ?thesis
    using assms(4) combined_bits(1) fit [of "number_bits res" "bloom bf1"] fit [of "number_bits res" "bloom bf2"]
    by (auto simp: has_slots_def same [symmetric] bits_fit_def assms(2,3) len)
qed

end
