(* ===== verification/Cache_Helper.thy ===== *)
theory Cache_Helper
  imports Read_Write_Pool
begin

text \<open>
  \<^verbatim>\<open>sstable/sstable_cache_helper\<close>: \<open>CacheLocation\<close>, \<open>SparseBufferIndex\<close> and
  \<open>SSTableCacheHelper\<close>, the index that says which page-cache buffer holds which range of an SSTable
  file. The fields of the nested \<open>sparse_buffer_index\<close> are fields of the helper. A cell of the two
  arrays is \<open>None\<close> until it has been written: \<open>CacheLocation() {}\<close> initialises nothing.
\<close>

record cache_location =
  cl_left :: usize
  cl_right :: usize
  cl_buffer_id :: uint

definition no_location :: cache_location where
  "no_location = \<lparr>cl_left = -1, cl_right = -1, cl_buffer_id = 0\<rparr>"

record cache_helper =
  ch_cache_locations :: "cache_location option list"
  ch_sparse_buffer_index_locations :: "uint option list"
  ch_cur_min_invalid_offset :: usize
  ch_id_of_most_recently_selected_buffer :: uint
  ch_free_buffers_left :: uint
  ch_id_of_least_recently_selected_buffer :: uint

definition new_cache_helper :: "config \<Rightarrow> cache_helper" where
  "new_cache_helper c =
     \<lparr>ch_cache_locations = replicate (max_buffer_set_size c) None,
      ch_sparse_buffer_index_locations = replicate (max_buffer_set_size c) None,
      ch_cur_min_invalid_offset = -1, ch_id_of_most_recently_selected_buffer = -1,
      ch_free_buffers_left = 0, ch_id_of_least_recently_selected_buffer = -1\<rparr>"

definition set_cur_min_invalid_offset :: "usize \<Rightarrow> cache_helper \<Rightarrow> cache_helper" where
  "set_cur_min_invalid_offset off h = h\<lparr>ch_cur_min_invalid_offset := off\<rparr>"

definition get_cur_min_invalid_offset :: "cache_helper \<Rightarrow> usize" where
  "get_cur_min_invalid_offset h = ch_cur_min_invalid_offset h"

definition get_id_of_most_recently_selected_buffer :: "cache_helper \<Rightarrow> uint" where
  "get_id_of_most_recently_selected_buffer h = ch_id_of_most_recently_selected_buffer h"

text \<open>\<open>cache_locations[i].buffer_id = -1\<close>.\<close>

definition drop_location :: "uint \<Rightarrow> cache_helper \<Rightarrow> cache_helper res" where
  "drop_location i h =
     rbind (rnth (ch_cache_locations h) (unat i)) (\<lambda>l.
       rbind (rupd (ch_cache_locations h) (unat i) (map_option (cl_buffer_id_update (\<lambda>_. -1)) l)) (\<lambda>ls.
         Inr (h\<lparr>ch_cache_locations := ls\<rparr>)))"

definition replenish_least_recently_selected_buffer :: "cache_helper \<Rightarrow> cache_helper res" where
  "replenish_least_recently_selected_buffer h =
     (let i = ch_id_of_least_recently_selected_buffer h
      in rbind (cell (ch_sparse_buffer_index_locations h) (unat i)) (\<lambda>loc.
           drop_location loc (h\<lparr>ch_free_buffers_left := ch_free_buffers_left h + 1,
                                ch_id_of_least_recently_selected_buffer := i + 1\<rparr>)))"

definition ends_before :: "cache_helper \<Rightarrow> usize \<Rightarrow> nat \<Rightarrow> bool res" where
  "ends_before h off p = rbind (cell (ch_cache_locations h) p) (\<lambda>l. Inr (cl_right l < off))"

definition get_buffer_info :: "usize \<Rightarrow> cache_helper \<Rightarrow> cache_location res" where
  "get_buffer_info off h =
     (let right = unat (ch_id_of_most_recently_selected_buffer h + 1)
      in rbind (search 1 (ends_before h off) 0 right) (\<lambda>left.
           if left = right then Inr no_location
           else rbind (cell (ch_cache_locations h) left) (\<lambda>l.
                  Inr (if cl_left l \<le> off \<and> off \<le> cl_right l \<and> cl_buffer_id l \<noteq> -1 then l
                       else no_location))))"

definition add_buffer :: "cache_helper \<Rightarrow> cache_helper" where
  "add_buffer h = h\<lparr>ch_free_buffers_left := ch_free_buffers_left h + 1\<rparr>"

text \<open>
  The branch that should shift the later locations writes through \<open>location2\<close>, a pointer that is
  declared but never assigned.
\<close>

definition map_buffer_to_offset_boundary :: "uint \<Rightarrow> usize \<Rightarrow> usize \<Rightarrow> cache_helper \<Rightarrow> cache_helper res" where
  "map_buffer_to_offset_boundary buffer_id off1 off2 h =
     (let i = ch_id_of_most_recently_selected_buffer h
      in rbind (search 1 (ends_before h off1) 0 (unat (i + 1))) (\<lambda>left.
           if left = unat i then
             rbind (rupd (ch_cache_locations h) left
                      (Some \<lparr>cl_left = off1, cl_right = off2, cl_buffer_id = buffer_id\<rparr>)) (\<lambda>ls.
               rbind (rupd (ch_sparse_buffer_index_locations h) (unat buffer_id) (Some (of_nat left))) (\<lambda>ix.
                 Inr (h\<lparr>ch_cache_locations := ls, ch_sparse_buffer_index_locations := ix,
                        ch_id_of_most_recently_selected_buffer := i + 1,
                        ch_free_buffers_left := ch_free_buffers_left h - 1\<rparr>)))
           else Inl WildPointer))"

text \<open>The loop of \<open>remove_buffer_range\<close>, with \<open>n\<close> iterations left.\<close>

fun remove_loop :: "nat \<Rightarrow> uint \<Rightarrow> cache_helper \<Rightarrow> cache_helper res" where
  "remove_loop 0 buffer_id h = Inr h"
| "remove_loop (Suc n) buffer_id h =
     rbind (cell (ch_sparse_buffer_index_locations h) (unat buffer_id)) (\<lambda>loc.
       rbind (drop_location loc h) (remove_loop n (buffer_id + 1)))"

definition remove_buffer_range :: "uint \<Rightarrow> uint \<Rightarrow> cache_helper \<Rightarrow> cache_helper res" where
  "remove_buffer_range id1 id2 h =
     (let h1 = h\<lparr>ch_free_buffers_left := ch_free_buffers_left h - (id2 - id1 + 1)\<rparr>;
          old = ch_id_of_most_recently_selected_buffer h;
          least = ch_id_of_least_recently_selected_buffer h;
          start = max id1 least
      in if id1 \<le> old then
           rbind (remove_loop (unat old + 1 - unat start) start
                    (h1\<lparr>ch_id_of_most_recently_selected_buffer := id1 - 1\<rparr>)) (\<lambda>h2.
             Inr (if id1 < least
                  then h2\<lparr>ch_id_of_least_recently_selected_buffer := -1,
                          ch_id_of_most_recently_selected_buffer := -1\<rparr>
                  else h2))
         else Inr h1)"

section \<open>The index as a sorted array\<close>

text \<open>
  The locations in use are those below \<open>id_of_most_recently_selected_buffer + 1\<close>. They are in order
  when they are disjoint intervals sorted by position.
\<close>

definition ch_size :: "cache_helper \<Rightarrow> nat" where
  "ch_size h = unat (ch_id_of_most_recently_selected_buffer h + 1)"

definition ch_location :: "cache_helper \<Rightarrow> nat \<Rightarrow> cache_location" where
  "ch_location h i = the (ch_cache_locations h ! i)"

definition ch_invar :: "cache_helper \<Rightarrow> bool" where
  "ch_invar h \<longleftrightarrow> ch_size h \<le> length (ch_cache_locations h) \<and>
     (\<forall>i < ch_size h. ch_cache_locations h ! i \<noteq> None \<and> cl_left (ch_location h i) \<le> cl_right (ch_location h i)) \<and>
     (\<forall>j < ch_size h. \<forall>i < j. cl_right (ch_location h i) < cl_left (ch_location h j))"

lemma ch_cell: "ch_invar h \<Longrightarrow> i < ch_size h \<Longrightarrow> cell (ch_cache_locations h) i = Inr (ch_location h i)"
  by (auto simp: ch_invar_def ch_location_def cell_def)

interpretation ch: sorted_array ch_size "\<lambda>h i. cl_right (ch_location h i)" ch_invar
proof
  fix h i j assume h: "ch_invar h" "i \<le> j" "j < ch_size h"
  then have "cl_left (ch_location h j) \<le> cl_right (ch_location h j)" by (simp add: ch_invar_def)
  moreover have "cl_right (ch_location h i) < cl_left (ch_location h j)" if "i \<noteq> j"
    using h that by (simp add: ch_invar_def)
  ultimately show "cl_right (ch_location h i) \<le> cl_right (ch_location h j)"
    by (cases "i = j") auto
qed

lemma ch_search:
  assumes "ch_invar h"
  shows "search 1 (ends_before h off) 0 (ch_size h) = Inr (ch.position h off 0)"
  unfolding ch.position_def
  by (rule search_pure) (simp add: ends_before_def ch_cell [OF assms])

text \<open>
  C27. On an index whose ranges are sorted and disjoint, \<open>get_buffer_info\<close> finds the buffer that
  holds an offset: it returns the location in use that covers the offset when there is one and its
  buffer has not been taken away, and the answer for a miss otherwise.
\<close>

theorem get_buffer_info_finds:
  assumes "ch_invar h"
  shows "\<exists>l. get_buffer_info off h = Inr l \<and>
    (if \<exists>i < ch_size h. cl_left (ch_location h i) \<le> off \<and> off \<le> cl_right (ch_location h i) \<and>
          cl_buffer_id (ch_location h i) \<noteq> -1
     then (\<exists>i < ch_size h. l = ch_location h i) \<and> cl_left l \<le> off \<and> off \<le> cl_right l \<and> cl_buffer_id l \<noteq> -1
     else l = no_location)"
proof -
  define p where "p = ch.position h off 0"
  let ?hit = "\<lambda>i. cl_left (ch_location h i) \<le> off \<and> off \<le> cl_right (ch_location h i) \<and>
      cl_buffer_id (ch_location h i) \<noteq> -1"
  have p: "p \<le> ch_size h" using ch.position_bounds [of 0 h off] by (simp add: p_def)
  have run: "get_buffer_info off h =
      (if p = ch_size h then Inr no_location
       else if ?hit p then Inr (ch_location h p) else Inr no_location)"
    using ch_search [OF assms, of off] ch_cell [OF assms, of p] p
    by (simp add: get_buffer_info_def Let_def p_def ch_size_def)
  have only: "i = p" if "i < ch_size h" "?hit i" for i
  proof -
    have "p \<le> i" using ch.below_position [OF assms, of 0 i off] that by (force simp: p_def)
    moreover have False if "p < i"
    proof -
      have "off \<le> cl_right (ch_location h p)"
        using ch.from_position [OF assms, of 0 off p] that \<open>i < ch_size h\<close> by (simp add: p_def)
      also have "\<dots> < cl_left (ch_location h i)" using assms that \<open>i < ch_size h\<close> by (simp add: ch_invar_def)
      finally show False using \<open>?hit i\<close> by (simp add: not_le [symmetric])
    qed
    ultimately show ?thesis by (cases "p = i") auto
  qed
  show ?thesis
  proof (cases "\<exists>i < ch_size h. ?hit i")
    case True
    then have "p < ch_size h" "?hit p" using only by blast+
    then show ?thesis using True by (auto simp: run)
  next
    case False
    then have "get_buffer_info off h = Inr no_location" using p by (auto simp: run)
    then show ?thesis by (intro exI [of _ no_location] conjI) (simp_all only: if_not_P [OF False])
  qed
qed

definition sample_helper :: cache_helper where
  "sample_helper = \<lparr>ch_cache_locations =
       [Some \<lparr>cl_left = 0, cl_right = 9, cl_buffer_id = 1\<rparr>, Some \<lparr>cl_left = 20, cl_right = 29, cl_buffer_id = 0\<rparr>, None],
     ch_sparse_buffer_index_locations = [Some 1, Some 0, None], ch_cur_min_invalid_offset = -1,
     ch_id_of_most_recently_selected_buffer = 1, ch_free_buffers_left = 1,
     ch_id_of_least_recently_selected_buffer = 0\<rparr>"

lemma sample_helper_ok: "ch_invar sample_helper" "ch_size sample_helper = 2"
  by code_simp+

theorem get_buffer_info_finds_witness:
  "\<exists>l. get_buffer_info 25 sample_helper = Inr l \<and> cl_left l \<le> 25 \<and> 25 \<le> cl_right l"
proof -
  have "\<exists>i < ch_size sample_helper. cl_left (ch_location sample_helper i) \<le> 25 \<and>
      25 \<le> cl_right (ch_location sample_helper i) \<and> cl_buffer_id (ch_location sample_helper i) \<noteq> -1"
    unfolding sample_helper_ok by (rule exI [of _ 1]) (simp add: sample_helper_def ch_location_def)
  then show ?thesis using get_buffer_info_finds [OF sample_helper_ok(1), of 25] by auto
qed

text \<open>
  \<open>map_buffer_to_offset_boundary\<close> never inserts a location: it overwrites the last location in
  use when the search stops there, and otherwise writes through an uninitialised pointer. On a new
  helper, with nothing mapped yet, it always does the latter.
\<close>

lemma map_buffer_overwrites_or_wild:
  assumes "ch_invar h" "unat buffer_id < length (ch_sparse_buffer_index_locations h)"
  shows "map_buffer_to_offset_boundary buffer_id off1 off2 h =
    (if 0 < ch_size h \<and> off1 \<le> cl_right (ch_location h (ch_size h - 1)) \<and>
        (\<forall>i < ch_size h - 1. cl_right (ch_location h i) < off1)
     then Inr (h\<lparr>ch_cache_locations := (ch_cache_locations h)
                   [ch_size h - 1 := Some \<lparr>cl_left = off1, cl_right = off2, cl_buffer_id = buffer_id\<rparr>],
                 ch_sparse_buffer_index_locations := (ch_sparse_buffer_index_locations h)
                   [unat buffer_id := Some (of_nat (ch_size h - 1))],
                 ch_id_of_most_recently_selected_buffer := ch_id_of_most_recently_selected_buffer h + 1,
                 ch_free_buffers_left := ch_free_buffers_left h - 1\<rparr>)
     else Inl WildPointer) \<and>
   map_buffer_to_offset_boundary buffer_id off1 off2 (new_cache_helper c) = Inl WildPointer"
proof -
  let ?i = "ch_id_of_most_recently_selected_buffer h" and ?n = "ch_size h"
  define p where "p = ch.position h off1 0"
  have p: "p \<le> ?n" using ch.position_bounds [of 0 h off1] by (simp add: p_def)
  have i: "p = unat ?i \<longleftrightarrow> 0 < ?n \<and> p = ?n - 1"
  proof (cases "?i = -1")
    case True
    then have "?n = 0" "unat ?i \<noteq> 0" by (simp_all add: ch_size_def)
    then show ?thesis using p by auto
  next
    case False
    then have "?n = unat ?i + 1" unfolding ch_size_def
      by (metis unatSuc add.commute add.left_inverse add_diff_cancel_right' diff_0 plus_1_eq_Suc)
    then show ?thesis by simp
  qed
  have last: "p = ?n - 1 \<longleftrightarrow> off1 \<le> cl_right (ch_location h (?n - 1)) \<and>
      (\<forall>i < ?n - 1. cl_right (ch_location h i) < off1)" if "0 < ?n"
  proof
    assume "p = ?n - 1"
    then show "off1 \<le> cl_right (ch_location h (?n - 1)) \<and> (\<forall>i < ?n - 1. cl_right (ch_location h i) < off1)"
      using ch.below_position [OF assms(1), of 0 _ off1] ch.from_position [OF assms(1), of 0 off1 "?n - 1"] that
      by (auto simp: p_def)
  next
    assume R: "off1 \<le> cl_right (ch_location h (?n - 1)) \<and> (\<forall>i < ?n - 1. cl_right (ch_location h i) < off1)"
    have "p \<le> ?n - 1"
      using ch.below_position [OF assms(1), of 0 "?n - 1" off1] R that by (force simp: p_def)
    moreover have "\<not> p < ?n - 1"
      using ch.from_position [OF assms(1), of 0 off1 p] R that by (force simp: p_def)
    ultimately show "p = ?n - 1" by simp
  qed
  have "map_buffer_to_offset_boundary buffer_id off1 off2 h =
      (if 0 < ?n \<and> p = ?n - 1 then
        rbind (rupd (ch_cache_locations h) (?n - 1)
            (Some \<lparr>cl_left = off1, cl_right = off2, cl_buffer_id = buffer_id\<rparr>)) (\<lambda>ls.
          Inr (h\<lparr>ch_cache_locations := ls, ch_sparse_buffer_index_locations :=
              (ch_sparse_buffer_index_locations h)[unat buffer_id := Some (of_nat (?n - 1))],
            ch_id_of_most_recently_selected_buffer := ?i + 1,
            ch_free_buffers_left := ch_free_buffers_left h - 1\<rparr>))
       else Inl WildPointer)"
    unfolding map_buffer_to_offset_boundary_def Let_def ch_size_def [symmetric] ch_search [OF assms(1)]
    by (simp add: assms(2) i flip: p_def)
  moreover have "?n - 1 < length (ch_cache_locations h)" if "0 < ?n"
    using that assms(1) by (auto simp: ch_invar_def)
  moreover have "map_buffer_to_offset_boundary buffer_id off1 off2 (new_cache_helper c) = Inl WildPointer"
    by (simp add: map_buffer_to_offset_boundary_def new_cache_helper_def search.simps)
  ultimately show ?thesis using last by auto
qed

lemma map_buffer_overwrites_or_wild_example:
  "map_buffer_to_offset_boundary 2 40 49 sample_helper = Inl WildPointer \<and>
   (\<exists>h'. map_buffer_to_offset_boundary 2 25 34 sample_helper = Inr h')"
proof -
  have "unat 2 < length (ch_sparse_buffer_index_locations sample_helper)" by (simp add: sample_helper_def)
  note m = map_buffer_overwrites_or_wild [OF sample_helper_ok(1) this, unfolded sample_helper_ok(2)]
  show ?thesis
    using m [of 40 49] m [of 25 34] by (simp add: sample_helper_def ch_location_def)
qed

text \<open>
  The two operations that give buffers up cannot be run on a new helper: the ids of the most and
  least recently selected buffer start as \<open>-1\<close>, the largest \<open>unsigned int\<close>, so replenishing a buffer
  and removing a range of buffers both index outside the array.
\<close>

lemma cache_helper_fresh_eviction:
  assumes "max_buffer_set_size c < 2 ^ 32"
  shows "replenish_least_recently_selected_buffer (new_cache_helper c) = Inl OutOfBounds \<and>
    remove_buffer_range id1 id2 (new_cache_helper c) = Inl OutOfBounds"
proof -
  have far: "cell (replicate (max_buffer_set_size c) None) 4294967295 = (Inl OutOfBounds :: uint res)"
    using assms unfolding cell_def by simp
  have "max id1 (- 1) = (- 1 :: uint)" by (simp add: max_def) 
  then show ?thesis
    using far by (simp add: replenish_least_recently_selected_buffer_def remove_buffer_range_def
        new_cache_helper_def Let_def)
qed

lemma cache_helper_fresh_eviction_example:
  "replenish_least_recently_selected_buffer (new_cache_helper cmake_config) = Inl OutOfBounds"
  using cache_helper_fresh_eviction [of cmake_config 0 0]
  by (simp add: max_buffer_set_size_def max_sstable_height_def)

end
