(* ===== verification/Level_Info.thy ===== *)
theory Level_Info
  imports Request_Batch Buffer_Queue Wait_Queue Sparse_Index Bloom_Filter Cache_Helper
begin

text \<open>
  \<^verbatim>\<open>sstable/sstable_info.hpp\<close>, \<^verbatim>\<open>level_info/decomposition/decomposition.hpp\<close> and
  \<^verbatim>\<open>level_info/level_info.hpp\<close>: the state of an SSTable and of a level, and \<open>decompose\<close>, which
  splits a batch of reads over the SSTables of a level or picks the SSTable of a compaction.
  Batches are shared between threads through pointers; they live in a store, in which the batch at
  address \<open>a > 0\<close> is cell \<open>a - 1\<close> and a deleted batch is \<open>None\<close>.
\<close>

section \<open>The batch store\<close>

type_synonym batch_store = "request_batch option list"

definition batch_deref :: "batch_store \<Rightarrow> nat \<Rightarrow> request_batch res" where
  "batch_deref bs a =
     (if a = 0 then Inl NullDeref
      else if a \<le> length bs then
        (case bs ! (a - 1) of None \<Rightarrow> Inl UseAfterFree | Some b \<Rightarrow> Inr b)
      else Inl WildPointer)"

definition batch_put :: "nat \<Rightarrow> request_batch \<Rightarrow> batch_store \<Rightarrow> batch_store" where
  "batch_put a b bs = bs[a - 1 := Some b]"

text \<open>\<open>new RequestBatch(t)\<close>.\<close>

definition batch_new :: "RequestType \<Rightarrow> batch_store \<Rightarrow> nat \<times> batch_store" where
  "batch_new t bs = (length bs + 1, bs @ [Some (new_request_batch t)])"

text \<open>\<open>batch->insert_read_write(...)\<close> through a pointer.\<close>

definition store_insert_read_write ::
    "config \<Rightarrow> byte list \<Rightarrow> nat \<Rightarrow> nat \<Rightarrow> int \<Rightarrow> RequestType \<Rightarrow> batch_store \<Rightarrow> batch_store res" where
  "store_insert_read_write c mem a buf fd t bs =
     rbind (batch_deref bs a) (\<lambda>b.
       rbind (batch_insert_read_write c mem a buf fd t b) (\<lambda>b'. Inr (batch_put a b' bs)))"

text \<open>
  \<open>batch->content.readwrite_pool.present_in_level = v\<close>; without a pool in the union there is
  nothing whose other members the assignment would initialise.
\<close>

definition store_set_present :: "nat \<Rightarrow> bool \<Rightarrow> batch_store \<Rightarrow> batch_store res" where
  "store_set_present a v bs =
     rbind (batch_deref bs a) (\<lambda>b.
       Inr (case rb_content b of
              Pool p \<Rightarrow> batch_put a (b\<lparr>rb_content := Pool (p\<lparr>rw_present_in_level := Some v\<rparr>)\<rparr>) bs
            | _ \<Rightarrow> bs))"

section \<open>SSTableInfo and LevelInfo\<close>

record sstable_info =
  ss_req_batch_wq :: "nat wait_queue"
  ss_file_path :: "byte list"
  ss_is_flushed_to :: bool
  ss_insert_buffers_from :: uint
  ss_page_cache_buffers :: "buf option list"
  ss_min_key :: "byte list"
  ss_max_key :: "byte list"
  ss_cache_helper :: cache_helper
  ss_stack :: stack
  ss_req_batch :: nat
  ss_waiting_on_io :: bool
  ss_already_waited :: bool
  ss_desired_sstable_offset :: usize

text \<open>A constructed \<open>SSTableInfo\<close>; what the members without initialiser hold is an argument.\<close>

definition new_sstable_info :: "config \<Rightarrow> nat wait_queue \<Rightarrow> (nat \<Rightarrow> byte) \<Rightarrow> nat \<Rightarrow> sstable_info" where
  "new_sstable_info c wq junk req_batch =
     \<lparr>ss_req_batch_wq = wq, ss_file_path = map junk [0 ..< file_path_length], ss_is_flushed_to = False, ss_insert_buffers_from = 0,
      ss_page_cache_buffers = replicate (max_buffer_set_size c) None, ss_min_key = map junk [0 ..< KEY_LENGTH c],
      ss_max_key = map junk [0 ..< KEY_LENGTH c],
      ss_cache_helper = new_cache_helper c, ss_stack = new_stack (max_sstable_height c),
      ss_req_batch = req_batch, ss_waiting_on_io = False, ss_already_waited = False,
      ss_desired_sstable_offset = -2\<rparr>"

record level_info =
  li_atomic_guard :: byte
  li_is_single_thread :: "bool option"
  li_filters :: "bloom_filter list"
  li_sparse_index :: sparse_index
  li_buffer_queues :: "buffer_queue list"
  li_sstable_infos :: "sstable_info list"

text \<open>
  \<open>is_single_thread = is_single_thread\<close> assigns the parameter to itself; only the guards of the
  buffer queues are set.
\<close>

definition set_is_single_thread :: "config \<Rightarrow> bool \<Rightarrow> level_info \<Rightarrow> level_info res" where
  "set_is_single_thread c is_single_thread li =
     rbind (rfold (\<lambda>i qs. rbind (rnth qs i) (\<lambda>q. rupd qs i (q\<lparr>bq_is_single_thread := is_single_thread\<rparr>)))
              [0 ..< LEVEL_FACTOR c] (li_buffer_queues li)) (\<lambda>qs.
       Inr (li\<lparr>li_buffer_queues := qs\<rparr>))"

section \<open>decompose\<close>

record decomposition =
  dc_decomposition :: "nat list"
  dc_expected_sstable_sizes :: "uint list"
  dc_num_req_batches :: uint
  dc_total_decomp_size :: uint

definition empty_decomposition :: "config \<Rightarrow> decomposition" where
  "empty_decomposition c =
     \<lparr>dc_decomposition = replicate (LEVEL_FACTOR c + 1) 0,
      dc_expected_sstable_sizes = replicate (LEVEL_FACTOR c) 0,
      dc_num_req_batches = 0, dc_total_decomp_size = 0\<rparr>"

text \<open>
  The state of the read branch: the decomposition, the pool being split (its requests are marked
  with the descriptor \<open>-1\<close>) and the batch store.
\<close>

record decompose_state =
  ds_decomp :: decomposition
  ds_pool :: readwrite_pool
  ds_store :: batch_store

text \<open>The C string a pointer into the request memory denotes.\<close>

definition mem_string :: "byte list \<Rightarrow> nat \<Rightarrow> byte list" where
  "mem_string mem a = drop a mem"

text \<open>
  \<open>decomp.decomposition[LEVEL_FACTOR]\<close> on first use: allocate it, then mark
  \<open>decomposition[i]\<close> (not the new batch) as absent.
\<close>

definition ensure_rest_batch :: "config \<Rightarrow> nat \<Rightarrow> decompose_state \<Rightarrow> decompose_state res" where
  "ensure_rest_batch c i st =
     rbind (rnth (dc_decomposition (ds_decomp st)) (LEVEL_FACTOR c)) (\<lambda>rest.
       if rest \<noteq> 0 then Inr st
       else let (a, bs) = batch_new READ (ds_store st)
            in rbind (rupd (dc_decomposition (ds_decomp st)) (LEVEL_FACTOR c) a) (\<lambda>d.
                 rbind (rnth d i) (\<lambda>ai.
                   rbind (store_set_present ai False bs) (\<lambda>bs'.
                     Inr (st\<lparr>ds_decomp := (ds_decomp st)\<lparr>dc_decomposition := d\<rparr>, ds_store := bs'\<rparr>)))))"

definition insert_rest :: "config \<Rightarrow> byte list \<Rightarrow> conn_req \<Rightarrow> decompose_state \<Rightarrow> decompose_state res" where
  "insert_rest c mem r st =
     rbind (rnth (dc_decomposition (ds_decomp st)) (LEVEL_FACTOR c)) (\<lambda>rest.
       rbind (store_insert_read_write c mem rest (cr_buffer r) (cr_client_sock_fd r) (cr_req_type r) (ds_store st)) (\<lambda>bs.
         Inr (st\<lparr>ds_store := bs\<rparr>)))"

text \<open>The check \<open>if (decomp.decomposition[i])\<close> allocates when there already is a batch.\<close>

definition insert_present :: "config \<Rightarrow> byte list \<Rightarrow> nat \<Rightarrow> conn_req \<Rightarrow> decompose_state \<Rightarrow> decompose_state res" where
  "insert_present c mem i r st =
     rbind (rnth (dc_decomposition (ds_decomp st)) i) (\<lambda>a.
       rbind (if a \<noteq> 0 then
                let (a', bs) = batch_new READ (ds_store st)
                in rbind (rupd (dc_decomposition (ds_decomp st)) i a') (\<lambda>d.
                     rbind (store_set_present a' True bs) (\<lambda>bs'.
                       Inr (st\<lparr>ds_decomp := (ds_decomp st)\<lparr>dc_decomposition := d\<rparr>, ds_store := bs'\<rparr>)))
              else Inr st) (\<lambda>st1.
         rbind (rnth (dc_decomposition (ds_decomp st1)) i) (\<lambda>a1.
           rbind (store_insert_read_write c mem a1 (cr_buffer r) (cr_client_sock_fd r) (cr_req_type r) (ds_store st1)) (\<lambda>bs.
             rbind (rnth (dc_expected_sstable_sizes (ds_decomp st1)) i) (\<lambda>n.
               rbind (rupd (dc_expected_sstable_sizes (ds_decomp st1)) i (n + 1)) (\<lambda>ns.
                 Inr (st1\<lparr>ds_decomp := (ds_decomp st1)\<lparr>dc_expected_sstable_sizes := ns\<rparr>, ds_store := bs\<rparr>)))))))"

text \<open>The body of the loop over the requests \<open>left_index <= j < right_index\<close> of table \<open>i\<close>.\<close>

definition decompose_request ::
    "config \<Rightarrow> byte list \<Rightarrow> bloom_filter \<Rightarrow> nat \<Rightarrow> nat \<Rightarrow> decompose_state \<Rightarrow> decompose_state res" where
  "decompose_request c mem flt i j st =
     rbind (cell (rw_data (ds_pool st)) j) (\<lambda>r.
       rbind (prob_contains_key (mem_string mem (cr_buffer r + 5)) flt) (\<lambda>present.
         rbind (if present then insert_present c mem i r st
                else rbind (ensure_rest_batch c i st) (insert_rest c mem r)) (\<lambda>st'.
           rbind (remove_via_index j (ds_pool st')) (\<lambda>p. Inr (st'\<lparr>ds_pool := p\<rparr>)))))"

text \<open>\<open>n\<close> more iterations from \<open>j\<close> on; a bound of \<open>-1\<close> counts as \<open>2 ^ 32 - 1\<close>.\<close>

fun decompose_range ::
    "config \<Rightarrow> byte list \<Rightarrow> bloom_filter \<Rightarrow> nat \<Rightarrow> nat \<Rightarrow> nat \<Rightarrow> decompose_state \<Rightarrow> decompose_state res" where
  "decompose_range c mem flt i 0 j st = Inr st"
| "decompose_range c mem flt i (Suc n) j st =
     rbind (decompose_request c mem flt i j st) (decompose_range c mem flt i n (Suc j))"

definition to_unsigned :: "int \<Rightarrow> nat" where
  "to_unsigned n = unat (word_of_int n :: uint)"

text \<open>One table of the level: the keys are looked for five bytes behind the pointers to them.\<close>

definition decompose_table :: "config \<Rightarrow> byte list \<Rightarrow> level_info \<Rightarrow> nat \<Rightarrow> decompose_state \<Rightarrow> decompose_state res" where
  "decompose_table c mem li i st =
     rbind (rnth (li_filters li) i) (\<lambda>flt.
       rbind (find_index_starting_from c mem 0
                (rslice (li_sparse_index li) (get_table_min_key c i + 5) (KEY_LENGTH c)) (ds_pool st)) (\<lambda>left_index.
         rbind (find_index_starting_from c mem (to_unsigned left_index)
                  (rslice (li_sparse_index li) (get_table_max_key c i + 5) (KEY_LENGTH c)) (ds_pool st)) (\<lambda>right_index.
           decompose_range c mem flt i (to_unsigned right_index - to_unsigned left_index) (to_unsigned left_index) st)))"

text \<open>\<open>for (i = 0; i < LEVEL_FACTOR && !filters[i].empty(); ++i)\<close>, \<open>n\<close> tables left.\<close>

fun decompose_tables :: "config \<Rightarrow> byte list \<Rightarrow> level_info \<Rightarrow> nat \<Rightarrow> nat \<Rightarrow> decompose_state \<Rightarrow> decompose_state res" where
  "decompose_tables c mem li 0 i st = Inr st"
| "decompose_tables c mem li (Suc n) i st =
     rbind (rnth (li_filters li) i) (\<lambda>flt.
       if filter_empty flt then Inr st
       else rbind (decompose_table c mem li i st) (decompose_tables c mem li n (Suc i)))"

definition decompose_leftover :: "config \<Rightarrow> byte list \<Rightarrow> nat \<Rightarrow> decompose_state \<Rightarrow> decompose_state res" where
  "decompose_leftover c mem i st =
     rbind (cell (rw_data (ds_pool st)) i) (\<lambda>r.
       if cr_client_sock_fd r \<noteq> -1 then rbind (ensure_rest_batch c i st) (insert_rest c mem r)
       else Inr st)"

definition count_batches :: "decomposition \<Rightarrow> decomposition" where
  "count_batches d = d\<lparr>dc_num_req_batches := of_nat (length (filter (\<lambda>a. a \<noteq> 0) (dc_decomposition d)))\<rparr>"

definition decompose_read :: "config \<Rightarrow> byte list \<Rightarrow> level_info \<Rightarrow> readwrite_pool \<Rightarrow> batch_store \<Rightarrow> decompose_state res" where
  "decompose_read c mem li pool bs =
     rbind (decompose_tables c mem li (LEVEL_FACTOR c) 0
              \<lparr>ds_decomp = (empty_decomposition c)\<lparr>dc_total_decomp_size := of_nat (rw_length pool)\<rparr>,
               ds_pool = pool, ds_store = bs\<rparr>) (\<lambda>st.
       rbind (rfold (decompose_leftover c mem) [0 ..< rw_length pool] st) (\<lambda>st'.
         Inr (st'\<lparr>ds_decomp := count_batches (ds_decomp st')\<rparr>)))"

text \<open>\<open>while (i < LEVEL_FACTOR && !filters[i++].empty());\<close>, with \<open>n\<close> tables left from \<open>i\<close> on.\<close>

fun skip_tables :: "bloom_filter list \<Rightarrow> nat \<Rightarrow> nat \<Rightarrow> nat res" where
  "skip_tables fs 0 i = Inr i"
| "skip_tables fs (Suc n) i =
     rbind (rnth fs i) (\<lambda>f. if filter_empty f then Inr (Suc i) else skip_tables fs n (Suc i))"

text \<open>The bytes of a C string in a segment, up to and including its terminator.\<close>

fun segment_string :: "byte option list \<Rightarrow> byte list res" where
  "segment_string [] = Inl OutOfBounds"
| "segment_string (None # bs) = Inl Indeterminate"
| "segment_string (Some b # bs) =
     (if b = 0 then Inr [0] else rbind (segment_string bs) (\<lambda>s. Inr (b # s)))"

text \<open>
  The loop that enters the segment's keys into the filter. The offset \<open>j\<close> is added to the pointer
  \<open>key\<close> in every iteration, not to its start.
\<close>

fun insert_segment_keys :: "nat list \<Rightarrow> byte option list \<Rightarrow> nat \<Rightarrow> bloom_filter \<Rightarrow> bloom_filter res" where
  "insert_segment_keys [] data key f = Inr f"
| "insert_segment_keys (j # js) data key f =
     rbind (segment_string (drop (key + j) data)) (\<lambda>s.
       rbind (insert_key s f) (insert_segment_keys js data (key + j)))"

definition segment_offsets :: "config \<Rightarrow> nat list" where
  "segment_offsets c =
     (let e = KEY_LENGTH c + VALUE_LENGTH c
      in map (\<lambda>t. t * e) [0 ..< (MEMTABLE_SIZE c + e - 1) div e])"

definition decompose_compaction ::
    "config \<Rightarrow> level_info \<Rightarrow> nat \<Rightarrow> batch_store \<Rightarrow> (decomposition \<times> level_info) res" where
  "decompose_compaction c li a bs =
     rbind (skip_tables (li_filters li) (LEVEL_FACTOR c) 0) (\<lambda>i.
       rbind (if i < LEVEL_FACTOR c then
                rbind (batch_deref bs a) (\<lambda>b.
                  rbind (batch_segment b) (\<lambda>seg.
                    rbind (rnth (li_filters li) i) (\<lambda>f.
                      rbind (insert_segment_keys (segment_offsets c) (rs_data seg) 0 f) (\<lambda>f'.
                        rbind (rupd (li_filters li) i f') (\<lambda>fs. Inr (i, fs))))))
              else Inr (0, li_filters li)) (\<lambda>(slot, fs).
         rbind (rupd (replicate (LEVEL_FACTOR c + 1) 0) slot a) (\<lambda>d.
           rbind (rupd (replicate (LEVEL_FACTOR c) 0) slot (of_nat (MEMTABLE_SIZE c))) (\<lambda>sizes.
             Inr (\<lparr>dc_decomposition = d, dc_expected_sstable_sizes = sizes, dc_num_req_batches = 1,
                   dc_total_decomp_size = of_nat (MEMTABLE_SIZE c)\<rparr>,
                  li\<lparr>li_filters := fs\<rparr>)))))"

definition decompose ::
    "config \<Rightarrow> byte list \<Rightarrow> nat \<Rightarrow> level_info \<Rightarrow> batch_store \<Rightarrow> (decomposition \<times> level_info \<times> batch_store) res" where
  "decompose c mem a li bs =
     rbind (batch_deref bs a) (\<lambda>b.
       if rb_req_type b = READ then
         rbind (batch_pool b) (\<lambda>pool.
           rbind (decompose_read c mem li pool bs) (\<lambda>st.
             Inr (ds_decomp st, li, batch_put a (b\<lparr>rb_content := Pool (ds_pool st)\<rparr>) (ds_store st))))
       else
         rbind (decompose_compaction c li a bs) (\<lambda>(d, li'). Inr (d, li', bs)))"

section \<open>What decompose does to a batch of reads\<close>

definition no_batches :: "config \<Rightarrow> decompose_state \<Rightarrow> bool" where
  "no_batches c st \<longleftrightarrow> length (dc_decomposition (ds_decomp st)) = LEVEL_FACTOR c + 1 \<and>
     (\<forall>i \<le> LEVEL_FACTOR c. dc_decomposition (ds_decomp st) ! i = 0)"

lemma no_batches_nth: "no_batches c st \<Longrightarrow> i \<le> LEVEL_FACTOR c \<Longrightarrow> rnth (dc_decomposition (ds_decomp st)) i = Inr 0"
  by (simp add: no_batches_def)

lemma insert_present_fails:
  "no_batches c st \<Longrightarrow> i \<le> LEVEL_FACTOR c \<Longrightarrow> insert_present c mem i r st = Inl NullDeref"
  by (simp add: insert_present_def no_batches_nth store_insert_read_write_def batch_deref_def)

lemma ensure_rest_fails:
  assumes "no_batches c st"
  shows "\<exists>e. rbind (ensure_rest_batch c i st) (insert_rest c mem r) = Inl e"
proof -
  let ?d = "(dc_decomposition (ds_decomp st))[LEVEL_FACTOR c := Suc (length (ds_store st))]"
  let ?bs = "ds_store st @ [Some (new_request_batch READ)]"
  let ?st = "st\<lparr>ds_decomp := (ds_decomp st)\<lparr>dc_decomposition := ?d\<rparr>, ds_store := ?bs\<rparr>"
  have len: "length ?d = LEVEL_FACTOR c + 1" using assms by (simp add: no_batches_def)
  have run: "ensure_rest_batch c i st =
      rbind (rnth ?d i) (\<lambda>ai. rbind (store_set_present ai False ?bs) (\<lambda>bs'. Inr (?st\<lparr>ds_store := bs'\<rparr>)))"
    using no_batches_nth [OF assms, of "LEVEL_FACTOR c"] len by (simp add: ensure_rest_batch_def batch_new_def)
  consider "i < LEVEL_FACTOR c" | "i = LEVEL_FACTOR c" | "LEVEL_FACTOR c < i" by linarith
  then show ?thesis
  proof cases
    case 1
    then have "rnth ?d i = Inr 0" using assms by (simp add: no_batches_def)
    then show ?thesis unfolding run by (simp add: store_set_present_def batch_deref_def)
  next
    case 2
    then have nth: "rnth ?d i = Inr (Suc (length (ds_store st)))" using len by simp
    then have "ensure_rest_batch c i st = Inr ?st"
      unfolding run by (simp add: store_set_present_def batch_deref_def new_request_batch_def)
    then show ?thesis using nth 2
      by (simp add: insert_rest_def store_insert_read_write_def batch_deref_def
          batch_insert_read_write_def batch_pool_def new_request_batch_def)
  next
    case 3
    then show ?thesis unfolding run using len by simp
  qed
qed

lemma decompose_request_fails:
  assumes "no_batches c st" "i < LEVEL_FACTOR c"
  shows "\<exists>e. decompose_request c mem flt i j st = Inl e"
proof (cases "cell (rw_data (ds_pool st)) j")
  case (Inr r)
  show ?thesis
  proof (cases "prob_contains_key (mem_string mem (cr_buffer r + 5)) flt")
    case present: (Inr present)
    have "insert_present c mem i r st = Inl NullDeref"
      using assms by (intro insert_present_fails) simp_all
    moreover obtain e where "rbind (ensure_rest_batch c i st) (insert_rest c mem r) = Inl e"
      using ensure_rest_fails [OF assms(1)] by blast
    ultimately show ?thesis
      by (cases present) (simp_all add: decompose_request_def Inr \<open>prob_contains_key _ _ = _\<close>)
  qed (simp add: decompose_request_def Inr)
qed (simp add: decompose_request_def)

lemma decompose_tables_unchanged:
  assumes "no_batches c st" "decompose_tables c mem li n i st = Inr st'" "i + n \<le> LEVEL_FACTOR c"
  shows "st' = st"
  using assms
proof (induction n arbitrary: i)
  case (Suc n)
  have range: "st1 = st" if range: "decompose_range c mem flt i m j st = Inr st1" for flt m j st1
    using that decompose_request_fails [OF Suc.prems(1), of i mem flt j] Suc.prems(3)
    by (cases m) auto
  have "st1 = st" if "decompose_table c mem li i st = Inr st1" for st1
    using that by (auto simp: decompose_table_def rbind_eq_Inr dest: range)
  with Suc show ?case by (auto simp: rbind_eq_Inr split: if_splits)
qed simp

lemma decompose_leftovers:
  assumes "no_batches c st" "rfold (decompose_leftover c mem) is st = Inr st'"
  shows "st' = st \<and> (\<forall>i \<in> set is. \<exists>r. cell (rw_data (ds_pool st)) i = Inr r \<and> cr_client_sock_fd r = -1)"
  using assms(2)
proof (induction "is")
  case (Cons i "is")
  from Cons.prems obtain st1 where
      st1: "decompose_leftover c mem i st = Inr st1" "rfold (decompose_leftover c mem) is st1 = Inr st'"
    by (auto simp: rbind_eq_Inr)
  then obtain r where r: "cell (rw_data (ds_pool st)) i = Inr r"
    by (auto simp: decompose_leftover_def rbind_eq_Inr)
  with st1(1) ensure_rest_fails [OF assms(1), of i mem r] have "cr_client_sock_fd r = -1" "st1 = st"
    by (auto simp: decompose_leftover_def split: if_splits)
  then show ?case using Cons.IH st1(2) r by auto
qed simp

text \<open>
  Splitting a batch of reads over a level never works: \<open>decompose\<close> runs into undefined behaviour
  as soon as the batch holds a request that is still wanted, and if it returns, it has found no
  such request, handed out no batch and changed nothing.
\<close>

lemma decompose_read_result:
  assumes "batch_deref bs a = Inr b" "rb_req_type b = READ" "batch_pool b = Inr pool"
  shows "(\<exists>e. decompose c mem a li bs = Inl e) \<or>
    (\<forall>r \<in> set (rw_entries pool). cr_client_sock_fd r = -1) \<and>
    decompose c mem a li bs =
      Inr ((empty_decomposition c)\<lparr>dc_total_decomp_size := of_nat (rw_length pool)\<rparr>, li, bs)"
proof (cases "decompose c mem a li bs")
  case (Inr x)
  let ?d = "(empty_decomposition c)\<lparr>dc_total_decomp_size := of_nat (rw_length pool)\<rparr>"
  let ?st = "\<lparr>ds_decomp = ?d, ds_pool = pool, ds_store = bs\<rparr>"
  have none: "no_batches c ?st" by (simp add: no_batches_def empty_decomposition_def nth_replicate del: replicate.simps replicate_Suc)
  from Inr assms obtain st st' where
      st: "decompose_tables c mem li (LEVEL_FACTOR c) 0 ?st = Inr st"
        "rfold (decompose_leftover c mem) [0 ..< rw_length pool] st = Inr st'"
        "x = (count_batches (ds_decomp st'), li, batch_put a (b\<lparr>rb_content := Pool (ds_pool st')\<rparr>) (ds_store st'))"
    by (auto simp: decompose_def decompose_read_def rbind_eq_Inr)
  from decompose_tables_unchanged [OF none st(1)] have "st = ?st" by simp
  with decompose_leftovers [OF none] st(2) have left: "st' = ?st"
      "\<forall>i \<in> set [0 ..< rw_length pool]. \<exists>r. cell (rw_data pool) i = Inr r \<and> cr_client_sock_fd r = -1"
    by auto
  have "rb_content b = Pool pool" using assms(3) by (auto simp: batch_pool_def split: content.splits)
  moreover have "0 < a" "a \<le> length bs" "bs ! (a - 1) = Some b"
    using assms(1) by (auto simp: batch_deref_def split: if_splits option.splits)
  ultimately have "batch_put a (b\<lparr>rb_content := Pool pool\<rparr>) bs = bs"
    by (simp add: batch_put_def list_update_same_conv)
  moreover have "count_batches ?d = ?d" by (simp add: count_batches_def empty_decomposition_def)
  moreover have "\<forall>r \<in> set (rw_entries pool). cr_client_sock_fd r = -1"
    using left(2)
    by (auto simp: rw_entries_def cell_def rnth_def in_set_conv_nth split: if_splits option.splits)
  ultimately show ?thesis using Inr st(3) left(1) by simp
qed simp

text \<open>A level with empty filters and one request for key 5 waiting to be split.\<close>

definition sample_level :: level_info where
  "sample_level = \<lparr>li_atomic_guard = 1, li_is_single_thread = Some True,
     li_filters = replicate 10 sample_filter, li_sparse_index = new_sparse_index sample_config,
     li_buffer_queues = replicate 10 (new_buffer_queue sample_config [0, 0] True), li_sstable_infos = []\<rparr>"

definition sample_store :: batch_store where
  "sample_store = [Some \<lparr>rb_req_type = READ, rb_content = Pool sample_pool\<rparr>]"

lemma decompose_read_result_example:
  "\<exists>e. decompose sample_config sample_mem 1 sample_level sample_store = Inl e"
proof -
  have "batch_deref sample_store 1 = Inr \<lparr>rb_req_type = READ, rb_content = Pool sample_pool\<rparr>"
    by (simp add: batch_deref_def sample_store_def)
  moreover have "sample_req 1 0 \<in> set (rw_entries sample_pool)" "cr_client_sock_fd (sample_req 1 0) \<noteq> -1"
    by (simp_all add: sample_pool_def rw_entries_def sample_req_def)
  ultimately show ?thesis
    using decompose_read_result [of sample_store 1 _ sample_pool sample_config sample_mem sample_level]
    by (force simp: batch_pool_def)
qed

section \<open>What decompose does to a compaction\<close>

text \<open>The table a compaction goes to is the one behind the first table with an empty filter.\<close>

lemma skip_tables_result:
  assumes "i + n \<le> length fs"
  shows "skip_tables fs n i =
    (case find (\<lambda>j. filter_empty (fs ! j)) [i ..< i + n] of None \<Rightarrow> Inr (i + n) | Some j \<Rightarrow> Inr (Suc j))"
  using assms
proof (induction n arbitrary: i)
  case (Suc n)
  have "[i ..< i + Suc n] = i # [Suc i ..< Suc i + n]" by (simp add: upt_conv_Cons)
  then show ?case using Suc.IH [of "Suc i"] Suc.prems by (simp del: upt_Suc split: option.splits)
qed simp

lemma insert_segment_keys_bound:
  "insert_segment_keys js data key f = Inr f' \<Longrightarrow> js \<noteq> [] \<Longrightarrow> key + sum_list js < length data"
proof (induction js arbitrary: key f)
  case (Cons j js)
  from Cons.prems(1) obtain s f1 where
      s: "segment_string (drop (key + j) data) = Inr s" "insert_segment_keys js data (key + j) f1 = Inr f'"
    by (auto simp: rbind_eq_Inr)
  show ?case
  proof (cases js)
    case Nil
    have "drop (key + j) data \<noteq> []" using s(1) by (cases "drop (key + j) data") auto
    then show ?thesis using Nil by simp
  next
    case (Cons k ks)
    then show ?thesis using Cons.IH [OF s(2)] by (simp add: add.assoc)
  qed
qed simp

lemma segment_offsets_sum:
  assumes "0 < KEY_LENGTH c + VALUE_LENGTH c" "2 * (KEY_LENGTH c + VALUE_LENGTH c) < MEMTABLE_SIZE c"
  shows "MEMTABLE_SIZE c \<le> sum_list (segment_offsets c)" "segment_offsets c \<noteq> []"
proof -
  define e where "e = KEY_LENGTH c + VALUE_LENGTH c"
  define n where "n = (MEMTABLE_SIZE c + e - 1) div e"
  have e: "0 < e" "2 * e < MEMTABLE_SIZE c" using assms by (simp_all add: e_def)
  have "MEMTABLE_SIZE c + e - 1 < e + e * n"
    unfolding n_def by (rule dividend_less_times_div [OF e(1)])
  then have le: "MEMTABLE_SIZE c \<le> e * n" using e(1) by linarith
  then have "e * 2 < e * n" using e(2) by linarith
  then have n: "3 \<le> n" by simp
  have "k \<le> (\<Sum>t \<leftarrow> [0 ..< k]. t)" if "3 \<le> k" for k
    using that
  proof (induction k rule: dec_induct)
    case base
    then show ?case by (simp add: numeral_3_eq_3)
  qed simp
  then have "e * n \<le> e * (\<Sum>t \<leftarrow> [0 ..< n]. t)" using n by simp
  also have "e * (\<Sum>t \<leftarrow> ts. t) = (\<Sum>t \<leftarrow> ts. t * e)" for ts
    by (induction ts) (simp_all add: algebra_simps)
  finally show "MEMTABLE_SIZE c \<le> sum_list (segment_offsets c)"
    using le unfolding segment_offsets_def Let_def e_def [symmetric] n_def [symmetric] by linarith
  show "segment_offsets c \<noteq> []"
    using n unfolding segment_offsets_def Let_def e_def [symmetric] n_def [symmetric] by simp
qed

text \<open>
  A compaction gets through \<open>decompose\<close> only if all SSTables of the level but the last are in
  use, and then it goes to the first SSTable, which is not free. Otherwise \<open>decompose\<close> runs off
  the segment while entering its keys into the filter.
\<close>

lemma decompose_compaction_result:
  assumes "batch_deref bs a = Inr b" "rb_req_type b = COMPACTION" "batch_segment b = Inr seg"
    and "length (li_filters li) = LEVEL_FACTOR c" "0 < LEVEL_FACTOR c" "length (rs_data seg) = MEMTABLE_SIZE c"
    and "0 < KEY_LENGTH c + VALUE_LENGTH c" "2 * (KEY_LENGTH c + VALUE_LENGTH c) < MEMTABLE_SIZE c"
  shows "if \<forall>i < LEVEL_FACTOR c - 1. \<not> filter_empty (li_filters li ! i)
    then decompose c mem a li bs = Inr
      (\<lparr>dc_decomposition = a # replicate (LEVEL_FACTOR c) 0,
        dc_expected_sstable_sizes = of_nat (MEMTABLE_SIZE c) # replicate (LEVEL_FACTOR c - 1) 0,
        dc_num_req_batches = 1, dc_total_decomp_size = of_nat (MEMTABLE_SIZE c)\<rparr>, li, bs)
    else \<exists>e. decompose c mem a li bs = Inl e"
proof -
  let ?fs = "li_filters li" and ?L = "LEVEL_FACTOR c"
  obtain m where m: "?L = Suc m" using assms(5) gr0_implies_Suc by blast
  have run: "decompose c mem a li bs = rbind (decompose_compaction c li a bs) (\<lambda>(d, li'). Inr (d, li', bs))"
    using assms(1,2) by (simp add: decompose_def)
  have skip: "skip_tables ?fs ?L 0 =
      (case find (\<lambda>j. filter_empty (?fs ! j)) [0 ..< ?L] of None \<Rightarrow> Inr ?L | Some j \<Rightarrow> Inr (Suc j))"
    using skip_tables_result [of 0 ?L ?fs] assms(4) by (simp only: add_0 le_refl)
  show ?thesis
  proof (cases "\<forall>i < ?L - 1. \<not> filter_empty (?fs ! i)")
    case True
    have "skip_tables ?fs ?L 0 = Inr ?L"
      using True m unfolding skip
      by (auto split: option.splits simp: find_Some_iff nth_append less_Suc_eq)
    then have "decompose_compaction c li a bs = Inr
      (\<lparr>dc_decomposition = a # replicate ?L 0,
        dc_expected_sstable_sizes = of_nat (MEMTABLE_SIZE c) # replicate (?L - 1) 0,
        dc_num_req_batches = 1, dc_total_decomp_size = of_nat (MEMTABLE_SIZE c)\<rparr>, li)"
      by (simp add: decompose_compaction_def m)
    then show ?thesis using True by (simp add: run)
  next
    case False
    have "\<exists>j. skip_tables ?fs ?L 0 = Inr (Suc j) \<and> Suc j < ?L"
    proof -
      from False obtain i where i: "i < ?L - 1" "filter_empty (?fs ! i)" by blast
      then have "find (\<lambda>j. filter_empty (?fs ! j)) [0 ..< ?L] \<noteq> None"
        by (auto simp: find_None_iff intro!: exI [of _ i])
      then obtain j where j: "find (\<lambda>j. filter_empty (?fs ! j)) [0 ..< ?L] = Some j" by blast
      then have "\<forall>k < j. \<not> filter_empty (?fs ! k)" by (auto simp: find_Some_iff)
      then have "j \<le> i" using i(2) not_le by blast
      then show ?thesis using i(1) j by (simp add: skip)
    qed
    then obtain j where j: "skip_tables ?fs ?L 0 = Inr (Suc j)" "Suc j < ?L" by blast
    have "\<exists>e. insert_segment_keys (segment_offsets c) (rs_data seg) 0 f = Inl e" for f
      using insert_segment_keys_bound [of "segment_offsets c" "rs_data seg" 0 f]
        segment_offsets_sum [OF assms(7,8)] assms(6)
      by (cases "insert_segment_keys (segment_offsets c) (rs_data seg) 0 f") auto
    then obtain e where "insert_segment_keys (segment_offsets c) (rs_data seg) 0 (?fs ! Suc j) = Inl e" by blast
    then have "decompose_compaction c li a bs = Inl e"
      using j assms(1,3,4) by (simp add: decompose_compaction_def)
    then show ?thesis using False by (auto simp: run)
  qed
qed

lemma decompose_compaction_result_example:
  "\<exists>e. decompose cmake_config [] 1 sample_level
     [Some \<lparr>rb_req_type = COMPACTION, rb_content = Segment ((new_request_segment cmake_config)
        \<lparr>rs_data := replicate (MEMTABLE_SIZE cmake_config) (Some 0)\<rparr>)\<rparr>] = Inl e"
proof -
  let ?seg = "(new_request_segment cmake_config)\<lparr>rs_data := replicate (MEMTABLE_SIZE cmake_config) (Some 0)\<rparr>"
  let ?b = "\<lparr>rb_req_type = COMPACTION, rb_content = Segment ?seg\<rparr>"
  have "\<not> (\<forall>i < LEVEL_FACTOR cmake_config - 1. \<not> filter_empty (li_filters sample_level ! i))"
    by (auto simp: sample_level_def filter_empty_def sample_filter_eq intro!: exI [of _ 0])
  moreover have "length (li_filters sample_level) = LEVEL_FACTOR cmake_config"
    by (simp add: sample_level_def)
  moreover have "batch_deref [Some ?b] 1 = Inr ?b" "batch_segment ?b = Inr ?seg"
      "length (rs_data ?seg) = MEMTABLE_SIZE cmake_config"
    by (simp_all add: batch_deref_def batch_segment_def)
  moreover have "0 < LEVEL_FACTOR cmake_config" "0 < KEY_LENGTH cmake_config + VALUE_LENGTH cmake_config"
      "2 * (KEY_LENGTH cmake_config + VALUE_LENGTH cmake_config) < MEMTABLE_SIZE cmake_config"
    by (simp_all add: MEMTABLE_SIZE_def)
  ultimately show ?thesis
    using decompose_compaction_result [of "[Some ?b]" 1 ?b ?seg sample_level cmake_config "[]"]
    by (simp only: if_False request_batch.simps)
qed

text \<open>
  \<open>set_is_single_thread\<close> sets the flag of every buffer queue of the level but not the level's
  own flag, which stays as uninitialised as it was.
\<close>

lemma set_is_single_thread_result:
  assumes "length (li_buffer_queues li) = LEVEL_FACTOR c"
  shows "set_is_single_thread c v li =
    Inr (li\<lparr>li_buffer_queues := map (bq_is_single_thread_update (\<lambda>_. v)) (li_buffer_queues li)\<rparr>)"
proof -
  let ?step = "\<lambda>i qs. rbind (rnth qs i) (\<lambda>q. rupd qs i (q\<lparr>bq_is_single_thread := v\<rparr>))"
  have "rfold ?step [0 ..< n] qs = Inr (map (bq_is_single_thread_update (\<lambda>_. v)) (take n qs) @ drop n qs)"
    if "n \<le> length qs" for n and qs :: "buffer_queue list"
    using that
  proof (induction n)
    case (Suc n)
    have "drop n qs = qs ! n # drop (Suc n) qs" using Suc.prems by (simp add: Cons_nth_drop_Suc)
    then show ?case using Suc
      by (simp add: rfold_append nth_append list_update_append take_Suc_conv_app_nth)
  qed simp
  from this [of "LEVEL_FACTOR c" "li_buffer_queues li"] show ?thesis
    using assms by (simp add: set_is_single_thread_def)
qed

end
