(* ===== verification/Network.thy ===== *)
theory Network
  imports Level_Info
begin

text \<open>
  The event loop of \<open>LSMTree::network_thread_routine\<close> in \<^verbatim>\<open>lsm_tree.hpp\<close>: what the network
  thread does with each completion queue entry. The submission queue is the list of its entries; an
  entry is empty until it is prepared, and preparing it again overwrites it. The thread holds one
  current entry, \<open>sqe\<close>. The user data of an entry says which object the pointer in it refers to.
\<close>

section \<open>State\<close>

text \<open>
  What the 64 bits of user data denote: the batch of the accept request, a slot of the connection
  pool, a request inside a batch, a batch, or bits that are no pointer at all.
\<close>

datatype user_data =
    Accept_batch
  | Connection nat
  | Batch_entry nat nat
  | Batch nat
  | Not_a_pointer

datatype sqe =
    Prep_recv int nat nat user_data
  | Prep_multishot_accept user_data
  | Prep_msg_main_ring user_data
  | Prep_msg_ring uint usize
  | Prep_close_direct int
  | Prep_send_zc int nat nat user_data

record network_state =
  nw_mem :: "byte list"
  nw_connection_pool :: connection_pool
  nw_store :: batch_store
  nw_batch :: nat
  nw_ring :: "sqe option list"
  nw_sqe :: nat

text \<open>\<open>io_uring_get_sqe\<close>: the next entry of the queue.\<close>

definition get_sqe :: "network_state \<Rightarrow> network_state" where
  "get_sqe st = st\<lparr>nw_ring := nw_ring st @ [None], nw_sqe := length (nw_ring st)\<rparr>"

definition prep :: "sqe \<Rightarrow> network_state \<Rightarrow> network_state res" where
  "prep e st = rbind (rupd (nw_ring st) (nw_sqe st) (Some e)) (\<lambda>r. Inr (st\<lparr>nw_ring := r\<rparr>))"

text \<open>\<open>cqe_base_req->req_type\<close>.\<close>

definition entry_of :: "network_state \<Rightarrow> nat \<Rightarrow> nat \<Rightarrow> conn_req res" where
  "entry_of st a k =
     rbind (batch_deref (nw_store st) a) (\<lambda>b.
       rbind (batch_pool b) (\<lambda>p. cell (rw_data p) k))"

definition base_req_type :: "network_state \<Rightarrow> user_data \<Rightarrow> RequestType res" where
  "base_req_type st u =
     (case u of
        Accept_batch \<Rightarrow> Inr ACCEPT
      | Connection s \<Rightarrow> rbind (cell (cp_connections (nw_connection_pool st)) s) (\<lambda>r. Inr (cr_req_type r))
      | Batch_entry a k \<Rightarrow> rbind (entry_of st a k) (\<lambda>r. Inr (cr_req_type r))
      | Batch a \<Rightarrow> rbind (batch_deref (nw_store st) a) (\<lambda>b. Inr (rb_req_type b))
      | Not_a_pointer \<Rightarrow> Inl WildPointer)"

text \<open>\<open>static_cast<ConnectionRequest*>(cqe_base_req)\<close>.\<close>

definition as_connection :: "network_state \<Rightarrow> user_data \<Rightarrow> conn_req res" where
  "as_connection st u =
     (case u of
        Connection s \<Rightarrow> cell (cp_connections (nw_connection_pool st)) s
      | Batch_entry a k \<Rightarrow> entry_of st a k
      | _ \<Rightarrow> Inl WildPointer)"

section \<open>The handlers\<close>

text \<open>
  A new connection. The user data of the receive request is read out of the connection request
  itself (\<open>*reinterpret_cast<__u64*>(conn_req)\<close>), so it is not a pointer to it.
\<close>

definition handle_accept :: "config \<Rightarrow> int \<Rightarrow> bool \<Rightarrow> network_state \<Rightarrow> network_state res" where
  "handle_accept c client_sock_fd flag_more st =
     (if client_sock_fd > 0 then
        rbind (cp_insert client_sock_fd RECV (nw_connection_pool st)) (\<lambda>(pool, s).
          rbind (cell (cp_connections pool) s) (\<lambda>r.
            rbind (prep (Prep_recv client_sock_fd (cr_buffer r) (SOCKET_BUFFER_LENGTH c) Not_a_pointer)
                     (st\<lparr>nw_connection_pool := pool\<rparr>)) (\<lambda>st1.
              if flag_more then Inr st1
              else rbind (prep (Prep_multishot_accept Accept_batch) (get_sqe st1)) (\<lambda>st2.
                     Inr (st2\<lparr>nw_sqe := nw_sqe st1\<rparr>)))))
      else Inr st)"

definition read_tag :: "byte list" where
  "read_tag = [114, 101, 97, 100, 0]"

text \<open>
  A received request: clear what lies behind the key, decode the type from the first five bytes and
  add the request to the current batch; a full batch goes to the main thread instead.
\<close>

definition handle_recv :: "config \<Rightarrow> user_data \<Rightarrow> network_state \<Rightarrow> network_state res" where
  "handle_recv c u st =
     rbind (as_connection st u) (\<lambda>r.
       let buf = cr_buffer r
       in rbind (rfill (nw_mem st) (buf + 5 + KEY_LENGTH c) (buf + VALUE_LENGTH c) 0) (\<lambda>mem.
            rbind (rslice mem buf 5) (\<lambda>tag.
              let t = (if memcmp tag read_tag = 0 then READ else WRITE);
                  st1 = st\<lparr>nw_mem := mem\<rparr>
              in rbind (batch_deref (nw_store st1) (nw_batch st1)) (\<lambda>b.
                   rbind (batch_pool b) (\<lambda>p.
                     if rw_length p < BATCH_NUM_REQUESTS c then
                       rbind (store_insert_read_write c mem (nw_batch st1) buf (cr_client_sock_fd r) t (nw_store st1)) (\<lambda>bs.
                         Inr (st1\<lparr>nw_store := bs\<rparr>))
                     else
                       rbind (prep (Prep_msg_main_ring (Batch (nw_batch st1))) st1) (\<lambda>st2.
                         let (a, bs) = batch_new READ (nw_store st2)
                         in Inr (st2\<lparr>nw_batch := a, nw_store := bs\<rparr>)))))))"

text \<open>\<open>++pool.num_sent\<close>, and the deletion of a batch that has been sent completely.\<close>

definition bump_num_sent :: "nat \<Rightarrow> network_state \<Rightarrow> network_state res" where
  "bump_num_sent a st =
     rbind (batch_deref (nw_store st) a) (\<lambda>b.
       rbind (batch_pool b) (\<lambda>p.
         Inr (st\<lparr>nw_store := batch_put a (b\<lparr>rb_content := Pool (p\<lparr>rw_num_sent := rw_num_sent p + 1\<rparr>)\<rparr>) (nw_store st)\<rparr>)))"

definition delete_if_sent :: "nat \<Rightarrow> network_state \<Rightarrow> network_state res" where
  "delete_if_sent a st =
     rbind (batch_deref (nw_store st) a) (\<lambda>b.
       rbind (batch_pool b) (\<lambda>p.
         if rw_num_sent p = rw_length p
         then rbind (delete_request_batch b) (\<lambda>_. Inr (st\<lparr>nw_store := (nw_store st)[a - 1 := None]\<rparr>))
         else Inr st))"

definition handle_send :: "config \<Rightarrow> user_data \<Rightarrow> network_state \<Rightarrow> network_state res" where
  "handle_send c u st =
     rbind (as_connection st u) (\<lambda>r.
       case cr_req_batch_ref r of
         None \<Rightarrow> Inl Indeterminate
       | Some a \<Rightarrow>
           rbind (prep (Prep_close_direct (cr_client_sock_fd r)) st) (\<lambda>st1.
             rbind (bump_num_sent a st1) (delete_if_sent a)))"

text \<open>One entry of a completed batch: send the answer, or count it if its client is gone.\<close>

definition answer_entry :: "config \<Rightarrow> nat \<Rightarrow> bool \<Rightarrow> nat \<Rightarrow> network_state \<Rightarrow> network_state res" where
  "answer_entry c a is_last k st =
     rbind (entry_of st a k) (\<lambda>r.
       if cr_client_sock_fd r \<noteq> -1 then
         rbind (prep (Prep_send_zc (cr_client_sock_fd r) (cr_buffer r) (SOCKET_BUFFER_LENGTH c) (Batch_entry a k)) st) (\<lambda>st1.
           Inr (if is_last then st1 else get_sqe st1))
       else bump_num_sent a st)"

text \<open>\<open>n\<close> entries before the last one, from \<open>k\<close> on.\<close>

fun answer_entries :: "config \<Rightarrow> nat \<Rightarrow> nat \<Rightarrow> nat \<Rightarrow> network_state \<Rightarrow> network_state res" where
  "answer_entries c a 0 k st = answer_entry c a True k st"
| "answer_entries c a (Suc n) k st =
     rbind (answer_entry c a False k st) (answer_entries c a n (Suc k))"

text \<open>
  A completed batch. \<open>length - 1\<close> is computed on \<open>unsigned int\<close>; a pointer to a request is
  taken for a pointer to a batch.
\<close>

definition handle_batch :: "config \<Rightarrow> user_data \<Rightarrow> network_state \<Rightarrow> network_state res" where
  "handle_batch c u st =
     (case u of
        Batch a \<Rightarrow>
          rbind (batch_deref (nw_store st) a) (\<lambda>b.
            rbind (batch_pool b) (\<lambda>p.
              rbind (answer_entries c a (unat (of_nat (rw_length p) - 1 :: uint)) 0 st) (delete_if_sent a)))
      | _ \<Rightarrow> Inl WildPointer)"

definition handle_cqe :: "config \<Rightarrow> int \<Rightarrow> bool \<Rightarrow> user_data \<Rightarrow> network_state \<Rightarrow> network_state res" where
  "handle_cqe c cqe_res flag_more u st =
     rbind (base_req_type st u) (\<lambda>req_type.
       if req_type = ACCEPT then handle_accept c cqe_res flag_more st
       else if req_type = RECV then handle_recv c u st
       else if req_type = SEND \<and> \<not> flag_more then handle_send c u st
       else if req_type = READ \<or> req_type = WRITE then handle_batch c u st
       else Inr st)"

text \<open>One round of the loop: a new entry, then every completion in turn.\<close>

definition network_round :: "config \<Rightarrow> (int \<times> bool \<times> user_data) list \<Rightarrow> network_state \<Rightarrow> network_state res" where
  "network_round c cqes st = rfold (\<lambda>(r, flag_more, u). handle_cqe c r flag_more u) cqes (get_sqe st)"

section \<open>Answering a batch\<close>

lemma batch_put_deref:
  "batch_deref bs a = Inr b \<Longrightarrow> batch_deref (batch_put a b' bs) a = Inr b'"
  by (auto simp: batch_deref_def batch_put_def split: if_splits option.splits)

lemma batch_put_put [simp]: "batch_put a b (batch_put a b' bs) = batch_put a b bs"
  by (simp add: batch_put_def)

lemma batch_put_same: "batch_deref bs a = Inr b \<Longrightarrow> batch_put a b bs = bs"
  by (auto simp: batch_deref_def batch_put_def list_update_same_conv split: if_splits option.splits)

text \<open>The send requests for the entries \<open>es\<close>, which are entries \<open>k\<close>, \<open>k + 1\<close>, ... of batch \<open>a\<close>.\<close>

fun sends :: "config \<Rightarrow> nat \<Rightarrow> nat \<Rightarrow> conn_req list \<Rightarrow> sqe list" where
  "sends c a k [] = []"
| "sends c a k (e # es) =
     (if cr_client_sock_fd e \<noteq> -1
      then [Prep_send_zc (cr_client_sock_fd e) (cr_buffer e) (SOCKET_BUFFER_LENGTH c) (Batch_entry a k)] else []) @
     sends c a (Suc k) es"

definition gone :: "conn_req list \<Rightarrow> nat" where
  "gone es = length (filter (\<lambda>e. cr_client_sock_fd e = -1) es)"

definition add_sent :: "nat \<Rightarrow> readwrite_pool \<Rightarrow> readwrite_pool" where
  "add_sent n p = p\<lparr>rw_num_sent := rw_num_sent p + n\<rparr>"

lemma add_sent_simps [simp]:
  "rw_data (add_sent n p) = rw_data p" "rw_length (add_sent n p) = rw_length p"
  "rw_num_sent (add_sent n p) = rw_num_sent p + n" "add_sent 0 p = p" "add_sent n (add_sent m p) = add_sent (m + n) p"
  by (simp_all add: add_sent_def)

lemma answer_entry_ok:
  assumes "batch_deref (nw_store st) a = Inr b" "rb_content b = Pool p" "cell (rw_data p) k = Inr e"
    and "nw_ring st = rs @ [None]" "nw_sqe st = length rs"
  shows "answer_entry c a is_last k st = Inr (st\<lparr>
    nw_store := batch_put a (b\<lparr>rb_content := Pool (add_sent (gone [e]) p)\<rparr>) (nw_store st),
    nw_ring := rs @ map Some (sends c a k [e]) @ (if is_last \<and> cr_client_sock_fd e \<noteq> -1 then [] else [None]),
    nw_sqe := (if is_last then length rs else length rs + length (sends c a k [e]))\<rparr>)"
proof (cases "cr_client_sock_fd e = -1")
  case True
  then show ?thesis using assms
    by (simp add: answer_entry_def entry_of_def batch_pool_def bump_num_sent_def gone_def add_sent_def)
next
  case False
  have "batch_put a (b\<lparr>rb_content := Pool p\<rparr>) (nw_store st) = nw_store st"
    using batch_put_same [OF assms(1)] assms(2) by (cases b) simp
  then show ?thesis using False assms
    by (simp add: answer_entry_def entry_of_def batch_pool_def prep_def get_sqe_def gone_def)
qed

lemma answer_entries_ok:
  assumes "batch_deref (nw_store st) a = Inr b" "rb_content b = Pool p"
    and "\<forall>j < length es. cell (rw_data p) (k + j) = Inr (es ! j)" "length es = Suc n"
    and "nw_ring st = rs @ [None]" "nw_sqe st = length rs"
  shows "\<exists>tail s. answer_entries c a n k st = Inr (st\<lparr>
      nw_store := batch_put a (b\<lparr>rb_content := Pool (add_sent (gone es) p)\<rparr>) (nw_store st),
      nw_ring := rs @ map Some (sends c a k es) @ tail, nw_sqe := s\<rparr>) \<and> tail \<in> {[], [None]}"
  using assms
proof (induction n arbitrary: k es st rs b p)
  case 0
  then obtain e where es: "es = [e]" by (cases es) auto
  with 0 have "cell (rw_data p) k = Inr e" by simp
  from answer_entry_ok [OF 0(1,2) this 0(5,6), of c True] show ?case
    unfolding answer_entries.simps es by auto
next
  case (Suc n)
  then obtain e es' where es: "es = e # es'" by (cases es) auto
  with Suc.prems(3) have e: "cell (rw_data p) k = Inr e" by force
  let ?b = "b\<lparr>rb_content := Pool (add_sent (gone [e]) p)\<rparr>"
  let ?rs = "rs @ map Some (sends c a k [e])"
  let ?st = "st\<lparr>nw_store := batch_put a ?b (nw_store st), nw_ring := ?rs @ [None], nw_sqe := length ?rs\<rparr>"
  have run: "answer_entry c a False k st = Inr ?st"
    using answer_entry_ok [OF Suc.prems(1,2) e Suc.prems(5,6), of c False] by simp
  have "cell (rw_data (add_sent (gone [e]) p)) (Suc k + j) = Inr (es' ! j)" if "j < length es'" for j
    using Suc.prems(3) [rule_format, of "Suc j"] that by (simp add: es)
  then obtain tail s where ts: "tail \<in> {[], [None]}"
      "answer_entries c a n (Suc k) ?st = Inr (?st\<lparr>
        nw_store := batch_put a (?b\<lparr>rb_content := Pool (add_sent (gone es') (add_sent (gone [e]) p))\<rparr>) (nw_store ?st),
        nw_ring := ?rs @ map Some (sends c a (Suc k) es') @ tail, nw_sqe := s\<rparr>)"
    using Suc.IH [of ?st ?b "add_sent (gone [e]) p" es' "Suc k" ?rs] Suc.prems(4)
      batch_put_deref [OF Suc.prems(1)] by (auto simp: es)
  have "gone [e] + gone es' = gone es" by (simp add: es gone_def)
  then have "answer_entries c a (Suc n) k st = Inr (st\<lparr>
      nw_store := batch_put a (b\<lparr>rb_content := Pool (add_sent (gone es) p)\<rparr>) (nw_store st),
      nw_ring := rs @ map Some (sends c a k es) @ tail, nw_sqe := s\<rparr>)"
    using run ts(2) by (simp add: es)
  with ts(1) show ?case by blast
qed

lemma rw_cells:
  assumes "None \<notin> set (take (rw_length p) (rw_data p))" "rw_length p \<le> length (rw_data p)" "i < rw_length p"
  shows "cell (rw_data p) i = Inr (rw_entries p ! i)"
proof -
  have "rw_data p ! i \<in> set (take (rw_length p) (rw_data p))"
    using assms(2,3) by (auto simp: in_set_conv_nth intro!: exI [of _ i])
  then obtain r where "rw_data p ! i = Some r" using assms(1) by (metis not_None_eq)
  then show ?thesis using assms(2,3) by (simp add: rw_entries_def)
qed

lemma handle_batch_ok:
  assumes "batch_deref (nw_store st) a = Inr b" "rb_content b = Pool p" "rb_req_type b = READ \<or> rb_req_type b = WRITE"
    and "None \<notin> set (take (rw_length p) (rw_data p))" "rw_length p \<le> length (rw_data p)"
    and "0 < rw_length p" "rw_length p < 2 ^ 32" "nw_ring st = rs @ [None]" "nw_sqe st = length rs"
  shows "\<exists>st' tail. handle_cqe c res flag_more (Batch a) st = Inr st' \<and>
    nw_ring st' = rs @ map Some (sends c a 0 (rw_entries p)) @ tail \<and> tail \<in> {[], [None]} \<and>
    nw_store st' =
      (if rw_num_sent p + gone (rw_entries p) = rw_length p then (nw_store st)[a - 1 := None]
       else batch_put a (b\<lparr>rb_content := Pool (add_sent (gone (rw_entries p)) p)\<rparr>) (nw_store st))"
proof -
  let ?es = "rw_entries p" and ?L = "rw_length p"
  let ?b = "b\<lparr>rb_content := Pool (add_sent (gone ?es) p)\<rparr>"
  have len: "length ?es = ?L" using assms(5) by (simp add: rw_entries_def)
  have pool: "batch_pool b = Inr p" by (simp add: batch_pool_def assms(2))
  have cells: "\<forall>j < length ?es. cell (rw_data p) (0 + j) = Inr (?es ! j)"
    using rw_cells [OF assms(4,5)] len by simp
  have "(of_nat ?L - 1 :: uint) = of_nat (?L - 1)" using assms(6) by (simp add: of_nat_diff)
  then have n: "unat (of_nat ?L - 1 :: uint) = ?L - 1"
    using assms(7) by (simp add: unat_of_nat)
  from answer_entries_ok [OF assms(1,2) cells _ assms(8,9), of "?L - 1" c] len assms(6) obtain tail s where
      run: "answer_entries c a (?L - 1) 0 st = Inr (st\<lparr>nw_store := batch_put a ?b (nw_store st),
        nw_ring := rs @ map Some (sends c a 0 ?es) @ tail, nw_sqe := s\<rparr>)" "tail \<in> {[], [None]}"
    by auto
  have del: "delete_request_batch ?b = Inr ()"
    using assms(3) by (auto simp: delete_request_batch_def batch_pool_def)
  have put: "batch_deref (batch_put a ?b (nw_store st)) a = Inr ?b" using assms(1) by (rule batch_put_deref)
  have "handle_cqe c res flag_more (Batch a) st =
      rbind (answer_entries c a (?L - 1) 0 st) (delete_if_sent a)"
    using assms(1,3) by (auto simp: handle_cqe_def base_req_type_def handle_batch_def pool n)
  then show ?thesis
    using run put del by (simp add: delete_if_sent_def batch_pool_def batch_put_def)
qed


definition sample_network :: network_state where
  "sample_network = \<lparr>nw_mem = sample_mem, nw_connection_pool = new_connection_pool 4 0,
     nw_store = sample_store, nw_batch = 1, nw_ring = [None], nw_sqe = 0\<rparr>"


section \<open>Receiving requests\<close>

lemma handle_recv_ok:
  assumes "as_connection st u = Inr r" "base_req_type st u = Inr RECV"
    and "batch_deref (nw_store st) (nw_batch st) = Inr b" "batch_pool b = Inr p"
    and "cr_buffer r + SOCKET_BUFFER_LENGTH c \<le> length (nw_mem st)" "rw_length p < BATCH_NUM_REQUESTS c"
    and "mem' = blit (nw_mem st) (cr_buffer r + 5 + KEY_LENGTH c) (replicate (VALUE_LENGTH c - (5 + KEY_LENGTH c)) 0)"
    and "batch_invar c mem' (nw_batch st) b"
  shows "if VALUE_LENGTH c < 5 + KEY_LENGTH c
    then handle_cqe c res flag_more u st = Inl BadRange
    else \<exists>b' p'. handle_cqe c res flag_more u st =
        Inr (st\<lparr>nw_mem := mem', nw_store := batch_put (nw_batch st) b' (nw_store st)\<rparr>) \<and>
      batch_invar c mem' (nw_batch st) b' \<and> batch_pool b' = Inr p' \<and>
      mset (rw_entries p') = add_mset
        \<lparr>cr_req_type = (if block (nw_mem st) (cr_buffer r) 5 = read_tag then READ else WRITE),
         cr_req_batch_ref = Some (nw_batch st), cr_client_sock_fd = cr_client_sock_fd r, cr_buffer = cr_buffer r\<rparr>
        (mset (rw_entries p))"
proof (cases "VALUE_LENGTH c < 5 + KEY_LENGTH c")
  case True
  then have "handle_cqe c res flag_more u st = Inl BadRange"
    using assms(1,2) by (simp add: handle_cqe_def handle_recv_def rfill_def Let_def)
  then show ?thesis using True by simp
next
  case False
  let ?buf = "cr_buffer r" and ?t = "if block (nw_mem st) (cr_buffer r) 5 = read_tag then READ else WRITE"
  have len: "?buf + 5 + KEY_LENGTH c + VALUE_LENGTH c \<le> length (nw_mem st)"
    using assms(5) by (simp add: SOCKET_BUFFER_LENGTH_def)
  then have "rfill (nw_mem st) (?buf + 5 + KEY_LENGTH c) (?buf + VALUE_LENGTH c) 0 = Inr mem'"
    using False unfolding assms(7) by (simp add: rfill_def)
  moreover have lm: "length mem' = length (nw_mem st)" using len False by (simp add: assms(7))
  moreover have tag: "block mem' ?buf 5 = block (nw_mem st) ?buf 5"
    using len False unfolding assms(7) by (intro block_blit_disjoint) simp_all
  moreover have "memcmp (block (nw_mem st) ?buf 5) read_tag = 0 \<longleftrightarrow> block (nw_mem st) ?buf 5 = read_tag"
    using len by (intro memcmp_eq) (simp add: read_tag_def)
  ultimately have run: "handle_cqe c res flag_more u st =
      rbind (store_insert_read_write c mem' (nw_batch st) ?buf (cr_client_sock_fd r) ?t (nw_store st)) (\<lambda>bs.
        Inr (st\<lparr>nw_mem := mem', nw_store := bs\<rparr>))"
    using assms(1-4,6) len by (simp add: handle_cqe_def handle_recv_def Let_def)
  have "has_key c mem' ?buf" using len lm by (simp add: has_key_def)
  moreover have "rw_length p < PAGE_SIZE c"
    using less_le_trans [OF assms(6) [unfolded BATCH_NUM_REQUESTS_def] div_le_dividend] .
  ultimately obtain b' p' where
      b': "batch_insert_read_write c mem' (nw_batch st) ?buf (cr_client_sock_fd r) ?t b = Inr b'"
        "batch_invar c mem' (nw_batch st) b'" "batch_pool b' = Inr p'"
        "mset (rw_entries p') = add_mset \<lparr>cr_req_type = ?t, cr_req_batch_ref = Some (nw_batch st),
          cr_client_sock_fd = cr_client_sock_fd r, cr_buffer = ?buf\<rparr> (mset (rw_entries p))"
    using batch_insert_sorted [OF assms(8) _ assms(4), of ?buf "cr_client_sock_fd r" ?t] by blast
  then have "handle_cqe c res flag_more u st =
      Inr (st\<lparr>nw_mem := mem', nw_store := batch_put (nw_batch st) b' (nw_store st)\<rparr>)"
    unfolding run using assms(3) by (simp add: store_insert_read_write_def)
  then show ?thesis using False b'(2-4) by auto
qed


text \<open>A configuration with long values, and a client that has sent a read of key 9.\<close>

definition long_config :: config where
  "long_config = cmake_config\<lparr>VALUE_LENGTH := 8, PAGE_SIZE := 64\<rparr>"

definition recv_network :: network_state where
  "recv_network = \<lparr>nw_mem = read_tag @ [9, 1, 2, 3, 4, 5, 6, 7, 8],
     nw_connection_pool = \<lparr>cp_connections = [Some \<lparr>cr_req_type = RECV, cr_req_batch_ref = None,
       cr_client_sock_fd = 1, cr_buffer = 0\<rparr>], cp_buffer_pool = 0\<rparr>,
     nw_store = [Some \<lparr>rb_req_type = READ, rb_content = Pool new_readwrite_pool\<rparr>], nw_batch = 1,
     nw_ring = [None], nw_sqe = 0\<rparr>"


section \<open>Connections\<close>

lemma cp_insert_ok:
  assumes "0 < fd" "fd \<le> int (length (cp_connections pool))"
  shows "\<exists>pool' r. cp_insert fd t pool = Inr (pool', nat (fd - 1)) \<and>
    cell (cp_connections pool') (nat (fd - 1)) = Inr r \<and> cr_buffer r = cp_buffer_pool pool + nat (fd - 1) \<and>
    length (cp_connections pool') = length (cp_connections pool) \<and> cp_buffer_pool pool' = cp_buffer_pool pool"
proof -
  have "nat (fd - 1) < length (cp_connections pool)" using assms by linarith
  then show ?thesis using assms(1) by (simp add: cp_insert_def Let_def)
qed

lemma handle_accept_ok:
  assumes "0 < fd" "fd \<le> int (length (cp_connections (nw_connection_pool st)))" "nw_sqe st < length (nw_ring st)"
  shows "\<exists>pool. handle_cqe c fd True Accept_batch st = Inr (st\<lparr>nw_connection_pool := pool,
      nw_ring := (nw_ring st)[nw_sqe st := Some (Prep_recv fd
        (cp_buffer_pool (nw_connection_pool st) + nat (fd - 1)) (SOCKET_BUFFER_LENGTH c) Not_a_pointer)]\<rparr>) \<and>
    length (cp_connections pool) = length (cp_connections (nw_connection_pool st)) \<and>
    cp_buffer_pool pool = cp_buffer_pool (nw_connection_pool st)"
proof -
  from cp_insert_ok [OF assms(1,2), of RECV] obtain pool r where
      "cp_insert fd RECV (nw_connection_pool st) = Inr (pool, nat (fd - 1))"
      "cell (cp_connections pool) (nat (fd - 1)) = Inr r"
      "cr_buffer r = cp_buffer_pool (nw_connection_pool st) + nat (fd - 1)"
      "length (cp_connections pool) = length (cp_connections (nw_connection_pool st))"
      "cp_buffer_pool pool = cp_buffer_pool (nw_connection_pool st)" by blast
  then show ?thesis
    using assms by (auto simp: handle_cqe_def base_req_type_def handle_accept_def prep_def)
qed

text \<open>
  Accepting a connection prepares a receive request whose user data is not a pointer to the
  connection, and whoever handles a completion with that user data follows a wild pointer. When two
  connections are accepted in one round, both use the same submission entry, so the receive request
  of the first is overwritten and its client is never heard.
\<close>

lemma accept_loses_connections:
  assumes "0 < fd1" "0 < fd2" "nw_connection_pool st = pool"
    and "fd1 \<le> int (length (cp_connections pool))" "fd2 \<le> int (length (cp_connections pool))"
  shows "\<exists>st'. network_round c [(fd1, True, Accept_batch), (fd2, True, Accept_batch)] st = Inr st' \<and>
    nw_ring st' = nw_ring st @ [Some (Prep_recv fd2 (cp_buffer_pool pool + nat (fd2 - 1))
      (SOCKET_BUFFER_LENGTH c) Not_a_pointer)] \<and>
    (\<forall>res flag_more s. handle_cqe c res flag_more Not_a_pointer s = Inl WildPointer)"
proof -
  let ?st = "get_sqe st"
  have st: "nw_connection_pool ?st = pool" "nw_sqe ?st < length (nw_ring ?st)"
      "nw_sqe ?st = length (nw_ring st)" "nw_ring ?st = nw_ring st @ [None]"
    using assms(3) by (simp_all add: get_sqe_def)
  from handle_accept_ok [OF assms(1), of ?st c] st assms(4) obtain pool1 st1 where
      1: "handle_cqe c fd1 True Accept_batch ?st = Inr st1" "nw_connection_pool st1 = pool1"
        "length (cp_connections pool1) = length (cp_connections pool)" "cp_buffer_pool pool1 = cp_buffer_pool pool"
        "nw_sqe st1 = length (nw_ring st)" "\<exists>x. nw_ring st1 = nw_ring st @ [x]" by auto
  from handle_accept_ok [OF assms(2), of st1 c] 1 assms(5) obtain st2 where
      2: "handle_cqe c fd2 True Accept_batch st1 = Inr st2"
        "nw_ring st2 = nw_ring st @ [Some (Prep_recv fd2 (cp_buffer_pool pool + nat (fd2 - 1))
          (SOCKET_BUFFER_LENGTH c) Not_a_pointer)]" by auto
  show ?thesis
    using 1(1) 2 by (simp add: network_round_def handle_cqe_def [of c _ _ Not_a_pointer] base_req_type_def)
qed

lemma accept_loses_connections_example:
  "\<exists>st'. network_round cmake_config [(1, True, Accept_batch), (2, True, Accept_batch)] sample_network = Inr st' \<and>
     nw_ring st' = [None, Some (Prep_recv 2 1 8 Not_a_pointer)]"
  using accept_loses_connections [of 1 2 sample_network "new_connection_pool 4 0" cmake_config]
  by (auto simp: sample_network_def new_connection_pool_def SOCKET_BUFFER_LENGTH_def)

text \<open>
  The completion of a send is never handled as one: the request it points to has the type
  \<open>READ\<close> or \<open>WRITE\<close> it was received with, so it is taken for a completed batch. Hence the branch
  that closes connections and releases batches is not reached from the requests of a batch.
\<close>

lemma send_completion_taken_for_batch:
  assumes "entry_of st a k = Inr r" "cr_req_type r = READ \<or> cr_req_type r = WRITE"
  shows "handle_cqe c res flag_more (Batch_entry a k) st = Inl WildPointer"
  using assms by (auto simp: handle_cqe_def base_req_type_def handle_batch_def)

lemma send_completion_taken_for_batch_example:
  "handle_cqe cmake_config 8 False (Batch_entry 1 0) sample_network = Inl WildPointer"
proof -
  have "entry_of sample_network 1 0 = Inr (sample_req 2 6)" "cr_req_type (sample_req 2 6) = READ" by code_simp+
  then show ?thesis using send_completion_taken_for_batch [of sample_network 1 0 "sample_req 2 6"] by simp
qed

end
