(* ===== verification/Guards.thy ===== *)
theory Guards
  imports RingDB_Prelude
begin

text \<open>
  The atomic guards of \<open>LevelInfo\<close>, \<open>BufferQueue\<close> and \<open>RequestBatchWaitQueue\<close>, and the two ways
  \<^verbatim>\<open>lsm_tree.hpp\<close> uses them. A guard is an \<open>atomic_uchar\<close> constructed with 1. It is acquired by
  \<open>compare_exchange_weak(expected, 1)\<close>, where \<open>expected\<close> starts at 0 and is passed by reference,
  and released by storing 1. The blocking form repeats the exchange with the same variable; the
  non-blocking form tries it once with a fresh 0.
\<close>

section \<open>Compare and exchange\<close>

text \<open>
  \<open>compare_exchange_weak\<close>: (success, new value of the atomic, new value of \<open>expected\<close>). The weak
  form may fail for no reason (\<open>spurious\<close>); every failure loads the atomic into \<open>expected\<close>.
\<close>

definition cas_weak :: "bool \<Rightarrow> byte \<Rightarrow> byte \<Rightarrow> byte \<Rightarrow> bool \<times> byte \<times> byte" where
  "cas_weak spurious atomic expected desired =
     (if atomic = expected \<and> \<not> spurious then (True, desired, expected) else (False, atomic, atomic))"

section \<open>Threads around one guard\<close>

datatype phase =
    Outside
  | Spinning byte   \<comment> \<open>in the acquire loop, with the current value of \<open>my_zero\<close>\<close>
  | Inside          \<comment> \<open>in the critical section\<close>

record guarded =
  gd_guard :: byte
  gd_phase :: "nat \<Rightarrow> phase"

definition guard_init :: guarded where
  "guard_init = \<lparr>gd_guard = 1, gd_phase = (\<lambda>_. Outside)\<rparr>"

text \<open>One iteration of \<open>while (!guard.compare_exchange_weak(my_zero, 1));\<close>.\<close>

definition spin_once :: "bool \<Rightarrow> nat \<Rightarrow> byte \<Rightarrow> guarded \<Rightarrow> guarded" where
  "spin_once spurious t my_zero s =
     (let (ok, g, my_zero') = cas_weak spurious (gd_guard s) my_zero 1
      in s\<lparr>gd_guard := g, gd_phase := (gd_phase s)(t := if ok then Inside else Spinning my_zero')\<rparr>)"

text \<open>\<open>if (guard.compare_exchange_weak(local_zero, 1)) ...\<close> with \<open>local_zero\<close> 0.\<close>

definition try_once :: "bool \<Rightarrow> nat \<Rightarrow> guarded \<Rightarrow> guarded" where
  "try_once spurious t s =
     (let (ok, g, _) = cas_weak spurious (gd_guard s) 0 1
      in s\<lparr>gd_guard := g, gd_phase := (gd_phase s)(t := if ok then Inside else Outside)\<rparr>)"

inductive guard_step :: "guarded \<Rightarrow> guarded \<Rightarrow> bool" where
  arrive: "gd_phase s t = Outside \<Longrightarrow>
     guard_step s (s\<lparr>gd_phase := (gd_phase s)(t := Spinning 0)\<rparr>)"
| spin: "gd_phase s t = Spinning my_zero \<Longrightarrow> guard_step s (spin_once spurious t my_zero s)"
| try_acquire: "gd_phase s t = Outside \<Longrightarrow> guard_step s (try_once spurious t s)"
| leave: "gd_phase s t = Inside \<Longrightarrow>
     guard_step s (s\<lparr>gd_guard := 1, gd_phase := (gd_phase s)(t := Outside)\<rparr>)"

inductive guard_reachable :: "guarded \<Rightarrow> bool" where
  init: "guard_reachable guard_init"
| step: "guard_reachable s \<Longrightarrow> guard_step s s' \<Longrightarrow> guard_reachable s'"

inductive_cases guard_stepE: "guard_step s s'"

lemmas guard_ops = spin_once_def try_once_def cas_weak_def guard_init_def

section \<open>What the guards do\<close>

lemma guard_step_one: "guard_step s s' \<Longrightarrow> gd_guard s = 1 \<Longrightarrow> gd_guard s' = 1"
  by (erule guard_stepE) (auto simp: guard_ops)

lemma guard_reachable_one: "guard_reachable s \<Longrightarrow> gd_guard s = 1"
  by (induction rule: guard_reachable.induct) (auto simp: guard_init_def dest: guard_step_one)

text \<open>
  In every reachable state the guard holds 1. So the non-blocking acquisition, which expects 0,
  always fails, and leaves the state as it was.
\<close>

lemma try_guard_never_acquired:
  assumes "guard_reachable s" "gd_phase s t = Outside"
  shows "gd_guard s = 1 \<and> try_once spurious t s = s"
  using guard_reachable_one [OF assms(1)] assms(2) by (simp add: guard_ops fun_upd_idem)

lemma try_guard_never_acquired_example:
  "gd_guard guard_init = 1 \<and> try_once False 4 guard_init = guard_init"
proof (rule try_guard_never_acquired)
  show "gd_phase guard_init 4 = Outside" by (simp add: guard_init_def)
qed (rule guard_reachable.init)


lemma spinning_reachable:
  "guard_reachable s \<Longrightarrow> gd_phase s t = Outside \<Longrightarrow>
   guard_reachable (s\<lparr>gd_phase := (gd_phase s)(t := Spinning 0)\<rparr>)"
  by (blast intro: guard_reachable.step guard_step.arrive)


lemma reachable_steps: "guard_reachable s \<Longrightarrow> (guard_step ^^ n) s s' \<Longrightarrow> guard_reachable s'"
  by (induction n arbitrary: s') (auto intro: guard_reachable.step)

lemma enter_reachable:
  assumes "guard_reachable s" "gd_phase s t = Outside"
  shows "\<exists>s'. guard_reachable s' \<and> gd_phase s' t = Inside \<and> (\<forall>u. u \<noteq> t \<longrightarrow> gd_phase s' u = gd_phase s u)"
proof -
  let ?s = "s\<lparr>gd_phase := (gd_phase s)(t := Spinning 0)\<rparr>"
  have r: "guard_reachable ?s" using assms by (rule spinning_reachable)
  have g: "gd_guard s = 1" using assms(1) by (rule guard_reachable_one)
  define s1 where "s1 = spin_once False t 0 ?s"
  have ph1: "gd_phase s1 = (gd_phase s)(t := Spinning 1)" "gd_guard s1 = 1"
    using g by (simp_all add: s1_def guard_ops)
  have "guard_step ?s s1" unfolding s1_def by (rule guard_step.spin) simp
  with r have r1: "guard_reachable s1" by (rule guard_reachable.step)
  have "guard_step s1 (spin_once False t 1 s1)" by (rule guard_step.spin) (simp add: ph1)
  with r1 have "guard_reachable (spin_once False t 1 s1)" by (rule guard_reachable.step)
  moreover have "gd_phase (spin_once False t 1 s1) = (gd_phase s)(t := Inside)"
    using ph1 by (simp add: spin_once_def cas_weak_def)
  ultimately show ?thesis by (intro exI [of _ "spin_once False t 1 s1"]) simp
qed

text \<open>
  C34. The guards give no mutual exclusion: any number of threads can be in the critical section of
  one guard at the same time.
\<close>

theorem guards_admit_all:
  "\<exists>s. guard_reachable s \<and> (\<forall>t < n. gd_phase s t = Inside)"
proof -
  have "\<exists>s. guard_reachable s \<and> (\<forall>t < n. gd_phase s t = Inside) \<and> (\<forall>t \<ge> n. gd_phase s t = Outside)"
  proof (induction n)
    case 0
    have "guard_reachable guard_init" by (rule guard_reachable.init)
    then show ?case by (intro exI [of _ guard_init]) (simp add: guard_init_def)
  next
    case (Suc n)
    then obtain s where s: "guard_reachable s" "\<forall>t < n. gd_phase s t = Inside"
        "\<forall>t \<ge> n. gd_phase s t = Outside" by blast
    with enter_reachable [of s n] obtain s' where "guard_reachable s'" "gd_phase s' n = Inside"
        "\<forall>u. u \<noteq> n \<longrightarrow> gd_phase s' u = gd_phase s u" by auto
    with s show ?case by (intro exI [of _ s']) (auto simp: less_Suc_eq)
  qed
  then show ?thesis by blast
qed

theorem guards_admit_all_witness:
  "\<exists>s. guard_reachable s \<and> gd_phase s 0 = Inside \<and> gd_phase s 1 = Inside"
  using guards_admit_all [of 2] by auto

end
