(* ===== verification/Buffer_Exchange.thy ===== *)
theory Buffer_Exchange
  imports Level_Info Guards
begin

text \<open>
  How SSTables exchange page-cache buffers in \<^verbatim>\<open>lsm_tree.hpp\<close>:
  \<open>try_add_buffers_nonblockingly\<close>, which takes the buffers waiting in an SSTable's queue into its
  stock, and the idle branch of \<open>sstable_worker_thread\<close>, which passes buffers to the SSTable of the
  level above, first those that are new and then from the stock. A guard that is acquired in a loop
  is 1 afterwards, as in all reachable states of \<open>Guards\<close>.
\<close>

section \<open>Taking in new buffers\<close>

text \<open>
  \<open>while (buffer_queue.front())\<close>: the loop looks at the slot in front, whatever the number of new
  buffers, and stores every buffer at the same index. \<open>None\<close> is a loop that never ends.
\<close>

partial_function (option) drain_loop ::
    "sstable_info \<Rightarrow> buffer_queue \<Rightarrow> (sstable_info \<times> buffer_queue) res option" where
  "drain_loop s q =
     (case bq_front q of
        Inl e \<Rightarrow> Some (Inl e)
      | Inr f \<Rightarrow>
          if f = 0 then Some (Inr (s, q))
          else case bq_pop_front q of
                 Inl e \<Rightarrow> Some (Inl e)
               | Inr (new_buffer, q') \<Rightarrow>
                   (case rupd (ss_page_cache_buffers s) (unat (ss_insert_buffers_from s)) (Some new_buffer) of
                      Inl e \<Rightarrow> Some (Inl e)
                    | Inr bufs \<Rightarrow>
                        drain_loop (s\<lparr>ss_page_cache_buffers := bufs,
                                      ss_cache_helper := add_buffer (ss_cache_helper s)\<rparr>) q'))"

definition try_add_buffers_nonblockingly ::
    "bool \<Rightarrow> sstable_info \<Rightarrow> buffer_queue \<Rightarrow> (sstable_info \<times> buffer_queue) res option" where
  "try_add_buffers_nonblockingly spurious s q =
     (if bq_is_single_thread q then drain_loop s q
      else let (ok, g, my_zero) = cas_weak spurious (bq_atomic_guard q) 0 1
           in if ok then map_option (map_sum id (\<lambda>(s', q'). (s', q'\<lparr>bq_atomic_guard := 1\<rparr>)))
                           (drain_loop s (q\<lparr>bq_atomic_guard := g\<rparr>))
              else Some (Inr (s, q)))"

section \<open>Passing buffers upstream\<close>

text \<open>\<open>guard.store(1)\<close> unless single-threaded.\<close>

definition release_guard :: "buffer_queue \<Rightarrow> buffer_queue" where
  "release_guard q = (if bq_is_single_thread q then q else q\<lparr>bq_atomic_guard := 1\<rparr>)"

text \<open>Collect at most the fair number of new buffers, then push them in the order of \<open>num_new_buffers--\<close>.\<close>

definition pass_new_buffers_up ::
    "config \<Rightarrow> buffer_queue \<Rightarrow> buffer_queue \<Rightarrow> (buffer_queue \<times> buffer_queue) res" where
  "pass_new_buffers_up c q prev =
     rbind (deq_n bq_pop_front (min (max_sstable_height c) (unat (bq_num_new_buffers q))) q) (\<lambda>(bufs, q').
       rbind (enq_list bq_push_back (rev bufs) prev) (\<lambda>prev'.
         Inr (release_guard q', release_guard prev')))"

text \<open>\<open>prev_buffer_queue->push_back(page_cache_buffers[--insert_buffers_from])\<close>, \<open>n\<close> times.\<close>

fun give_from_stock :: "nat \<Rightarrow> sstable_info \<Rightarrow> buffer_queue \<Rightarrow> (sstable_info \<times> buffer_queue) res" where
  "give_from_stock 0 s prev = Inr (s, prev)"
| "give_from_stock (Suc n) s prev =
     (let i = ss_insert_buffers_from s - 1
      in rbind (cell (ss_page_cache_buffers s) (unat i)) (\<lambda>b.
           rbind (bq_push_back b prev) (\<lambda>prev'.
             give_from_stock n (s\<lparr>ss_insert_buffers_from := i\<rparr>) prev')))"

definition to_give :: "config \<Rightarrow> buffer_queue \<Rightarrow> uint res" where
  "to_give c q =
     (if bq_cur_num_buffers q = 0 then Inr 0
      else if LEVEL_FACTOR c = 0 then Inl DivByZero
      else Inr (max (min (bq_cur_num_buffers q) (of_nat (max_sstable_height c)) div of_nat (LEVEL_FACTOR c)) 1))"

definition give_stock_up ::
    "config \<Rightarrow> sstable_info \<Rightarrow> buffer_queue \<Rightarrow> buffer_queue \<Rightarrow>
     (sstable_info \<times> buffer_queue \<times> buffer_queue) res" where
  "give_stock_up c s q prev =
     rbind (to_give c q) (\<lambda>n.
       if n = 0 then Inr (s, q, prev)
       else
         let q1 = release_guard (q\<lparr>bq_cur_num_buffers := bq_cur_num_buffers q - n\<rparr>);
             original_insert_from = ss_insert_buffers_from s
         in rbind (give_from_stock (unat n) s prev) (\<lambda>(s1, prev1).
              let id1 = ss_insert_buffers_from s1 + 1
              in rbind (remove_buffer_range id1 original_insert_from (ss_cache_helper s1)) (\<lambda>h.
                   Inr (s1\<lparr>ss_insert_buffers_from := id1, ss_cache_helper := h\<rparr>, q1, release_guard prev1))))"

text \<open>The whole idle branch of the worker, for an SSTable with no batch to work on.\<close>

definition worker_idle ::
    "config \<Rightarrow> bool \<Rightarrow> nat \<Rightarrow> sstable_info \<Rightarrow> buffer_queue \<Rightarrow> buffer_queue \<Rightarrow>
     (sstable_info \<times> buffer_queue \<times> buffer_queue) res" where
  "worker_idle c spurious level s q prev =
     (if \<not> ss_already_waited s then Inr (s\<lparr>ss_already_waited := True\<rparr>, q, prev)
      else
        let (ok, g, my_zero) = cas_weak spurious (bq_atomic_guard q) 0 1;
            q1 = (if 0 < level \<and> \<not> bq_is_single_thread q then q\<lparr>bq_atomic_guard := g\<rparr> else q)
        in if 0 < level \<and> \<not> bq_is_single_thread q \<and> \<not> ok then Inr (s, q1, prev)
           else if 0 < level \<and> bq_num_new_buffers q1 \<noteq> 0 then
             rbind (pass_new_buffers_up c q1 prev) (\<lambda>(q', prev'). Inr (s, q', prev'))
           else if 0 < level then give_stock_up c (s\<lparr>ss_already_waited := False\<rparr>) q1 prev
           else Inr (s, q1, prev))"

section \<open>What the drain loop does\<close>

text \<open>The slots of the ring, starting at the front.\<close>

definition bq_slots :: "buffer_queue \<Rightarrow> buf list" where
  "bq_slots q = map (\<lambda>i. bq_queue q ! ((unat (bq_queue_front q) + i) mod bq_len q)) [0 ..< bq_len q]"

definition ring_ok :: "buffer_queue \<Rightarrow> bool" where
  "ring_ok q \<longleftrightarrow> 0 < bq_len q \<and> bq_len q < 2 ^ 32 \<and> unat (bq_queue_front q) < bq_len q"

lemma ring_ok_pop:
  assumes "ring_ok q"
  obtains q' where "bq_pop_front q = Inr (bq_queue q ! unat (bq_queue_front q), q')" "ring_ok q'"
    and "bq_queue q' = bq_queue q" "unat (bq_queue_front q') = (unat (bq_queue_front q) + 1) mod bq_len q"
    and "bq_front q = Inr (bq_queue q ! unat (bq_queue_front q))"
proof -
  let ?q' = "q\<lparr>bq_cur_num_buffers := bq_cur_num_buffers q - 1, bq_num_new_buffers := bq_num_new_buffers q - 1,
      bq_queue_front := (bq_queue_front q + 1) mod of_nat (bq_len q)\<rparr>"
  have "unat ((bq_queue_front q + 1) mod of_nat (bq_len q)) = (unat (bq_queue_front q) + 1) mod bq_len q"
    using assms by (intro unat_ring_succ) (simp_all add: ring_ok_def)
  then show ?thesis
    using assms by (intro that [of ?q']) (auto simp: bq_pop_front_def bq_front_def ring_ok_def)
qed

lemma drain_loop_step:
  assumes "ring_ok q" "bq_queue q ! unat (bq_queue_front q) \<noteq> 0"
    and "unat (ss_insert_buffers_from s) < length (ss_page_cache_buffers s)"
    and "bq_pop_front q = Inr (b, q')"
  shows "drain_loop s q = drain_loop (s\<lparr>ss_page_cache_buffers := (ss_page_cache_buffers s)
      [unat (ss_insert_buffers_from s) := Some b], ss_cache_helper := add_buffer (ss_cache_helper s)\<rparr>) q'"
  by (rule ring_ok_pop [OF assms(1)], subst drain_loop.simps) (use assms in simp)

lemma drain_loop_diverges:
  assumes "ring_ok q" "0 \<notin> set (bq_queue q)"
    and "unat (ss_insert_buffers_from s) < length (ss_page_cache_buffers s)"
  shows "drain_loop s q = None"
proof (rule ccontr)
  let ?I = "\<lambda>s q. ring_ok q \<and> 0 \<notin> set (bq_queue q) \<and>
      unat (ss_insert_buffers_from s) < length (ss_page_cache_buffers s)"
  assume "drain_loop s q \<noteq> None"
  then obtain r where ret: "drain_loop s q = Some r" by blast
  have "?I s q \<longrightarrow> False"
  proof (rule drain_loop.raw_induct [where P = "\<lambda>s q r. ?I s q \<longrightarrow> False", OF _ ret], rule impI)
    fix f :: "sstable_info \<Rightarrow> buffer_queue \<Rightarrow> (sstable_info \<times> buffer_queue) res option" and s q r
    assume IH: "\<And>s q r. f s q = Some r \<Longrightarrow> ?I s q \<longrightarrow> False"
      and eq: "(case bq_front q of Inl e \<Rightarrow> Some (Inl e) | Inr fr \<Rightarrow>
          if fr = 0 then Some (Inr (s, q))
          else case bq_pop_front q of Inl e \<Rightarrow> Some (Inl e) | Inr (new_buffer, q') \<Rightarrow>
            (case rupd (ss_page_cache_buffers s) (unat (ss_insert_buffers_from s)) (Some new_buffer) of
               Inl e \<Rightarrow> Some (Inl e)
             | Inr bufs \<Rightarrow> f (s\<lparr>ss_page_cache_buffers := bufs,
                 ss_cache_helper := add_buffer (ss_cache_helper s)\<rparr>) q')) = Some r"
      and I: "?I s q"
    from I obtain q' where q': "bq_pop_front q = Inr (bq_queue q ! unat (bq_queue_front q), q')" "ring_ok q'"
        "bq_queue q' = bq_queue q" "bq_front q = Inr (bq_queue q ! unat (bq_queue_front q))"
      by (metis ring_ok_pop)
    have "bq_queue q ! unat (bq_queue_front q) \<noteq> 0"
      using I by (metis nth_mem ring_ok_def)
    with eq q' I IH show False by fastforce
  qed
  with assms show False by blast
qed

definition drained :: "buf list \<Rightarrow> sstable_info \<Rightarrow> sstable_info" where
  "drained bs s =
     (if bs = [] then s
      else s\<lparr>ss_page_cache_buffers := (ss_page_cache_buffers s)[unat (ss_insert_buffers_from s) := Some (last bs)],
             ss_cache_helper := (add_buffer ^^ length bs) (ss_cache_helper s)\<rparr>)"

lemma drain_loop_stops:
  assumes "ring_ok q" "unat (ss_insert_buffers_from s) < length (ss_page_cache_buffers s)"
    and "\<forall>i < n. bq_queue q ! ((unat (bq_queue_front q) + i) mod bq_len q) \<noteq> 0"
    and "bq_queue q ! ((unat (bq_queue_front q) + n) mod bq_len q) = 0"
  shows "\<exists>q'. drain_loop s q = Some (Inr (drained
      (map (\<lambda>i. bq_queue q ! ((unat (bq_queue_front q) + i) mod bq_len q)) [0 ..< n]) s, q')) \<and>
    bq_queue q' = bq_queue q \<and> unat (bq_queue_front q') = (unat (bq_queue_front q) + n) mod bq_len q"
  using assms
proof (induction n arbitrary: q s)
  case 0
  have "unat (bq_queue_front q) < bq_len q" using 0(1) by (simp add: ring_ok_def)
  with 0 show ?case
    by (subst drain_loop.simps) (simp add: bq_front_def drained_def)
next
  case (Suc n)
  let ?f = "unat (bq_queue_front q)" and ?L = "bq_len q" and ?b = "bq_queue q ! unat (bq_queue_front q)"
  have f: "?f < ?L" using Suc.prems(1) by (simp add: ring_ok_def)
  from Suc.prems(1) obtain q1 where q1: "bq_pop_front q = Inr (?b, q1)" "ring_ok q1" "bq_queue q1 = bq_queue q"
      "unat (bq_queue_front q1) = (?f + 1) mod ?L"
    by (rule ring_ok_pop)
  let ?s = "s\<lparr>ss_page_cache_buffers := (ss_page_cache_buffers s)[unat (ss_insert_buffers_from s) := Some ?b],
      ss_cache_helper := add_buffer (ss_cache_helper s)\<rparr>"
  have "?b \<noteq> 0" using Suc.prems(3) [rule_format, of 0] f by simp
  with q1 Suc.prems(1,2) have step: "drain_loop s q = drain_loop ?s q1" by (intro drain_loop_step)
  have shift: "(unat (bq_queue_front q1) + i) mod ?L = (?f + Suc i) mod ?L" for i
    unfolding q1(4) by (simp add: mod_add_left_eq)
  have "\<exists>q'. drain_loop ?s q1 = Some (Inr (drained
      (map (\<lambda>i. bq_queue q1 ! ((unat (bq_queue_front q1) + i) mod bq_len q1)) [0 ..< n]) ?s, q')) \<and>
    bq_queue q' = bq_queue q1 \<and> unat (bq_queue_front q') = (unat (bq_queue_front q1) + n) mod bq_len q1"
    using q1(2,3) Suc.prems shift by (intro Suc.IH) (simp_all del: add_Suc_right)
  then obtain q' where q': "drain_loop ?s q1 = Some (Inr (drained
      (map (\<lambda>i. bq_queue q ! ((?f + Suc i) mod ?L)) [0 ..< n]) ?s, q'))"
      "bq_queue q' = bq_queue q" "unat (bq_queue_front q') = (?f + Suc n) mod ?L"
    unfolding q1(3) shift by blast
  have "map (\<lambda>i. bq_queue q ! ((?f + i) mod ?L)) [0 ..< Suc n] =
      ?b # map (\<lambda>i. bq_queue q ! ((?f + Suc i) mod ?L)) [0 ..< n]"
    using f by (simp add: upt_conv_Cons map_Suc_upt [symmetric] del: upt_Suc)
  moreover have "drained bs ?s = drained (?b # bs) s" for bs
    by (simp add: drained_def funpow_swap1)
  ultimately show ?case using q' step by simp
qed

text \<open>
  C36. \<open>try_add_buffers_nonblockingly\<close> on a single-threaded queue goes on until it meets a null slot
  of the ring, whether or not the slots on the way hold new buffers. All buffers it meets are stored
  at the same index, so only the last one is kept although each is counted as free. If no slot of
  the ring is null, it never ends.
\<close>

theorem try_add_buffers_result:
  assumes "ring_ok q" "unat (ss_insert_buffers_from s) < length (ss_page_cache_buffers s)" "bq_is_single_thread q"
  shows "if 0 \<in> set (bq_queue q)
    then \<exists>bs rest q'. bq_slots q = bs @ 0 # rest \<and> 0 \<notin> set bs \<and>
      try_add_buffers_nonblockingly spurious s q = Some (Inr (drained bs s, q')) \<and> bq_queue q' = bq_queue q
    else try_add_buffers_nonblockingly spurious s q = None"
proof (cases "0 \<in> set (bq_queue q)")
  case False
  then show ?thesis using drain_loop_diverges [OF assms(1) False assms(2)] assms(3)
    by (simp add: try_add_buffers_nonblockingly_def)
next
  case True
  let ?f = "unat (bq_queue_front q)" and ?L = "bq_len q"
  let ?slot = "\<lambda>i. bq_queue q ! ((?f + i) mod ?L)"
  have f: "?f < ?L" using assms(1) by (simp add: ring_ok_def)
  from True obtain j where j: "j < ?L" "bq_queue q ! j = 0" by (auto simp: in_set_conv_nth)
  define d where "d = (j + ?L - ?f) mod ?L"
  have "(?f + d) mod ?L = (?f + (j + ?L - ?f)) mod ?L" by (simp add: d_def mod_add_right_eq)
  also have "\<dots> = j" using f j(1) by simp
  finally have "?slot d = 0" using j(2) by simp
  moreover have "0 < ?L" using f by linarith
  then have "d < ?L" unfolding d_def by (rule mod_less_divisor)
  ultimately have d: "d < ?L" "?slot d = 0" by simp_all
  define n where "n = (LEAST n. ?slot n = 0)"
  have "?slot n = 0" unfolding n_def using d(2) by (rule LeastI)
  moreover have "\<forall>i < n. ?slot i \<noteq> 0" unfolding n_def using not_less_Least by blast
  moreover have "n \<le> d" unfolding n_def using d(2) by (rule Least_le)
  ultimately have n: "?slot n = 0" "\<forall>i < n. ?slot i \<noteq> 0" "n \<le> d" by simp_all
  have "[0 ..< ?L] = [0 ..< n] @ n # [Suc n ..< ?L]"
    using upt_add_eq_append [of 0 n "?L - n"] n(3) d(1) by (simp add: upt_conv_Cons)
  then have "bq_slots q = map ?slot ([0 ..< n] @ n # [Suc n ..< ?L])" by (simp only: bq_slots_def)
  then have "bq_slots q = map ?slot [0 ..< n] @ 0 # map ?slot [Suc n ..< ?L]" using n(1) by simp
  moreover have "0 \<notin> set (map ?slot [0 ..< n])" using n(2) by auto
  moreover have "\<exists>q'. try_add_buffers_nonblockingly spurious s q = Some (Inr (drained (map ?slot [0 ..< n]) s, q')) \<and>
      bq_queue q' = bq_queue q"
    using drain_loop_stops [OF assms(1,2) n(2,1)] assms(3) by (auto simp: try_add_buffers_nonblockingly_def)
  ultimately show ?thesis using True by auto
qed

definition sample_sstable :: sstable_info where
  "sample_sstable = (new_sstable_info sample_config (new_wait_queue 0 True) (\<lambda>_. 0) 0)\<lparr>
     ss_insert_buffers_from := 3, ss_page_cache_buffers := [Some 11, Some 12, Some 13, None],
     ss_cache_helper := sample_helper\<lparr>ch_id_of_most_recently_selected_buffer := 0\<rparr>\<rparr>"

theorem try_add_buffers_result_witness:
  "\<exists>q'. try_add_buffers_nonblockingly False sample_sstable (new_buffer_queue cmake_config [7, 8, 0] True) =
     Some (Inr (drained [7, 8] sample_sstable, q'))"
proof -
  let ?q = "new_buffer_queue cmake_config [7, 8, 0] True"
  have "ring_ok ?q" "bq_is_single_thread ?q" "0 \<in> set (bq_queue ?q)"
    by (simp_all add: ring_ok_def new_buffer_queue_def)
  moreover have "unat (ss_insert_buffers_from sample_sstable) < length (ss_page_cache_buffers sample_sstable)"
    by (simp add: sample_sstable_def)
  moreover have slots: "bq_slots ?q = [7, 8, 0]" by code_simp
  moreover have "bs = [7, 8]" if "[7, 8, 0] = bs @ 0 # rest" "0 \<notin> set bs" for bs rest :: "nat list"
    using that by (auto simp: Cons_eq_append_conv)
  ultimately show ?thesis using try_add_buffers_result [of ?q sample_sstable False] by fastforce
qed

section \<open>Passing buffers on\<close>

lemma release_guard_simps [simp]:
  "bq_contents (release_guard q) = bq_contents q" "bq_invar (release_guard q) = bq_invar q"
  "bq_num_new_buffers (release_guard q) = bq_num_new_buffers q"
  "bq_cur_num_buffers (release_guard q) = bq_cur_num_buffers q"
  by (simp_all add: release_guard_def bq_contents_def bq_invar_def)



lemma give_from_stock_ok:
  assumes "n \<le> unat (ss_insert_buffers_from s)" "length bs = unat (ss_insert_buffers_from s)"
    and "take (unat (ss_insert_buffers_from s)) (ss_page_cache_buffers s) = map Some bs"
    and "bq_invar prev" "bq_room prev n"
  shows "\<exists>prev'. give_from_stock n s prev =
      Inr (s\<lparr>ss_insert_buffers_from := ss_insert_buffers_from s - of_nat n\<rparr>, prev') \<and> bq_invar prev' \<and>
    bq_contents prev' = bq_contents prev @ rev (drop (unat (ss_insert_buffers_from s) - n) bs)"
  using assms
proof (induction n arbitrary: s bs prev)
  case 0
  then show ?case by simp
next
  case (Suc n)
  let ?k = "unat (ss_insert_buffers_from s)" and ?i = "ss_insert_buffers_from s - 1"
  let ?s = "s\<lparr>ss_insert_buffers_from := ?i\<rparr>"
  have "ss_insert_buffers_from s \<noteq> 0" using Suc.prems(1) by auto
  then have i: "unat ?i = ?k - 1" by (simp add: unat_minus_one)
  obtain bs' b where bs: "bs = bs' @ [b]" using Suc.prems(1,2) by (cases bs rule: rev_cases) auto
  have len: "?k = Suc (length bs')" using Suc.prems(2) by (simp add: bs)
  have kl: "?k \<le> length (ss_page_cache_buffers s)"
    using arg_cong [OF Suc.prems(3), of length] Suc.prems(2) by simp
  have "ss_page_cache_buffers s ! (?k - 1) = take ?k (ss_page_cache_buffers s) ! (?k - 1)" using len by simp
  also have "\<dots> = Some b" unfolding Suc.prems(3) using len by (simp add: bs nth_append)
  finally have cell: "cell (ss_page_cache_buffers s) (unat ?i) = Inr b" using kl len by (simp add: i)
  have tk: "take (unat ?i) (ss_page_cache_buffers s) = map Some bs'"
    using arg_cong [OF Suc.prems(3), of "take (length bs')"] by (simp add: i bs len)
  from bq.enq_ok [OF Suc.prems(4,5), of b] obtain p1 where
      p1: "bq_push_back b prev = Inr p1" "bq_invar p1" "bq_room p1 n" "bq_contents p1 = bq_contents prev @ [b]" by blast
  have "\<exists>prev'. give_from_stock n ?s p1 =
      Inr (?s\<lparr>ss_insert_buffers_from := ss_insert_buffers_from ?s - of_nat n\<rparr>, prev') \<and> bq_invar prev' \<and>
    bq_contents prev' = bq_contents p1 @ rev (drop (unat (ss_insert_buffers_from ?s) - n) bs')"
    using Suc.prems(1) len tk p1 i by (intro Suc.IH) simp_all
  moreover have "drop (?k - Suc n) bs = drop (?k - 1 - n) bs' @ [b]" using len Suc.prems(1) by (simp add: bs)
  moreover have "?i - of_nat n = ss_insert_buffers_from s - of_nat (Suc n)" by (simp add: diff_diff_eq)
  ultimately show ?case using cell p1 i by (auto simp: Let_def)
qed

text \<open>
  Giving buffers from the stock upstream hands over the topmost ones, but the stock shrinks by
  one less than it gave: the last buffer given away is still counted as the SSTable's own, so two
  SSTables own it. (No location of the given buffers is in use here; removing one that is in use
  is \<open>remove_buffer_range\<close>'s business.)
\<close>

lemma give_stock_up_shares_buffer:
  assumes "to_give c q = Inr n" "0 < unat n" "unat n \<le> unat (ss_insert_buffers_from s)"
    and "length bs = unat (ss_insert_buffers_from s)"
    and "take (unat (ss_insert_buffers_from s)) (ss_page_cache_buffers s) = map Some bs"
    and "bq_invar prev" "bq_room prev (unat n)"
    and "ch_id_of_most_recently_selected_buffer (ss_cache_helper s) < ss_insert_buffers_from s - n + 1"
  shows "\<exists>s' q' prev'. give_stock_up c s q prev = Inr (s', q', prev') \<and>
    bq_contents prev' = bq_contents prev @ rev (drop (length bs - unat n) bs) \<and>
    unat (ss_insert_buffers_from s') = length bs - unat n + 1 \<and>
    bq_cur_num_buffers q' = bq_cur_num_buffers q - n \<and>
    bs ! (length bs - unat n) \<in> set (take (unat (ss_insert_buffers_from s')) bs) \<inter> set (bq_contents prev')"
proof -
  let ?k = "ss_insert_buffers_from s"
  from give_from_stock_ok [OF assms(3-7)] obtain p1 where
      p1: "give_from_stock (unat n) s prev = Inr (s\<lparr>ss_insert_buffers_from := ?k - n\<rparr>, p1)" "bq_invar p1"
        "bq_contents p1 = bq_contents prev @ rev (drop (unat ?k - unat n) bs)" by auto
  have "unat (?k - n) = unat ?k - unat n" using assms(3) by (simp add: unat_sub word_le_nat_alt)
  moreover have "unat (?k - n + 1) = unat (?k - n) + 1"
  proof -
    have "unat (?k - n) + 1 < 2 ^ 32"
      using assms(2,3) calculation unsigned_less [of ?k, where 'a = nat] by simp
    then show ?thesis by (simp add: unat_word_ariths)
  qed
  ultimately have k: "unat (?k - n + 1) = length bs - unat n + 1" using assms(4) by simp
  let ?h = "(ss_cache_helper s)\<lparr>ch_free_buffers_left := ch_free_buffers_left (ss_cache_helper s) - (?k - (?k - n + 1) + 1)\<rparr>"
  have "remove_buffer_range (?k - n + 1) ?k (ss_cache_helper s) = Inr ?h"
    using assms(8) by (simp add: remove_buffer_range_def Let_def not_less [symmetric])
  then have run: "give_stock_up c s q prev =
      Inr (s\<lparr>ss_insert_buffers_from := ?k - n + 1, ss_cache_helper := ?h\<rparr>,
        release_guard (q\<lparr>bq_cur_num_buffers := bq_cur_num_buffers q - n\<rparr>), release_guard p1)"
    using assms(1,2) p1(1) by (auto simp: give_stock_up_def Let_def)
  have j: "length bs - unat n < length bs" using assms(2-4) by simp
  have "bs ! (length bs - unat n) \<in> set (drop (length bs - unat n) bs)"
    using j by (metis Cons_nth_drop_Suc list.set_intros(1))
  moreover have "bs ! (length bs - unat n) \<in> set (take (length bs - unat n + 1) bs)"
    using j by (auto simp: in_set_conv_nth intro!: exI [of _ "length bs - unat n"])
  ultimately show ?thesis
    using run p1(3) k assms(4) by simp
qed

lemma give_stock_up_shares_buffer_example:
  "\<exists>s' q' prev'. give_stock_up cmake_config sample_sstable (new_buffer_queue cmake_config [0, 0, 0] True)
      (new_buffer_queue cmake_config [0, 0, 0] True) = Inr (s', q', prev') \<and>
    12 \<in> set (bq_contents prev') \<and> unat (ss_insert_buffers_from s') = 2"
proof -
  let ?q = "new_buffer_queue cmake_config [0, 0, 0] True"
  have "to_give cmake_config ?q = Inr 2"
    by (simp add: to_give_def new_buffer_queue_def max_sstable_height_def)
  moreover have "length [11, 12, 13 :: nat] = unat (ss_insert_buffers_from sample_sstable)"
      "take (unat (ss_insert_buffers_from sample_sstable)) (ss_page_cache_buffers sample_sstable) = map Some [11, 12, 13]"
    by (simp_all add: sample_sstable_def)
  moreover have "bq_invar ?q" "bq_room ?q (unat (2 :: uint))"
    by (simp_all add: bq_invar_def bq_room_def new_buffer_queue_def)
  moreover have "ch_id_of_most_recently_selected_buffer (ss_cache_helper sample_sstable) <
      ss_insert_buffers_from sample_sstable - 2 + 1" "unat (2 :: uint) \<le> unat (ss_insert_buffers_from sample_sstable)"
    by (simp_all add: sample_sstable_def)
  ultimately show ?thesis
    using give_stock_up_shares_buffer [of cmake_config ?q 2 sample_sstable "[11, 12, 13]" ?q] by fastforce
qed

text \<open>
  On a queue shared between threads no buffer ever moves: its guard is 1 in every reachable state
  and both operations expect 0, so taking buffers in and passing them upstream leave everything as
  it is, however often they are tried.
\<close>

lemma shared_queue_stuck:
  assumes "guard_reachable g" "bq_atomic_guard q = gd_guard g" "\<not> bq_is_single_thread q"
    and "ss_already_waited s" "0 < level"
  shows "try_add_buffers_nonblockingly spurious s q = Some (Inr (s, q)) \<and>
    worker_idle c spurious level s q prev = Inr (s, q, prev)"
  using guard_reachable_one [OF assms(1)] assms(2-5)
  by (simp add: try_add_buffers_nonblockingly_def worker_idle_def cas_weak_def)

lemma shared_queue_stuck_example:
  "worker_idle cmake_config False 1 (sample_sstable\<lparr>ss_already_waited := True\<rparr>)
     (new_buffer_queue cmake_config [0, 0] False) (new_buffer_queue cmake_config [0] True) =
   Inr (sample_sstable\<lparr>ss_already_waited := True\<rparr>, new_buffer_queue cmake_config [0, 0] False,
     new_buffer_queue cmake_config [0] True)"
  using shared_queue_stuck [OF guard_reachable.init, of "new_buffer_queue cmake_config [0, 0] False"
      "sample_sstable\<lparr>ss_already_waited := True\<rparr>" 1 False cmake_config "new_buffer_queue cmake_config [0] True"]
  by (simp add: new_buffer_queue_def guard_init_def)

end
