(* ===== verification/Dispatch.thy ===== *)
theory Dispatch
  imports Buffer_Exchange
begin

text \<open>
  \<open>LSMTree::insert_into_wqs\<close> in \<^verbatim>\<open>lsm_tree.hpp\<close>: splitting a batch over the SSTables of a level,
  putting the parts into their wait queues and handing page-cache buffers down to them. The array
  \<open>could_contend_with_consumer\<close> is never initialised and one element behind its end is written;
  \<open>is_single_thread\<close> of the level is the uninitialised field that \<open>set_is_single_thread\<close> misses. The
  parts of the function are separate definitions, so that each can be judged by itself.
\<close>

section \<open>Queueing the batches\<close>

record queue_state =
  qs_level :: level_info
  qs_batches :: "nat list"
  qs_inserted :: "bool list"
  qs_contend :: "bool option list"
  qs_num_queued :: uint

text \<open>The batch of the requests no SSTable of the level can answer goes to the first queue that is free.\<close>

definition push_rest :: "config \<Rightarrow> nat wait_queue \<Rightarrow> queue_state \<Rightarrow> (nat wait_queue \<times> queue_state) res" where
  "push_rest c wq st =
     rbind (rnth (qs_batches st) (LEVEL_FACTOR c)) (\<lambda>rest.
       if rest = 0 then Inr (wq, st)
       else rbind (standard_push_back rest wq) (\<lambda>wq'.
              rbind (rupd (qs_batches st) (LEVEL_FACTOR c) 0) (\<lambda>bs.
                Inr (wq', st\<lparr>qs_batches := bs, qs_num_queued := qs_num_queued st + 1\<rparr>))))"

text \<open>\<open>guard.atomic_producer_guard.store(1)\<close> unless single-threaded.\<close>

definition release_producer :: "'b wait_queue \<Rightarrow> 'b wait_queue" where
  "release_producer wq = (if wq_is_single_thread wq then wq else wq\<lparr>wq_atomic_producer_guard := 1\<rparr>)"

definition set_wq :: "nat \<Rightarrow> nat wait_queue \<Rightarrow> level_info \<Rightarrow> level_info res" where
  "set_wq i wq li =
     rbind (rnth (li_sstable_infos li) i) (\<lambda>s.
       rbind (rupd (li_sstable_infos li) i (s\<lparr>ss_req_batch_wq := wq\<rparr>)) (\<lambda>ss.
         Inr (li\<lparr>li_sstable_infos := ss\<rparr>)))"

text \<open>What happens to SSTable \<open>i\<close> once its producer guard is held.\<close>

definition queue_batch :: "config \<Rightarrow> nat \<Rightarrow> nat \<Rightarrow> nat wait_queue \<Rightarrow> queue_state \<Rightarrow> queue_state res" where
  "queue_batch c i b wq st =
     rbind (cell (qs_contend st) i) (\<lambda>contend.
       rbind (try_push_back b contend wq) (\<lambda>(pushed, wq1).
         rbind (rupd (qs_contend st) i (Some (\<not> pushed))) (\<lambda>cc.
           let st1 = st\<lparr>qs_contend := cc\<rparr>
           in rbind (if pushed then
                       rbind (push_rest c wq1 st1) (\<lambda>(wq2, st2).
                         rbind (rupd (qs_inserted st2) i True) (\<lambda>ins.
                           Inr (wq2, st2\<lparr>qs_num_queued := qs_num_queued st2 + 1, qs_inserted := ins\<rparr>)))
                     else Inr (wq1, st1)) (\<lambda>(wq3, st3).
                rbind (set_wq i (release_producer wq3) (qs_level st3)) (\<lambda>li.
                  Inr (st3\<lparr>qs_level := li\<rparr>))))))"

definition queue_one :: "config \<Rightarrow> bool \<Rightarrow> nat \<Rightarrow> queue_state \<Rightarrow> queue_state res" where
  "queue_one c spurious i st =
     rbind (rnth (li_sstable_infos (qs_level st)) i) (\<lambda>s.
       rbind (rnth (qs_batches st) i) (\<lambda>b.
         rbind (rnth (qs_inserted st) i) (\<lambda>inserted.
           if b = 0 \<or> inserted then Inr st
           else
             let wq = ss_req_batch_wq s;
                 (ok, g, local_zero) = cas_weak spurious (wq_atomic_producer_guard wq) 0 1
             in if wq_is_single_thread wq then queue_batch c i b wq st
                else if ok then queue_batch c i b (wq\<lparr>wq_atomic_producer_guard := g\<rparr>) st
                else Inr st)))"

text \<open>One pass over the SSTables; \<open>spurious i\<close> says whether the exchange at SSTable \<open>i\<close> fails spuriously.\<close>

definition queue_round :: "config \<Rightarrow> (nat \<Rightarrow> bool) \<Rightarrow> queue_state \<Rightarrow> queue_state res" where
  "queue_round c spurious st = rfold (\<lambda>i. queue_one c (spurious i) i) [0 ..< LEVEL_FACTOR c] st"

text \<open>\<open>while (num_queued < decomp.num_req_batches)\<close>; \<open>n\<close> counts the passes made.\<close>

partial_function (option) queue_loop ::
    "config \<Rightarrow> (nat \<Rightarrow> nat \<Rightarrow> bool) \<Rightarrow> nat \<Rightarrow> uint \<Rightarrow> queue_state \<Rightarrow> queue_state res option" where
  "queue_loop c spurious n num_req_batches st =
     (if qs_num_queued st < num_req_batches
      then case queue_round c (spurious n) st of
             Inl e \<Rightarrow> Some (Inl e)
           | Inr st' \<Rightarrow> queue_loop c spurious (Suc n) num_req_batches st'
      else Some (Inr st))"

section \<open>Collecting buffers\<close>

text \<open>
  The declaration \<open>int num_new_buffers\<close> in the \<open>for\<close> statement hides the variable that is used
  later, which therefore stays 0. \<open>a ? : b\<close> is \<open>a\<close> unless it is 0.
\<close>

definition new_buffer_limit :: "config \<Rightarrow> buffer_queue \<Rightarrow> int" where
  "new_buffer_limit c q =
     sint (if bq_num_new_buffers q \<noteq> 0 then bq_num_new_buffers q
           else max (min (of_nat (max_sstable_height c)) (bq_num_new_buffers q div of_nat (LEVEL_FACTOR c))) 1)"

definition old_buffer_limit :: "config \<Rightarrow> buffer_queue \<Rightarrow> int" where
  "old_buffer_limit c q =
     (let old_num_old_buffers = sint (bq_cur_num_buffers q - bq_num_new_buffers q)
      in if old_num_old_buffers \<noteq> 0 then max (old_num_old_buffers div int (LEVEL_FACTOR c)) 1 else 0)"

definition collect_buffer :: "nat \<Rightarrow> buf option list \<times> buffer_queue \<Rightarrow> (buf option list \<times> buffer_queue) res" where
  "collect_buffer k st =
     (let (new_buffers, q) = st
      in rbind (bq_pop_front q) (\<lambda>(b, q').
           rbind (rupd new_buffers k (Some b)) (\<lambda>bufs. Inr (bufs, q'))))"

text \<open>\<open>while (buffer_queue.num_new_buffers)\<close>: the buffers that stay with the SSTable.\<close>

function keep_buffers :: "sstable_info \<Rightarrow> buffer_queue \<Rightarrow> (sstable_info \<times> buffer_queue) res" where
  "keep_buffers s q =
     (if bq_num_new_buffers q = 0 then Inr (s, q)
      else case bq_pop_front q of
             Inl e \<Rightarrow> Inl e
           | Inr (new_buffer, q') \<Rightarrow>
               (case rupd (ss_page_cache_buffers s) (unat (ss_insert_buffers_from s)) (Some new_buffer) of
                  Inl e \<Rightarrow> Inl e
                | Inr bufs \<Rightarrow>
                    keep_buffers (s\<lparr>ss_page_cache_buffers := bufs,
                                    ss_insert_buffers_from := ss_insert_buffers_from s + 1,
                                    ss_cache_helper := add_buffer (ss_cache_helper s)\<rparr>) q'))"
  by pat_completeness auto
termination
proof (relation "measure (\<lambda>(s, q). unat (bq_num_new_buffers q))", simp)
  fix s q p new_buffer q' bufs
  assume "bq_num_new_buffers q \<noteq> 0" "bq_pop_front q = Inr p" "(new_buffer, q') = p"
  then have "bq_num_new_buffers q' = bq_num_new_buffers q - 1"
    by (auto simp: bq_pop_front_def rbind_eq_Inr split: if_splits)
  with \<open>bq_num_new_buffers q \<noteq> 0\<close> have "unat (bq_num_new_buffers q') < unat (bq_num_new_buffers q)"
    by (simp add: unat_minus_one word_neq_0_conv unat_gt_0)
  then show "((s\<lparr>ss_page_cache_buffers := bufs, ss_insert_buffers_from := ss_insert_buffers_from s + 1,
      ss_cache_helper := add_buffer (ss_cache_helper s)\<rparr>, q'), s, q) \<in> measure (\<lambda>(s, q). unat (bq_num_new_buffers q))"
    by simp
qed

declare keep_buffers.simps [simp del]

definition collect_buffers ::
    "config \<Rightarrow> sstable_info \<Rightarrow> buffer_queue \<Rightarrow> (sstable_info \<times> buffer_queue \<times> buf option list) res" where
  "collect_buffers c s q =
     rbind (rfold collect_buffer [0 ..< nat (new_buffer_limit c q)] (replicate (max_sstable_height c) None, q)) (\<lambda>(bufs, q1).
       rbind (keep_buffers s q1) (\<lambda>(s', q2). Inr (s', release_guard q2, bufs)))"

section \<open>Handing buffers down\<close>

text \<open>
  Both operands of \<open>expected_sstable_sizes[i] / total_decomp_size\<close> are \<open>unsigned int\<close>, so the
  quotient is truncated before it becomes a \<open>double\<close>; the products with it are exact.
\<close>

definition proportions :: "config \<Rightarrow> decomposition \<Rightarrow> uint list res" where
  "proportions c d =
     (if dc_total_decomp_size d = 0 \<and> 0 < LEVEL_FACTOR c then Inl DivByZero
      else Inr (map (\<lambda>e. e div dc_total_decomp_size d) (take (LEVEL_FACTOR c) (dc_expected_sstable_sizes d))))"

record give_state =
  gs_level :: level_info
  gs_sstable :: sstable_info
  gs_given_buffers :: "bool list"
  gs_num_given :: int
  gs_num_old_given :: int
  gs_num_new_given :: int

definition push_new :: "buf option list \<Rightarrow> nat \<Rightarrow> buffer_queue \<Rightarrow> buffer_queue res" where
  "push_new new_buffers k bq = rbind (cell new_buffers k) (\<lambda>b. bq_push_back b bq)"

text \<open>The share of one SSTable: first old buffers from the stock, then new ones, the last SSTable all that are left.\<close>

definition give_share ::
    "config \<Rightarrow> uint \<Rightarrow> int \<Rightarrow> buf option list \<Rightarrow> int \<Rightarrow> uint \<Rightarrow> buffer_queue \<Rightarrow> give_state \<Rightarrow>
     (buffer_queue \<times> give_state) res" where
  "give_share c proportion old_limit new_buffers num_new num_req_batches bq st =
     (let n_old = min (int (unat proportion) * old_limit) (old_limit - gs_num_old_given st);
          n_new = min (int (unat proportion) * num_new) (num_new - gs_num_new_given st);
          from_new = gs_num_new_given st;
          to_new = from_new + max 0 n_new;
          last_new = (if gs_num_given st = int (unat num_req_batches) then max to_new num_new else to_new)
      in rbind (give_from_stock (nat n_old) (gs_sstable st) bq) (\<lambda>(s', bq1).
           rbind (rfold (push_new new_buffers) [nat from_new ..< nat last_new] bq1) (\<lambda>bq2.
             Inr (bq2, st\<lparr>gs_sstable := s', gs_num_old_given := gs_num_old_given st + max 0 n_old,
                          gs_num_new_given := last_new\<rparr>))))"

definition give_one ::
    "config \<Rightarrow> uint list \<Rightarrow> int \<Rightarrow> buf option list \<Rightarrow> int \<Rightarrow> decomposition \<Rightarrow> bool \<Rightarrow> nat \<Rightarrow> give_state \<Rightarrow> give_state res" where
  "give_one c props old_limit new_buffers num_new d spurious i st =
     rbind (rnth (li_buffer_queues (gs_level st)) i) (\<lambda>bq.
       rbind (rnth (dc_decomposition d) i) (\<lambda>b.
         rbind (rnth (gs_given_buffers st) i) (\<lambda>given.
           let (ok, g, local_buffer_zero) = cas_weak spurious (bq_atomic_guard bq) 0 1
           in if b = 0 \<or> given \<or> \<not> (bq_is_single_thread bq \<or> ok) then Inr st
              else
                let bq0 = (if bq_is_single_thread bq then bq else bq\<lparr>bq_atomic_guard := g\<rparr>)
                in rbind (rupd (gs_given_buffers st) i True) (\<lambda>gv.
                     let st1 = st\<lparr>gs_given_buffers := gv, gs_num_given := gs_num_given st + 1\<rparr>
                     in rbind (if bq_cur_num_buffers bq0 < of_nat (max_sstable_height c) then
                                 rbind (rnth props i) (\<lambda>p.
                                   give_share c p old_limit new_buffers num_new (dc_num_req_batches d) bq0 st1)
                               else Inr (bq0, st1)) (\<lambda>(bq1, st2).
                          rbind (rupd (li_buffer_queues (gs_level st2)) i (release_guard bq1)) (\<lambda>qs.
                            Inr (st2\<lparr>gs_level := (gs_level st2)\<lparr>li_buffer_queues := qs\<rparr>\<rparr>)))))))"

definition give_round ::
    "config \<Rightarrow> uint list \<Rightarrow> int \<Rightarrow> buf option list \<Rightarrow> int \<Rightarrow> decomposition \<Rightarrow> (nat \<Rightarrow> bool) \<Rightarrow> give_state \<Rightarrow> give_state res" where
  "give_round c props old_limit new_buffers num_new d spurious st =
     rfold (\<lambda>i. give_one c props old_limit new_buffers num_new d (spurious i) i) [0 ..< LEVEL_FACTOR c] st"

text \<open>\<open>while (num_given < decomp.num_req_batches)\<close>.\<close>

partial_function (option) give_loop ::
    "config \<Rightarrow> uint list \<Rightarrow> int \<Rightarrow> buf option list \<Rightarrow> int \<Rightarrow> decomposition \<Rightarrow> (nat \<Rightarrow> nat \<Rightarrow> bool) \<Rightarrow> nat \<Rightarrow>
     give_state \<Rightarrow> give_state res option" where
  "give_loop c props old_limit new_buffers num_new d spurious n st =
     (if gs_num_given st < int (unat (dc_num_req_batches d))
      then case give_round c props old_limit new_buffers num_new d (spurious n) st of
             Inl e \<Rightarrow> Some (Inl e)
           | Inr st' \<Rightarrow> give_loop c props old_limit new_buffers num_new d spurious (Suc n) st'
      else Some (Inr st))"

text \<open>The whole of the last part, for the SSTable \<open>s\<close> and the level \<open>li\<close> below it.\<close>

definition give_buffers ::
    "config \<Rightarrow> uint list \<Rightarrow> int \<Rightarrow> buf option list \<Rightarrow> int \<Rightarrow> decomposition \<Rightarrow> (nat \<Rightarrow> nat \<Rightarrow> bool) \<Rightarrow>
     sstable_info \<Rightarrow> level_info \<Rightarrow> (sstable_info \<times> level_info) res option" where
  "give_buffers c props old_limit new_buffers num_new d spurious s li =
     (if old_limit = 0 \<and> num_new = 0 then Some (Inr (s, li))
      else
        let original_insert_from = ss_insert_buffers_from s
        in lbind (give_loop c props old_limit new_buffers num_new d spurious 0
                    \<lparr>gs_level = li, gs_sstable = s, gs_given_buffers = replicate (LEVEL_FACTOR c) False,
                     gs_num_given = 0, gs_num_old_given = 0, gs_num_new_given = 0\<rparr>) (\<lambda>st.
             if gs_num_old_given st = 0 then Some (Inr (gs_sstable st, gs_level st))
             else
               let s1 = gs_sstable st; id1 = ss_insert_buffers_from s1 + 1
               in Some (rbind (remove_buffer_range id1 original_insert_from (ss_cache_helper s1)) (\<lambda>h.
                    Inr (s1\<lparr>ss_insert_buffers_from := id1, ss_cache_helper := h\<rparr>, gs_level st)))))"

section \<open>insert\_into\_wqs\<close>

text \<open>
  \<open>while (!level_infos[level].guard.is_single_thread && ...)\<close> and the release after \<open>decompose\<close>: the
  flag is read in both, the guard is 1 before and after.
\<close>

definition level_flag :: "level_info \<Rightarrow> bool res" where
  "level_flag li = (case li_is_single_thread li of None \<Rightarrow> Inl Indeterminate | Some b \<Rightarrow> Inr b)"

text \<open>\<open>could_contend_with_consumer[LEVEL_FACTOR] = false\<close>, \<open>LEVEL_FACTOR\<close> times.\<close>

definition init_contend :: "config \<Rightarrow> bool option list res" where
  "init_contend c =
     rfold (\<lambda>r a. rupd a (LEVEL_FACTOR c) (Some False)) [0 ..< LEVEL_FACTOR c] (replicate (LEVEL_FACTOR c) None)"

text \<open>
  The buffer queue and the SSTable the batch comes from are those at \<open>index_in_level\<close> of the level
  above; on level 0 there are none.
\<close>

definition collect_from ::
    "config \<Rightarrow> nat \<Rightarrow> nat \<Rightarrow> level_info list \<Rightarrow> (level_info list \<times> int \<times> buf option list) res" where
  "collect_from c level index_in_level lis =
     (if level = 0 then Inr (lis, 0, replicate (max_sstable_height c) None)
      else rbind (rnth lis (level - 1)) (\<lambda>above.
        rbind (rnth (li_buffer_queues above) index_in_level) (\<lambda>q.
          rbind (rnth (li_sstable_infos above) index_in_level) (\<lambda>s.
            rbind (collect_buffers c s q) (\<lambda>(s', q', bufs).
              rbind (rupd (li_buffer_queues above) index_in_level q') (\<lambda>qs.
                rbind (rupd (li_sstable_infos above) index_in_level s') (\<lambda>ss.
                  rbind (rupd lis (level - 1) (above\<lparr>li_buffer_queues := qs, li_sstable_infos := ss\<rparr>)) (\<lambda>lis'.
                    Inr (lis', old_buffer_limit c q, bufs)))))))))"

definition give_from ::
    "config \<Rightarrow> nat \<Rightarrow> nat \<Rightarrow> uint list \<Rightarrow> int \<Rightarrow> buf option list \<Rightarrow> decomposition \<Rightarrow> (nat \<Rightarrow> nat \<Rightarrow> bool) \<Rightarrow>
     level_info list \<Rightarrow> level_info list res option" where
  "give_from c level index_in_level props old_limit new_buffers d spurious lis =
     (if level = 0 then Some (Inr lis)
      else lbind (Some (rbind (rnth lis (level - 1)) (\<lambda>above.
                   rbind (rnth (li_sstable_infos above) index_in_level) (\<lambda>s.
                     rbind (rnth lis level) (\<lambda>li. Inr (above, s, li)))))) (\<lambda>(above, s, li).
        lbind (give_buffers c props old_limit new_buffers 0 d spurious s li) (\<lambda>(s', li').
          Some (rbind (rupd (li_sstable_infos above) index_in_level s') (\<lambda>ss.
                  rbind (rupd lis (level - 1) (above\<lparr>li_sstable_infos := ss\<rparr>)) (\<lambda>lis1.
                    rupd lis1 level li'))))))"

definition insert_into_wqs ::
    "config \<Rightarrow> byte list \<Rightarrow> (nat \<Rightarrow> nat \<Rightarrow> bool) \<Rightarrow> (nat \<Rightarrow> nat \<Rightarrow> bool) \<Rightarrow> nat \<Rightarrow> nat \<Rightarrow> nat \<Rightarrow>
     level_info list \<Rightarrow> batch_store \<Rightarrow> (level_info list \<times> batch_store) res option" where
  "insert_into_wqs c mem spur1 spur2 level index_in_level a lis bs =
     lbind (Some (
       rbind (rnth lis level) (\<lambda>li.
         rbind (level_flag li) (\<lambda>single.
           rbind (decompose c mem a li bs) (\<lambda>(d, li1, bs1).
             rbind (batch_deref bs a) (\<lambda>b.
               let bs2 = (if level = 0 then snd (batch_new (rb_req_type b) bs1) else bs1)
               in rbind (init_contend c) (\<lambda>contend.
                    rbind (proportions c d) (\<lambda>props.
                      rbind (rupd lis level li1) (\<lambda>lis1.
                        rbind (collect_from c level index_in_level lis1) (\<lambda>(lis2, old_limit, bufs).
                          Inr (d, bs2, contend, props, lis2, old_limit, bufs)))))))))))
       (\<lambda>(d, bs2, contend, props, lis2, old_limit, bufs).
         lbind (Some (rnth lis2 level)) (\<lambda>li2.
           lbind (queue_loop c spur1 0 (dc_num_req_batches d)
                    \<lparr>qs_level = li2, qs_batches = dc_decomposition d, qs_inserted = replicate (LEVEL_FACTOR c) False,
                     qs_contend = contend, qs_num_queued = 0\<rparr>) (\<lambda>qst.
             lbind (Some (rupd lis2 level (qs_level qst))) (\<lambda>lis3.
               lbind (give_from c level index_in_level props old_limit bufs d spur2 lis3) (\<lambda>lis4.
                 Some (Inr (lis4, bs2)))))))"

section \<open>What queueing does\<close>

lemma standard_push_back_single:
  "standard_push_back b q = Inr q' \<Longrightarrow> wq_is_single_thread q' = wq_is_single_thread q"
  by (auto simp: standard_push_back_def link_back_def start_list_def new_node_def add_size_def Let_def
      rbind_eq_Inr split: if_splits)

lemma try_push_back_single:
  assumes "wq_invar wq" "wq_is_single_thread wq"
  shows "\<exists>wq'. try_push_back b contend wq = Inr (True, wq') \<and> wq_invar wq' \<and> wq_is_single_thread wq' \<and>
    wq_contents wq' = wq_contents wq @ [b]"
proof -
  from wq.enq_ok [OF assms(1), where x = b] obtain wq' where
      wq': "standard_push_back b wq = Inr wq'" "wq_invar wq'" "wq_contents wq' = wq_contents wq @ [b]" by auto
  then show ?thesis using assms(2) standard_push_back_single [OF wq'(1)] by (simp add: try_push_back_def)
qed

lemma push_rest_single:
  assumes "wq_invar wq" "wq_is_single_thread wq" "length (qs_batches st) = Suc (LEVEL_FACTOR c)"
    and "rest = qs_batches st ! LEVEL_FACTOR c"
  shows "\<exists>wq'. push_rest c wq st = Inr (wq', st\<lparr>qs_batches := (qs_batches st)[LEVEL_FACTOR c := 0],
      qs_num_queued := qs_num_queued st + (if rest = 0 then 0 else 1)\<rparr>) \<and>
    wq_invar wq' \<and> wq_is_single_thread wq' \<and>
    wq_contents wq' = wq_contents wq @ (if rest = 0 then [] else [rest])"
proof (cases "rest = 0")
  case True
  have "(qs_batches st)[LEVEL_FACTOR c := 0] = qs_batches st"
    using True assms(3,4) by (metis list_update_id)
  then show ?thesis using True assms by (simp add: push_rest_def)
next
  case False
  from wq.enq_ok [OF assms(1), where x = rest] obtain wq' where
      wq': "standard_push_back rest wq = Inr wq'" "wq_invar wq'" "wq_contents wq' = wq_contents wq @ [rest]" by auto
  then show ?thesis using False assms standard_push_back_single [OF wq'(1)] by (simp add: push_rest_def)
qed

abbreviation level_wq :: "level_info \<Rightarrow> nat \<Rightarrow> nat wait_queue" where
  "level_wq li i \<equiv> ss_req_batch_wq (li_sstable_infos li ! i)"

text \<open>The state at SSTable \<open>i\<close>: the arrays have their sizes, and \<open>could_contend_with_consumer\<close> holds something.\<close>

definition queue_ok :: "config \<Rightarrow> queue_state \<Rightarrow> bool" where
  "queue_ok c st \<longleftrightarrow> length (li_sstable_infos (qs_level st)) = LEVEL_FACTOR c \<and>
     length (qs_batches st) = Suc (LEVEL_FACTOR c) \<and> length (qs_inserted st) = LEVEL_FACTOR c \<and>
     length (qs_contend st) = LEVEL_FACTOR c \<and> None \<notin> set (qs_contend st)"

lemma queue_one_single:
  assumes ok: "queue_ok c st" and i: "i < LEVEL_FACTOR c" and fresh: "\<not> qs_inserted st ! i"
    and wq: "wq_invar (level_wq (qs_level st) i)" "wq_is_single_thread (level_wq (qs_level st) i)"
    and b: "qs_batches st ! i \<noteq> 0" and rest: "rest = qs_batches st ! LEVEL_FACTOR c"
  shows "\<exists>wq'. queue_one c spurious i st = Inr (st\<lparr>
      qs_level := (qs_level st)\<lparr>li_sstable_infos := (li_sstable_infos (qs_level st))
        [i := (li_sstable_infos (qs_level st) ! i)\<lparr>ss_req_batch_wq := wq'\<rparr>]\<rparr>,
      qs_batches := (qs_batches st)[LEVEL_FACTOR c := 0], qs_inserted := (qs_inserted st)[i := True],
      qs_contend := (qs_contend st)[i := Some False],
      qs_num_queued := qs_num_queued st + (if rest = 0 then 1 else 2)\<rparr>) \<and>
    wq_invar wq' \<and> wq_is_single_thread wq' \<and>
    wq_contents wq' = wq_contents (level_wq (qs_level st) i) @ qs_batches st ! i # (if rest = 0 then [] else [rest])"
proof -
  have len: "length (li_sstable_infos (qs_level st)) = LEVEL_FACTOR c" "length (qs_batches st) = Suc (LEVEL_FACTOR c)"
      "length (qs_inserted st) = LEVEL_FACTOR c" "length (qs_contend st) = LEVEL_FACTOR c"
    using ok by (simp_all add: queue_ok_def)
  obtain cc where cc: "qs_contend st ! i = Some cc"
    using ok i by (metis nth_mem option.exhaust queue_ok_def)
  from try_push_back_single [OF wq, of "qs_batches st ! i" cc] obtain wq1 where
      wq1: "try_push_back (qs_batches st ! i) cc (level_wq (qs_level st) i) = Inr (True, wq1)" "wq_invar wq1"
        "wq_is_single_thread wq1" "wq_contents wq1 = wq_contents (level_wq (qs_level st) i) @ [qs_batches st ! i]" by blast
  let ?st1 = "st\<lparr>qs_contend := (qs_contend st)[i := Some False]\<rparr>"
  from push_rest_single [OF wq1(2,3), of ?st1 c rest] rest len(2) obtain wq2 where
      wq2: "push_rest c wq1 ?st1 = Inr (wq2, ?st1\<lparr>qs_batches := (qs_batches st)[LEVEL_FACTOR c := 0],
          qs_num_queued := qs_num_queued st + (if rest = 0 then 0 else 1)\<rparr>)"
        "wq_invar wq2" "wq_is_single_thread wq2"
        "wq_contents wq2 = wq_contents wq1 @ (if rest = 0 then [] else [rest])" by auto
  have "queue_batch c i (qs_batches st ! i) (level_wq (qs_level st) i) st = Inr (st\<lparr>
      qs_level := (qs_level st)\<lparr>li_sstable_infos := (li_sstable_infos (qs_level st))
        [i := (li_sstable_infos (qs_level st) ! i)\<lparr>ss_req_batch_wq := wq2\<rparr>]\<rparr>,
      qs_batches := (qs_batches st)[LEVEL_FACTOR c := 0], qs_inserted := (qs_inserted st)[i := True],
      qs_contend := (qs_contend st)[i := Some False],
      qs_num_queued := qs_num_queued st + (if rest = 0 then 1 else 2)\<rparr>)"
    using i len cc wq1(1) wq2(1,3)
    by (simp add: queue_batch_def cell_def set_wq_def release_producer_def)
  then show ?thesis using i len fresh b wq(2) wq1 wq2
    by (intro exI [of _ wq2]) (simp add: queue_one_def Let_def split: prod.split)
qed

text \<open>
  What SSTable \<open>i\<close> gets of the batches \<open>bs\<close>: its own, and if it is the first to get one, the rest
  batch as well.
\<close>

definition present :: "nat list \<Rightarrow> nat \<Rightarrow> bool" where
  "present bs n \<longleftrightarrow> (\<exists>j < n. bs ! j \<noteq> 0)"

definition share :: "nat list \<Rightarrow> nat \<Rightarrow> nat \<Rightarrow> nat list" where
  "share bs l i = (if bs ! i = 0 then [] else bs ! i # (if present bs i \<or> bs ! l = 0 then [] else [bs ! l]))"

lemma present_Suc: "present bs (Suc n) \<longleftrightarrow> present bs n \<or> bs ! n \<noteq> 0"
  by (auto simp: present_def less_Suc_eq)

text \<open>The wait queues of \<open>st\<close>, with the shares of the first \<open>n\<close> SSTables appended.\<close>

definition queues_grown :: "config \<Rightarrow> queue_state \<Rightarrow> nat \<Rightarrow> queue_state \<Rightarrow> bool" where
  "queues_grown c st n st' \<longleftrightarrow>
     (\<forall>i < LEVEL_FACTOR c. wq_invar (level_wq (qs_level st') i) \<and> wq_is_single_thread (level_wq (qs_level st') i) \<and>
        wq_contents (level_wq (qs_level st') i) = wq_contents (level_wq (qs_level st) i) @
          (if i < n then share (qs_batches st) (LEVEL_FACTOR c) i else []) \<and>
        (qs_inserted st' ! i \<longleftrightarrow> i < n \<and> qs_batches st ! i \<noteq> 0))"

definition queue_start :: "config \<Rightarrow> queue_state \<Rightarrow> bool" where
  "queue_start c st \<longleftrightarrow> queue_ok c st \<and> queues_grown c st 0 st"

lemma queue_prefix:
  assumes "queue_start c st" "n \<le> LEVEL_FACTOR c"
  shows "\<exists>st'. rfold (\<lambda>i. queue_one c (spurious i) i) [0 ..< n] st = Inr st' \<and> queue_ok c st' \<and>
    queues_grown c st n st' \<and>
    qs_batches st' = (if present (qs_batches st) n then (qs_batches st)[LEVEL_FACTOR c := 0] else qs_batches st) \<and>
    qs_num_queued st' = qs_num_queued st + of_nat (length (concat (map (share (qs_batches st) (LEVEL_FACTOR c)) [0 ..< n])))"
  using assms(2)
proof (induction n)
  case 0
  then show ?case using assms(1) by (simp add: queue_start_def present_def)
next
  case (Suc n)
  let ?l = "LEVEL_FACTOR c" and ?bs = "qs_batches st"
  from Suc obtain st1 where st1: "rfold (\<lambda>i. queue_one c (spurious i) i) [0 ..< n] st = Inr st1" "queue_ok c st1"
      "queues_grown c st n st1" "qs_batches st1 = (if present ?bs n then ?bs[?l := 0] else ?bs)"
      "qs_num_queued st1 = qs_num_queued st + of_nat (length (concat (map (share ?bs ?l) [0 ..< n])))"
    by auto
  have n: "n < ?l" using Suc.prems by simp
  have len: "length ?bs = Suc ?l" using assms(1) by (simp add: queue_start_def queue_ok_def)
  have same: "qs_batches st1 ! n = ?bs ! n" using n st1(4) by simp
  have unfold: "rfold (\<lambda>i. queue_one c (spurious i) i) [0 ..< Suc n] st = queue_one c (spurious n) n st1"
    using st1(1) by (cases "queue_one c (spurious n) n st1") (simp_all add: rfold_append)
  have at: "wq_invar (level_wq (qs_level st1) n)" "wq_is_single_thread (level_wq (qs_level st1) n)"
      "wq_contents (level_wq (qs_level st1) n) = wq_contents (level_wq (qs_level st) n)" "\<not> qs_inserted st1 ! n"
    using st1(3) n by (simp_all add: queues_grown_def)
  show ?case
  proof (cases "?bs ! n = 0")
    case True
    have "queue_one c (spurious n) n st1 = Inr st1"
      using n st1(2) True same by (simp add: queue_one_def queue_ok_def)
    moreover have "queues_grown c st (Suc n) st1"
      using st1(3) True by (auto simp: queues_grown_def less_Suc_eq share_def)
    moreover have "share ?bs ?l n = []" using True by (simp add: share_def)
    ultimately show ?thesis using unfold st1 True by (simp add: present_Suc)
  next
    case False
    let ?rest = "qs_batches st1 ! ?l"
    have rest: "?rest = (if present ?bs n then 0 else ?bs ! ?l)" using st1(4) len by simp
    have "qs_batches st1 ! n \<noteq> 0" using False same by simp
    from queue_one_single [OF st1(2) n at(4,1,2) this refl, of "spurious n"] obtain wq' where
        one: "queue_one c (spurious n) n st1 = Inr (st1\<lparr>
          qs_level := (qs_level st1)\<lparr>li_sstable_infos := (li_sstable_infos (qs_level st1))
            [n := (li_sstable_infos (qs_level st1) ! n)\<lparr>ss_req_batch_wq := wq'\<rparr>]\<rparr>,
          qs_batches := (qs_batches st1)[?l := 0], qs_inserted := (qs_inserted st1)[n := True],
          qs_contend := (qs_contend st1)[n := Some False],
          qs_num_queued := qs_num_queued st1 + (if ?rest = 0 then 1 else 2)\<rparr>)" (is "_ = Inr ?st2")
        and wq1: "wq_invar wq'" "wq_is_single_thread wq'" "wq_contents wq' =
          wq_contents (level_wq (qs_level st1) n) @ qs_batches st1 ! n # (if ?rest = 0 then [] else [?rest])" by blast
    have wq': "wq_contents wq' = wq_contents (level_wq (qs_level st) n) @ share ?bs ?l n"
      using wq1(3) rest False by (simp add: share_def same at(3))
    have "queue_ok c ?st2"
      using st1(2) by (auto simp: queue_ok_def dest!: set_update_subset_insert [THEN subsetD])
    moreover have "queues_grown c st (Suc n) ?st2"
      using st1(2,3) wq1(1,2) wq' n False
      by (auto simp: queues_grown_def queue_ok_def nth_list_update less_Suc_eq)
    moreover have "qs_batches ?st2 = ?bs[?l := 0]" using st1(4) by simp
    moreover have "qs_num_queued ?st2 = qs_num_queued st +
        of_nat (length (concat (map (share ?bs ?l) [0 ..< Suc n])))"
    proof -
      have "length (share ?bs ?l n) = (if ?rest = 0 then 1 else 2)" using False rest by (simp add: share_def)
      then show ?thesis using st1(5) by simp
    qed
    ultimately show ?thesis using unfold one False by (simp add: present_Suc)
  qed
qed

text \<open>Passes that change nothing are repeated forever.\<close>

lemma queue_loop_stuck:
  assumes "\<And>spurious. queue_round c spurious st = Inr st" "qs_num_queued st < goal"
  shows "queue_loop c spurious n goal st = None"
proof (rule ccontr)
  let ?I = "\<lambda>c goal st. (\<forall>spurious. queue_round c spurious st = Inr st) \<and> qs_num_queued st < goal"
  assume "queue_loop c spurious n goal st \<noteq> None"
  then obtain r where ret: "queue_loop c spurious n goal st = Some r" by blast
  have "?I c goal st \<longrightarrow> False"
  proof (rule queue_loop.raw_induct [where P = "\<lambda>c spurious n goal st r. ?I c goal st \<longrightarrow> False", OF _ ret], rule impI)
    fix f :: "config \<Rightarrow> (nat \<Rightarrow> nat \<Rightarrow> bool) \<Rightarrow> nat \<Rightarrow> uint \<Rightarrow> queue_state \<Rightarrow> queue_state res option"
      and c spurious n goal st r
    assume IH: "\<And>c spurious n goal st r. f c spurious n goal st = Some r \<Longrightarrow> ?I c goal st \<longrightarrow> False"
      and eq: "(if qs_num_queued st < goal then case queue_round c (spurious n) st of Inl e \<Rightarrow> Some (Inl e)
          | Inr st' \<Rightarrow> f c spurious (Suc n) goal st' else Some (Inr st)) = Some r"
      and I: "?I c goal st"
    from eq I have "f c spurious (Suc n) goal st = Some r" by simp
    with IH I show False by blast
  qed
  with assms show False by blast
qed

lemma length_shares:
  "length (concat (map (share bs l) [0 ..< n])) =
     length (filter (\<lambda>i. bs ! i \<noteq> 0) [0 ..< n]) + (if present bs n \<and> bs ! l \<noteq> 0 then 1 else 0)"
proof (induction n)
  case 0
  then show ?case by (simp add: present_def)
next
  case (Suc n)
  have "length (share bs l n) = (if bs ! n = 0 then 0 else if present bs n \<or> bs ! l = 0 then 1 else 2)"
    by (simp add: share_def)
  with Suc show ?case by (auto simp: present_Suc)
qed

lemma count_batches_nth:
  assumes "length bs = Suc l"
  shows "length (filter (\<lambda>a. a \<noteq> 0) bs) = length (filter (\<lambda>i. bs ! i \<noteq> 0) [0 ..< l]) + (if bs ! l = 0 then 0 else 1)"
proof -
  have "filter (\<lambda>a. a \<noteq> 0) bs = map ((!) bs) (filter (\<lambda>i. bs ! i \<noteq> 0) [0 ..< Suc l])"
    using assms by (metis (no_types, lifting) comp_apply filter_cong filter_map map_nth)
  then show ?thesis by simp
qed


definition two_config :: config where
  "two_config = cmake_config\<lparr>LEVEL_FACTOR := 2\<rparr>"

definition queue_sample :: queue_state where
  "queue_sample = \<lparr>qs_level = sample_level\<lparr>li_sstable_infos :=
       replicate 2 (new_sstable_info cmake_config (new_wait_queue 0 True) (\<lambda>_. 0) 0)\<rparr>,
     qs_batches = [4, 0, 9], qs_inserted = [False, False], qs_contend = [Some False, Some False], qs_num_queued = 0\<rparr>"


text \<open>On a level whose wait queues are shared between threads nothing can be queued at all.\<close>

lemma queue_shared_stuck:
  assumes "queue_ok c st" "qs_num_queued st < goal"
    and "\<forall>i < LEVEL_FACTOR c. \<not> wq_is_single_thread (level_wq (qs_level st) i) \<and>
      wq_atomic_producer_guard (level_wq (qs_level st) i) = 1"
  shows "queue_loop c spurious n goal st = None"
proof -
  have "queue_one c sp i st = Inr st" if "i < LEVEL_FACTOR c" for i sp
    using that assms(1,3) by (simp add: queue_one_def queue_ok_def cas_weak_def)
  then have "queue_round c sp st = Inr st" for sp
    using rfold_Inr [of "[0 ..< LEVEL_FACTOR c]" "\<lambda>s. s = st" "\<lambda>i. queue_one c (sp i) i" "\<lambda>i s. s" st]
    by (auto simp: queue_round_def)
  with assms(2) show ?thesis by (rule queue_loop_stuck [rotated])
qed

section \<open>What collecting buffers does\<close>

lemma keep_buffers_done: "bq_num_new_buffers q = 0 \<Longrightarrow> keep_buffers s q = Inr (s, q)"
  by (subst keep_buffers.simps) simp

text \<open>With more new buffers than the stock has room for, the stock is overrun.\<close>

lemma keep_buffers_overrun:
  assumes "ring_ok q" "unat (ss_insert_buffers_from s) \<le> length (ss_page_cache_buffers s)"
    and "length (ss_page_cache_buffers s) < unat (ss_insert_buffers_from s) + unat (bq_num_new_buffers q)"
    and "length (ss_page_cache_buffers s) < 2 ^ 32"
  shows "keep_buffers s q = Inl OutOfBounds"
  using assms
proof (induction s q rule: keep_buffers.induct)
  case (1 s q)
  let ?k = "unat (ss_insert_buffers_from s)"
  from 1(2) obtain q' where q': "bq_pop_front q = Inr (bq_queue q ! unat (bq_queue_front q), q')" "ring_ok q'"
    by (metis ring_ok_pop)
  have num: "bq_num_new_buffers q' = bq_num_new_buffers q - 1"
    using q'(1) by (auto simp: bq_pop_front_def rbind_eq_Inr split: if_splits)
  show ?case
  proof (cases "?k < length (ss_page_cache_buffers s)")
    case False
    then have "bq_num_new_buffers q \<noteq> 0" using 1(3,4) by auto
    then show ?thesis using False q'(1) by (subst keep_buffers.simps) simp
  next
    case True
    have nz: "bq_num_new_buffers q \<noteq> 0" using True 1(4) by auto
    have "unat (ss_insert_buffers_from s + 1) = ?k + 1"
      using True 1(5) by (simp add: unat_word_ariths)
    moreover have "unat (bq_num_new_buffers q') = unat (bq_num_new_buffers q) - 1"
      using nz num by (simp add: unat_minus_one)
    moreover have "0 < unat (bq_num_new_buffers q)" using nz by (simp add: unat_gt_0)
    ultimately show ?thesis
      using 1(1) [OF nz q'(1) refl] True 1(2-5) q' nz by (subst keep_buffers.simps) simp
  qed
qed

lemma blit_Cons:
  assumes "k + Suc (length ys) \<le> length xs"
  shows "blit xs k (y # ys) = blit (xs[k := y]) (Suc k) ys"
  using assms by (simp add: blit_def take_Suc_conv_app_nth)

lemma collect_buffer_fold:
  assumes "deq_n bq_pop_front n q = Inr (xs, q')" "k + n \<le> length bufs"
  shows "rfold collect_buffer [k ..< k + n] (bufs, q) = Inr (blit bufs k (map Some xs), q')"
  using assms
proof (induction n arbitrary: k bufs q xs)
  case 0
  then show ?case by (simp add: blit_def)
next
  case (Suc n)
  from Suc.prems(1) obtain x q1 ys where x: "bq_pop_front q = Inr (x, q1)" "deq_n bq_pop_front n q1 = Inr (ys, q')"
      "xs = x # ys" by (auto simp: rbind_eq_Inr)
  have "length ys = n" using x(2) by (induction n arbitrary: q1 ys) (auto simp: rbind_eq_Inr)
  moreover have "rfold collect_buffer [Suc k ..< Suc k + n] (bufs[k := Some x], q1) =
      Inr (blit (bufs[k := Some x]) (Suc k) (map Some ys), q')"
    using Suc.prems(2) by (intro Suc.IH [OF x(2)]) simp
  moreover have "[k ..< k + Suc n] = k # [Suc k ..< Suc k + n]" by (simp add: upt_conv_Cons del: upt_Suc)
  moreover have "collect_buffer k (bufs, q) = Inr (bufs[k := Some x], q1)"
    using x(1) Suc.prems(2) by (simp add: collect_buffer_def)
  ultimately show ?case using x(3) Suc.prems(2) by (simp add: blit_Cons del: upt_Suc)
qed

lemma deq_n_num_new:
  "deq_n bq_pop_front n q = Inr (xs, q') \<Longrightarrow> bq_num_new_buffers q' = bq_num_new_buffers q - of_nat n"
proof (induction n arbitrary: q xs)
  case (Suc n)
  then obtain x q1 ys where "bq_pop_front q = Inr (x, q1)" "deq_n bq_pop_front n q1 = Inr (ys, q')"
    by (auto simp: rbind_eq_Inr)
  moreover from this(1) have "bq_num_new_buffers q1 = bq_num_new_buffers q - 1"
    by (auto simp: bq_pop_front_def rbind_eq_Inr split: if_splits)
  ultimately show ?case using Suc.IH by (simp add: algebra_simps)
qed simp

text \<open>
  Collecting buffers for the SSTables of the next level. If new buffers have arrived and fit the
  local array, all of them are taken out of the queue, in order, and none is added to the SSTable's
  stock; since the counter of collected buffers is a different variable from the one used later,
  none is handed on either. If no buffer has arrived, one is taken from the empty queue
  nevertheless, the number of new buffers wraps around and the loop that keeps the remaining ones
  runs over the stock.
\<close>

lemma collect_buffers_result:
  assumes "bq_invar q" "unat (bq_num_new_buffers q) \<le> max_sstable_height c" "max_sstable_height c < 2 ^ 31"
    and "0 < max_sstable_height c" "unat (ss_insert_buffers_from s) \<le> length (ss_page_cache_buffers s)"
    and "length (ss_page_cache_buffers s) < 2 ^ 31"
  shows "if bq_num_new_buffers q = 0 then collect_buffers c s q = Inl OutOfBounds
    else \<exists>q'. collect_buffers c s q = Inr (s, q', map Some (take (unat (bq_num_new_buffers q)) (bq_contents q)) @
        replicate (max_sstable_height c - unat (bq_num_new_buffers q)) None) \<and> bq_num_new_buffers q' = 0"
proof -
  let ?n = "unat (bq_num_new_buffers q)" and ?none = "replicate (max_sstable_height c) None :: buf option list"
  have ring: "ring_ok q" using assms(1) by (simp add: bq_invar_def ring_ok_def)
  show ?thesis
  proof (cases "bq_num_new_buffers q = 0")
    case True
    have limit: "new_buffer_limit c q = 1" using True by (simp add: new_buffer_limit_def max_def)
    from ring obtain q1 where q1: "bq_pop_front q = Inr (bq_queue q ! unat (bq_queue_front q), q1)" "ring_ok q1"
      by (metis ring_ok_pop)
    have "bq_num_new_buffers q1 = -1" using q1(1) True by (auto simp: bq_pop_front_def rbind_eq_Inr split: if_splits)
    then have "keep_buffers s q1 = Inl OutOfBounds"
      using assms(5,6) by (intro keep_buffers_overrun [OF q1(2)]) simp_all
    then show ?thesis using True q1(1) limit assms(4) by (simp add: collect_buffers_def collect_buffer_def)
  next
    case False
    have len: "length (bq_contents q) = Suc ?n" by (simp add: bq_contents_def)
    have n: "?n < 2 ^ 31" using assms(2,3) by simp
    have limit: "nat (new_buffer_limit c q) = ?n"
      using False sint_of_small_nat [OF n] by (simp add: new_buffer_limit_def)
    from bq.deq_n_ok [OF assms(1), of ?n] len obtain q1 where
        q1: "deq_n bq_pop_front ?n q = Inr (take ?n (bq_contents q), q1)" by auto
    have "rfold collect_buffer [0 ..< ?n] (?none, q) = Inr (blit ?none 0 (map Some (take ?n (bq_contents q))), q1)"
      using collect_buffer_fold [OF q1, of 0 ?none] assms(2) by simp
    moreover have "bq_num_new_buffers q1 = 0" using deq_n_num_new [OF q1] by simp
    moreover have "blit ?none 0 (map Some (take ?n (bq_contents q))) =
        map Some (take ?n (bq_contents q)) @ replicate (max_sstable_height c - ?n) None"
      using len by (simp add: blit_def)
    ultimately show ?thesis using False
      by (simp add: collect_buffers_def limit keep_buffers_done release_guard_def)
  qed
qed

lemma collect_buffers_result_example:
  "\<exists>q'. collect_buffers cmake_config
      (new_sstable_info cmake_config (new_wait_queue 0 True) (\<lambda>_. 0) 0)
      \<lparr>bq_queue_front = 0, bq_back = 2, bq_cur_num_buffers = 22, bq_num_new_buffers = 2,
       bq_queue = [9, 7, 8, 0], bq_atomic_guard = 1, bq_is_single_thread = True\<rparr> =
    Inr (new_sstable_info cmake_config (new_wait_queue 0 True) (\<lambda>_. 0) 0, q',
      [Some 9, Some 7] @ replicate 18 None) \<and> bq_num_new_buffers q' = 0"
proof -
  let ?s = "new_sstable_info cmake_config (new_wait_queue 0 True) (\<lambda>_. 0) 0"
  let ?q = "\<lparr>bq_queue_front = 0, bq_back = 2, bq_cur_num_buffers = 22, bq_num_new_buffers = 2,
      bq_queue = [9, 7, 8, 0], bq_atomic_guard = 1, bq_is_single_thread = True\<rparr>"
  have "bq_invar ?q" by (simp add: bq_invar_def)
  moreover have "take 2 (bq_contents ?q) = [9, 7]" by (simp add: bq_contents_def upt_rec)
  moreover have "max_sstable_height cmake_config = 20" by (simp add: max_sstable_height_def)
  ultimately show ?thesis
    using collect_buffers_result [of ?q cmake_config ?s]
    by (simp add: new_sstable_info_def max_buffer_set_size_def)
qed

section \<open>The function as a whole\<close>

text \<open>
  No batch ever gets through \<open>insert_into_wqs\<close>: every call runs into undefined behaviour, on a
  level as \<open>set_is_single_thread\<close> leaves it by reading the flag nobody has set, and otherwise at the
  latest by writing behind the end of \<open>could_contend_with_consumer\<close>.
\<close>

lemma insert_into_wqs_fails:
  assumes "0 < LEVEL_FACTOR c"
  shows "\<exists>e. insert_into_wqs c mem spur1 spur2 level index_in_level a lis bs = Some (Inl e) \<and>
    (level < length lis \<and> li_is_single_thread (lis ! level) = None \<longrightarrow> e = Indeterminate)"
proof -
  have contend: "init_contend c = Inl OutOfBounds"
    using assms by (cases "LEVEL_FACTOR c") (simp_all add: init_contend_def upt_conv_Cons del: upt_Suc)
  show ?thesis
  proof (cases "rnth lis level")
    case (Inl e)
    then show ?thesis by (auto simp: insert_into_wqs_def rnth_def split: if_splits)
  next
    case (Inr li)
    show ?thesis
    proof (cases "li_is_single_thread li")
      case None
      then show ?thesis using Inr by (simp add: insert_into_wqs_def level_flag_def)
    next
      case (Some b)
      have "li = lis ! level" using Inr by (simp add: rnth_def split: if_splits)
      with Some Inr show ?thesis
        by (cases "decompose c mem a li bs"; cases "batch_deref bs a")
          (auto simp: insert_into_wqs_def level_flag_def contend Let_def)
    qed
  qed
qed

lemma insert_into_wqs_fails_example:
  "\<exists>e. insert_into_wqs cmake_config [] (\<lambda>_ _. False) (\<lambda>_ _. False) 0 0 1 [sample_level] sample_store = Some (Inl e)"
  using insert_into_wqs_fails [of cmake_config "[]" "\<lambda>_ _. False" "\<lambda>_ _. False" 0 0 1 "[sample_level]" sample_store]
  by auto

end
