(* ===== verification/Mem_Table.thy ===== *)
theory Mem_Table
  imports Search Sparse_Index
begin

text \<open>
  \<^verbatim>\<open>level_zero/memtable.hpp\<close>: a byte array of \<open>MEMTABLE_SIZE\<close> bytes and the number of bytes in
  use. Both operations search with byte offsets: the probe \<open>(left + right) >> 1\<close> is not rounded to
  an entry, while a step to the right is one entry long.
\<close>

record memtable =
  mt_data :: "byte list"
  mt_size :: nat

definition new_memtable :: "config \<Rightarrow> memtable" where
  "new_memtable c = \<lparr>mt_data = replicate (MEMTABLE_SIZE c) 0, mt_size = 0\<rparr>"

definition mt_search :: "config \<Rightarrow> key \<Rightarrow> memtable \<Rightarrow> nat res" where
  "mt_search c k t =
     search (MEMTABLE_ENTRY_LENGTH c)
       (\<lambda>mid. rbind (rslice (mt_data t) mid (KEY_LENGTH c)) (\<lambda>cell. Inr (memcmp cell k < 0)))
       0 (mt_size t)"

definition mt_read :: "config \<Rightarrow> key \<Rightarrow> memtable \<Rightarrow> byte list option res" where
  "mt_read c k t =
     rbind (mt_search c k t) (\<lambda>left.
       if left < mt_size t then
         rbind (rslice (mt_data t) left (KEY_LENGTH c)) (\<lambda>cell.
           if memcmp cell k = 0 then
             rbind (rslice (mt_data t) (left + KEY_LENGTH c) (VALUE_LENGTH c)) (\<lambda>v. Inr (Some v))
           else Inr None)
       else Inr None)"

text \<open>
  The shift loop of \<open>write\<close>: it counts \<open>i\<close> up by one but moves \<open>dest\<close> by a whole entry. The
  result is the final \<open>dest\<close>, the pending entry (\<open>buffer2\<close>) and the array.
\<close>

fun mt_shift :: "nat \<Rightarrow> nat \<Rightarrow> nat \<Rightarrow> byte list \<Rightarrow> byte list \<Rightarrow> (nat \<times> byte list \<times> byte list) res" where
  "mt_shift e 0 dest buffer2 d = Inr (dest, buffer2, d)"
| "mt_shift e (Suc n) dest buffer2 d =
     rbind (rslice d dest e) (\<lambda>buffer1.
       rbind (rblit d dest buffer2) (\<lambda>d'. mt_shift e n (dest + e) buffer1 d'))"

definition mt_write ::
    "config \<Rightarrow> key \<Rightarrow> byte list \<Rightarrow> nat \<Rightarrow> memtable \<Rightarrow> sparse_index \<Rightarrow> (memtable \<times> sparse_index) res" where
  "mt_write c k v table_num t index =
     rbind (mt_search c k t) (\<lambda>left.
       if left = mt_size t then
         rbind (rblit (mt_data t) (left + KEY_LENGTH c) v) (\<lambda>d.
           rbind (rslice v 0 (KEY_LENGTH c)) (\<lambda>vk.
             rbind (set_table_max_key c table_num vk index) (\<lambda>index'.
               Inr (t\<lparr>mt_data := d, mt_size := mt_size t + MEMTABLE_ENTRY_LENGTH c\<rparr>, index'))))
       else
         rbind (if left = 0
                then rbind (rslice v 0 (KEY_LENGTH c)) (\<lambda>vk. set_table_min_key c table_num vk index)
                else Inr index) (\<lambda>index'.
           rbind (mt_shift (MEMTABLE_ENTRY_LENGTH c) (mt_size t - left) left (k @ v) (mt_data t))
             (\<lambda>(dest, buffer2, d).
               rbind (rblit d dest buffer2) (\<lambda>d'.
                 Inr (t\<lparr>mt_data := d', mt_size := mt_size t + MEMTABLE_ENTRY_LENGTH c\<rparr>, index')))))"

definition mt_empty_out :: "config \<Rightarrow> memtable \<Rightarrow> memtable" where
  "mt_empty_out c t = t\<lparr>mt_data := replicate (MEMTABLE_SIZE c) 0\<rparr>"

section \<open>Searching\<close>

text \<open>Room for one more entry behind every byte in use keeps all probes inside the array.\<close>

definition mt_fits :: "config \<Rightarrow> memtable \<Rightarrow> bool" where
  "mt_fits c t \<longleftrightarrow> mt_size t + MEMTABLE_ENTRY_LENGTH c \<le> Suc (length (mt_data t))"

definition mt_position :: "config \<Rightarrow> key \<Rightarrow> memtable \<Rightarrow> nat" where
  "mt_position c k t =
     lower_bound (MEMTABLE_ENTRY_LENGTH c)
       (\<lambda>p. memcmp (block (mt_data t) p (KEY_LENGTH c)) k < 0) 0 (mt_size t)"

lemma mt_search_position:
  assumes "mt_fits c t"
  shows "mt_search c k t = Inr (mt_position c k t)"
  unfolding mt_search_def mt_position_def
  using assms by (intro search_pure) (simp add: mt_fits_def MEMTABLE_ENTRY_LENGTH_def)

text \<open>The search ends at offset 0 or at least one entry behind it.\<close>

lemma mt_position_far: "mt_position c k t = 0 \<or> MEMTABLE_ENTRY_LENGTH c \<le> mt_position c k t"
  unfolding mt_position_def using lower_bound_below le_add2 by metis

text \<open>
  C29. Reading a memtable stays inside its array when there is room for one entry behind the bytes in
  use, and a value it returns was stored right behind an occurrence of the key in use.
\<close>

theorem mt_read_sound:
  assumes "mt_fits c t" "length k = KEY_LENGTH c"
  shows "\<exists>r. mt_read c k t = Inr r \<and>
    (\<forall>v. r = Some v \<longrightarrow> (\<exists>p < mt_size t. block (mt_data t) p (KEY_LENGTH c) = k \<and>
       v = block (mt_data t) (p + KEY_LENGTH c) (VALUE_LENGTH c)))"
proof -
  let ?p = "mt_position c k t"
  show ?thesis
  proof (cases "?p < mt_size t")
    case False
    then show ?thesis using assms by (simp add: mt_read_def mt_search_position)
  next
    case True
    have fit: "?p + KEY_LENGTH c + VALUE_LENGTH c \<le> length (mt_data t)"
      using True assms(1) by (simp add: mt_fits_def MEMTABLE_ENTRY_LENGTH_def)
    then have "memcmp (block (mt_data t) ?p (KEY_LENGTH c)) k = 0 \<longleftrightarrow>
        block (mt_data t) ?p (KEY_LENGTH c) = k"
      using assms(2) by (intro memcmp_eq) simp
    with True fit assms(1) show ?thesis
      by (auto simp: mt_read_def mt_search_position)
  qed
qed

theorem mt_read_sound_witness:
  "\<exists>r. mt_read cmake_config [5] \<lparr>mt_data = [5, 1, 2, 0, 0, 0], mt_size = 3\<rparr> = Inr r \<and>
    (\<forall>v. r = Some v \<longrightarrow> (\<exists>p < 3. block [5, 1, 2, 0, 0, 0] p 1 = [5 :: byte] \<and>
       v = block [5, 1, 2, 0, 0, 0] (p + 1) 2))"
  using mt_read_sound [of cmake_config "\<lparr>mt_data = [5, 1, 2, 0, 0, 0], mt_size = 3\<rparr>" "[5]"]
  by (simp add: mt_fits_def MEMTABLE_ENTRY_LENGTH_def)

section \<open>Writing\<close>

text \<open>The shift loop followed by the last copy inserts a block and moves \<open>e * n\<close> bytes.\<close>

lemma mt_shift_insert:
  assumes "length buf = e" "0 < e"
  shows "rbind (mt_shift e n dest buf d) (\<lambda>(dest', buf', d'). rblit d' dest' buf') =
    (if dest + e * n + e \<le> length d then Inr (blit d dest (buf @ block d dest (e * n)))
     else Inl OutOfBounds)"
  using assms(1)
proof (induction n arbitrary: dest buf d)
  case 0
  then show ?case by simp
next
  case (Suc n)
  show ?case
  proof (cases "dest + e \<le> length d")
    case False
    then show ?thesis by simp
  next
    case True
    let ?d1 = "blit d dest buf"
    have len: "length ?d1 = length d" using True Suc.prems by simp
    have IH: "rbind (mt_shift e n (dest + e) (block d dest e) ?d1) (\<lambda>(dest', buf', d'). rblit d' dest' buf') =
        (if dest + e + e * n + e \<le> length d
         then Inr (blit ?d1 (dest + e) (block d dest e @ block ?d1 (dest + e) (e * n)))
         else Inl OutOfBounds)"
      using Suc.IH [of "block d dest e" "dest + e" ?d1] True len by simp
    have "blit ?d1 (dest + e) (block d dest e @ block ?d1 (dest + e) (e * n)) =
        blit d dest (buf @ block d dest (e * Suc n))" if "dest + e + e * n + e \<le> length d"
    proof -
      have "block ?d1 (dest + e) (e * n) = block d (dest + e) (e * n)"
        using that Suc.prems by (intro block_blit_disjoint) auto
      then show ?thesis
        using blit_adjacent [of dest buf d] True Suc.prems by (simp add: block_append)
    qed
    with IH True Suc.prems show ?thesis
      by (simp add: rbind_assoc add.assoc)
  qed
qed



text \<open>
  The first write into an empty memtable stores the value but not the key: the key bytes stay
  null, the table's recorded largest key becomes the first bytes of the value, and no proper key
  can be read from the table afterwards.
\<close>

lemma mt_first_write:
  assumes "length k = KEY_LENGTH c" "length v = VALUE_LENGTH c" "KEY_LENGTH c \<le> VALUE_LENGTH c"
    and "2 * MEMTABLE_ENTRY_LENGTH c \<le> MEMTABLE_SIZE c" "n < LEVEL_FACTOR c" "si_invar c index"
  shows "\<exists>t' index'. mt_write c k v n (new_memtable c) index = Inr (t', index') \<and>
    mt_size t' = MEMTABLE_ENTRY_LENGTH c \<and>
    block (mt_data t') 0 (KEY_LENGTH c) = null_key (KEY_LENGTH c) \<and>
    block (mt_data t') (KEY_LENGTH c) (VALUE_LENGTH c) = v \<and>
    max_key_of c index' n = Inr (take (KEY_LENGTH c) v) \<and>
    (\<forall>k'. length k' = KEY_LENGTH c \<and> k' \<noteq> null_key (KEY_LENGTH c) \<longrightarrow> mt_read c k' t' = Inr None)"
proof -
  let ?kl = "KEY_LENGTH c" and ?e = "MEMTABLE_ENTRY_LENGTH c" and ?t = "new_memtable c"
  let ?d = "blit (mt_data ?t) ?kl v"
  let ?t' = "?t\<lparr>mt_data := ?d, mt_size := ?e\<rparr>"
  have sz: "?kl + length v = ?e" "length (mt_data ?t) = MEMTABLE_SIZE c" "mt_size ?t = 0"
    using assms(2) by (simp_all add: MEMTABLE_ENTRY_LENGTH_def new_memtable_def)
  have "?e \<le> MEMTABLE_SIZE c" using assms(4) by simp
  then have fits: "mt_fits c ?t" "?kl + length v \<le> length (mt_data ?t)"
    using sz by (simp_all add: mt_fits_def)
  have pos: "mt_position c k ?t = 0" by (simp add: mt_position_def sz)
  from max_slot.set_slot_ok [OF assms(6,5), of "take ?kl v"] assms(2,3) obtain index' where
      ix: "set_table_max_key c n (take ?kl v) index = Inr index'" "max_key_of c index' n = Inr (take ?kl v)"
    by auto
  have w: "mt_write c k v n ?t index = Inr (?t', index')"
    using fits sz pos ix(1) assms(2,3)
    by (simp add: mt_write_def mt_search_position block_def)
  have lend: "length ?d = MEMTABLE_SIZE c" using fits sz by simp
  have nul: "block ?d 0 ?kl = null_key ?kl"
  proof -
    have "block ?d 0 ?kl = block (mt_data ?t) 0 ?kl"
      using fits(2) by (intro block_blit_disjoint) auto
    then show ?thesis
      using \<open>?e \<le> MEMTABLE_SIZE c\<close> sz by (simp add: new_memtable_def block_replicate null_key_def)
  qed
  have val: "block ?d ?kl (VALUE_LENGTH c) = v"
    using fits(2) assms(2) by (intro block_blit_same) auto
  have "mt_read c k' ?t' = Inr None" if "length k' = ?kl" "k' \<noteq> null_key ?kl" for k'
  proof -
    have fits': "mt_fits c ?t'" using assms(4) lend by (simp add: mt_fits_def)
    have "memcmp (null_key ?kl) k' \<noteq> 0" using that by (simp add: memcmp_eq)
    moreover have "mt_position c k' ?t' = 0 \<or> ?e \<le> mt_position c k' ?t'" by (rule mt_position_far)
    ultimately show ?thesis
      using nul lend \<open>?e \<le> MEMTABLE_SIZE c\<close> sz(1) fits'
      by (auto simp: mt_read_def mt_search_position)
  qed
  with w nul val ix(2) show ?thesis by (intro exI [of _ ?t'] exI [of _ index']) simp
qed

lemma mt_first_write_example:
  "\<exists>t' index'. mt_write cmake_config [97] [98, 98] 3 (new_memtable cmake_config) (new_sparse_index cmake_config) =
      Inr (t', index') \<and> mt_size t' = 3 \<and> max_key_of cmake_config index' 3 = Inr [98] \<and>
      mt_read cmake_config [97] t' = Inr None"
proof -
  have "si_invar cmake_config (new_sparse_index cmake_config)"
    by (simp add: si_invar_def new_sparse_index_def)
  then show ?thesis
    using mt_first_write [of "[97]" cmake_config "[98, 98]" 3 "new_sparse_index cmake_config"]
    by (auto simp: MEMTABLE_ENTRY_LENGTH_def MEMTABLE_SIZE_def null_key_def)
qed

text \<open>Emptying a memtable clears its bytes but keeps its size.\<close>

lemma mt_empty_out_size [simp]: "mt_size (mt_empty_out c t) = mt_size t"
  by (simp add: mt_empty_out_def)

end
