(* ===== verification/Main_Thread.thy ===== *)
theory Main_Thread
  imports Dispatch Mem_Table
begin

text \<open>
  The loop of \<open>LSMTree::start_ringdb\<close> in \<^verbatim>\<open>lsm_tree.hpp\<close>: what the main thread does with a batch
  of client requests. A read is answered from a memtable or moved to the batch of reads for the first
  level; a write goes to a memtable, which is turned into a compaction first when it is full. The
  batch goes back to the network thread afterwards.
\<close>

section \<open>State\<close>

record main_state =
  mn_mem :: "byte list"
  mn_memtables :: "memtable list"
  mn_sparse_index :: sparse_index
  mn_levels :: "level_info list"
  mn_store :: batch_store
  mn_read_batch :: nat
  mn_compaction_batch :: nat
  mn_is_practically_full :: bool
  mn_sent :: "nat list"

section \<open>The cases of a request\<close>

text \<open>\<open>this->insert_into_wqs(0, this->level_infos, batch)\<close>.\<close>

definition send_down ::
    "config \<Rightarrow> (nat \<Rightarrow> nat \<Rightarrow> bool) \<Rightarrow> nat \<Rightarrow> main_state \<Rightarrow> main_state res option" where
  "send_down c spurious a st =
     lbind (insert_into_wqs c (mn_mem st) spurious spurious 0 0 a (mn_levels st) (mn_store st)) (\<lambda>(lis, bs).
       Some (Inr (st\<lparr>mn_levels := lis, mn_store := bs\<rparr>)))"

text \<open>\<open>rw_pool.remove_via_index(i)\<close> on the batch at address \<open>a\<close>.\<close>

definition store_remove :: "nat \<Rightarrow> nat \<Rightarrow> batch_store \<Rightarrow> batch_store res" where
  "store_remove a i bs =
     rbind (batch_deref bs a) (\<lambda>b.
       rbind (batch_pool b) (\<lambda>p.
         rbind (remove_via_index i p) (\<lambda>p'. Inr (batch_put a (b\<lparr>rb_content := Pool p'\<rparr>) bs))))"

text \<open>A read that no memtable can answer.\<close>

definition read_miss ::
    "config \<Rightarrow> (nat \<Rightarrow> nat \<Rightarrow> bool) \<Rightarrow> nat \<Rightarrow> nat \<Rightarrow> conn_req \<Rightarrow> main_state \<Rightarrow> main_state res option" where
  "read_miss c spurious a i r st =
     lbind (Some (store_insert_read_write c (mn_mem st) (mn_read_batch st) (cr_buffer r) (cr_client_sock_fd r) READ (mn_store st))) (\<lambda>bs.
       let st1 = st\<lparr>mn_store := bs\<rparr>
       in lbind (Some (rbind (batch_deref bs (mn_read_batch st)) batch_pool)) (\<lambda>p.
            lbind (if rw_length p = BATCH_NUM_REQUESTS c then send_down c spurious (mn_read_batch st) st1
                   else Some (Inr st1)) (\<lambda>st2.
              Some (rbind (store_remove a i (mn_store st2)) (\<lambda>bs'. Inr (st2\<lparr>mn_store := bs'\<rparr>))))))"

definition handle_read ::
    "config \<Rightarrow> (nat \<Rightarrow> nat \<Rightarrow> bool) \<Rightarrow> nat \<Rightarrow> nat \<Rightarrow> conn_req \<Rightarrow> key \<Rightarrow> uint \<Rightarrow> main_state \<Rightarrow> main_state res option" where
  "handle_read c spurious a i r k table_num st =
     (if table_num = -1 then read_miss c spurious a i r st
      else lbind (Some (rbind (rnth (mn_memtables st) (unat table_num)) (mt_read c k))) (\<lambda>found.
             case found of
               None \<Rightarrow> read_miss c spurious a i r st
             | Some v \<Rightarrow> Some (rbind (rblit (mn_mem st) (cr_buffer r + 5 + KEY_LENGTH c) v) (\<lambda>mem.
                 Inr (st\<lparr>mn_mem := mem\<rparr>)))))"

text \<open>\<open>this->memtables[table_num].write(key, value, table_num, memtable_sparse_index)\<close>.\<close>

definition write_entry :: "config \<Rightarrow> key \<Rightarrow> byte list \<Rightarrow> nat \<Rightarrow> main_state \<Rightarrow> main_state res" where
  "write_entry c k v table_num st =
     rbind (rnth (mn_memtables st) table_num) (\<lambda>t.
       rbind (mt_write c k v table_num t (mn_sparse_index st)) (\<lambda>(t', index).
         rbind (rupd (mn_memtables st) table_num t') (\<lambda>ts.
           Inr (st\<lparr>mn_memtables := ts, mn_sparse_index := index\<rparr>))))"

text \<open>\<open>compaction_batch->content.req_seg.insert_memtable(this->memtables[table_num].data)\<close>.\<close>

definition segment_memtable :: "config \<Rightarrow> memtable \<Rightarrow> main_state \<Rightarrow> main_state res option" where
  "segment_memtable c t st =
     lbind (Some (rbind (batch_deref (mn_store st) (mn_compaction_batch st)) (\<lambda>b.
              rbind (batch_segment b) (\<lambda>seg. Inr (b, seg))))) (\<lambda>(b, seg).
       lbind (insert_memtable c (mt_data t) seg) (\<lambda>seg'.
         Some (Inr (st\<lparr>mn_store := batch_put (mn_compaction_batch st) (b\<lparr>rb_content := Segment seg'\<rparr>) (mn_store st)\<rparr>))))"

text \<open>
  A full memtable: forget its range, turn it into a segment, clear it and send the segment down. (The
  note to the client that the database is nearly full is a \<open>memcpy\<close> of \<open>'\0'\<close>, that is 0, bytes.)
\<close>

definition flush_memtable :: "config \<Rightarrow> (nat \<Rightarrow> nat \<Rightarrow> bool) \<Rightarrow> nat \<Rightarrow> main_state \<Rightarrow> main_state res option" where
  "flush_memtable c spurious table_num st =
     lbind (Some (rbind (remove_table c table_num (mn_sparse_index st)) (\<lambda>index.
              rbind (rnth (mn_memtables st) table_num) (\<lambda>t. Inr (index, t))))) (\<lambda>(index, t).
       lbind (segment_memtable c t (st\<lparr>mn_sparse_index := index\<rparr>)) (\<lambda>st1.
         lbind (Some (rupd (mn_memtables st1) table_num (mt_empty_out c t))) (\<lambda>ts.
           send_down c spurious (mn_compaction_batch st1) (st1\<lparr>mn_memtables := ts\<rparr>))))"

definition handle_write ::
    "config \<Rightarrow> (nat \<Rightarrow> nat \<Rightarrow> bool) \<Rightarrow> conn_req \<Rightarrow> key \<Rightarrow> nat \<Rightarrow> main_state \<Rightarrow> main_state res option" where
  "handle_write c spurious r k table_num st =
     lbind (Some (rnth (mn_memtables st) table_num)) (\<lambda>t.
       lbind (if mt_size t < MEMTABLE_SIZE c then Some (Inr st) else flush_memtable c spurious table_num st) (\<lambda>st1.
         Some (rbind (rslice (mn_mem st1) (cr_buffer r + 5 + KEY_LENGTH c) (VALUE_LENGTH c)) (\<lambda>v.
           write_entry c k v table_num st1))))"

section \<open>The loop\<close>

definition handle_request ::
    "config \<Rightarrow> (nat \<Rightarrow> nat \<Rightarrow> bool) \<Rightarrow> nat \<Rightarrow> nat \<Rightarrow> main_state \<Rightarrow> main_state res option" where
  "handle_request c spurious a i st =
     lbind (Some (rbind (batch_deref (mn_store st) a) (\<lambda>b.
              rbind (batch_pool b) (\<lambda>p.
                rbind (cell (rw_data p) i) (\<lambda>r.
                  rbind (request_key c (mn_mem st) (cr_buffer r)) (\<lambda>k.
                    rbind (get_table_num c k (mn_sparse_index st)) (\<lambda>(table_num, index).
                      Inr (r, k, table_num, index)))))))) (\<lambda>(r, k, table_num, index).
       let st1 = st\<lparr>mn_sparse_index := index\<rparr>
       in if memcmp k (null_key (KEY_LENGTH c)) = 0 then
            Some (rbind (rfill (mn_mem st1) (cr_buffer r) (cr_buffer r + SOCKET_BUFFER_LENGTH c) 0) (\<lambda>mem.
              Inr (st1\<lparr>mn_mem := mem\<rparr>)))
          else if cr_req_type r = READ then handle_read c spurious a i r k table_num st1
          else handle_write c spurious r k (unat table_num) st1)"

text \<open>One round: the requests of the batch in turn, then the message to the network thread.\<close>

definition main_round :: "config \<Rightarrow> (nat \<Rightarrow> nat \<Rightarrow> bool) \<Rightarrow> nat \<Rightarrow> main_state \<Rightarrow> main_state res option" where
  "main_round c spurious a st =
     lbind (Some (rbind (batch_deref (mn_store st) a) batch_pool)) (\<lambda>p.
       lbind (lfold (handle_request c spurious a) [0 ..< rw_length p] st) (\<lambda>st'.
         Some (Inr (st'\<lparr>mn_sent := mn_sent st' @ [a]\<rparr>))))"

section \<open>Writes to a new database\<close>

text \<open>The request at \<open>i\<close> of the batch at \<open>a\<close>, with a key the code takes for one.\<close>

definition pending :: "config \<Rightarrow> nat \<Rightarrow> nat \<Rightarrow> conn_req \<Rightarrow> main_state \<Rightarrow> bool" where
  "pending c a i r st \<longleftrightarrow>
     rbind (batch_deref (mn_store st) a) (\<lambda>b. rbind (batch_pool b) (\<lambda>p. cell (rw_data p) i)) = Inr r \<and>
     has_key c (mn_mem st) (cr_buffer r) \<and> key_at c (mn_mem st) (cr_buffer r) \<noteq> null_key (KEY_LENGTH c)"

lemma handle_request_fresh:
  assumes "pending c a i r st" "max_keys_null c (mn_sparse_index st)"
  shows "\<exists>index. max_keys_null c index \<and> handle_request c spurious a i st =
    (if cr_req_type r = READ then read_miss c spurious a i r (st\<lparr>mn_sparse_index := index\<rparr>)
     else handle_write c spurious r (key_at c (mn_mem st) (cr_buffer r)) 4294967295 (st\<lparr>mn_sparse_index := index\<rparr>))"
proof -
  let ?k = "key_at c (mn_mem st) (cr_buffer r)"
  have k: "length ?k = KEY_LENGTH c" "?k \<noteq> null_key (KEY_LENGTH c)" "has_key c (mn_mem st) (cr_buffer r)"
    using assms(1) by (simp_all add: pending_def)
  from get_table_num_fresh [OF assms(2) k(1,2)] obtain index where
      index: "get_table_num c ?k (mn_sparse_index st) = Inr (-1, index)" "max_keys_null c index" by blast
  from assms(1) obtain b p where "batch_deref (mn_store st) a = Inr b" "batch_pool b = Inr p" "cell (rw_data p) i = Inr r"
    by (auto simp: pending_def rbind_eq_Inr)
  moreover have "memcmp ?k (null_key (KEY_LENGTH c)) \<noteq> 0" using k(1,2) by (simp add: memcmp_eq)
  ultimately show ?thesis using index k(3)
    by (intro exI [of _ index]) (simp add: handle_request_def handle_read_def)
qed


definition sample_main :: "batch_store \<Rightarrow> main_state" where
  "sample_main bs = \<lparr>mn_mem = sample_mem, mn_memtables = replicate 10 (new_memtable sample_config),
     mn_sparse_index = new_sparse_index sample_config, mn_levels = [], mn_store = bs, mn_read_batch = 2,
     mn_compaction_batch = 3, mn_is_practically_full = False, mn_sent = []\<rparr>"


section \<open>What leaves the main thread\<close>

lemma send_down_fails: "0 < LEVEL_FACTOR c \<Longrightarrow> send_down c spurious a st \<noteq> Some (Inr st')"
  using insert_into_wqs_fails [of c "mn_mem st" spurious spurious 0 0 a "mn_levels st" "mn_store st"]
  by (auto simp: send_down_def lbind_eq_Inr)

lemma read_miss_levels:
  assumes "0 < LEVEL_FACTOR c" "read_miss c spurious a i r st = Some (Inr st')"
  shows "mn_levels st' = mn_levels st"
  using assms(2) send_down_fails [OF assms(1)]
  by (auto simp: read_miss_def Let_def lbind_eq_Inr rbind_eq_Inr split: if_splits)

lemma handle_read_levels:
  assumes "0 < LEVEL_FACTOR c" "handle_read c spurious a i r k table_num st = Some (Inr st')"
  shows "mn_levels st' = mn_levels st"
  using assms(2) read_miss_levels [OF assms(1)]
  by (auto simp: handle_read_def lbind_eq_Inr rbind_eq_Inr split: if_splits option.splits)

lemma flush_memtable_fails:
  assumes "0 < LEVEL_FACTOR c"
  shows "flush_memtable c spurious table_num st \<noteq> Some (Inr st')"
  using send_down_fails [OF assms] by (auto simp: flush_memtable_def lbind_eq_Inr)

lemma handle_write_levels:
  assumes "0 < LEVEL_FACTOR c" "handle_write c spurious r k table_num st = Some (Inr st')"
  shows "mn_levels st' = mn_levels st"
  using assms(2) flush_memtable_fails [OF assms(1)]
  by (auto simp: handle_write_def write_entry_def lbind_eq_Inr rbind_eq_Inr split: if_splits prod.splits)

lemma handle_request_levels:
  assumes "0 < LEVEL_FACTOR c" "handle_request c spurious a i st = Some (Inr st')"
  shows "mn_levels st' = mn_levels st"
  using assms(2)
  by (auto simp: handle_request_def Let_def lbind_eq_Inr rbind_eq_Inr split: if_splits prod.splits
      dest!: handle_read_levels [OF assms(1)] handle_write_levels [OF assms(1)])

text \<open>
  Nothing ever leaves the main thread for the SSTables: a round that does not run into undefined
  behaviour has changed no level, because a batch of reads that is full and a memtable that is full
  both go through \<open>insert_into_wqs\<close>.
\<close>

lemma main_round_levels:
  assumes "0 < LEVEL_FACTOR c" "main_round c spurious a st = Some (Inr st')"
  shows "mn_levels st' = mn_levels st"
proof -
  from assms(2) obtain p :: readwrite_pool and st1 where "lfold (handle_request c spurious a) [0 ..< rw_length p] st = Some (Inr st1)"
      "st' = st1\<lparr>mn_sent := mn_sent st1 @ [a]\<rparr>" by (auto simp: main_round_def lbind_eq_Inr)
  moreover from this(1) have "mn_levels st1 = mn_levels st"
    by (rule lfold_invariant [where P = "\<lambda>t. mn_levels t = mn_levels st"])
      (use handle_request_levels [OF assms(1)] in auto)
  ultimately show ?thesis by simp
qed

section \<open>Reads from a new database\<close>

definition gone_request :: "conn_req \<Rightarrow> conn_req" where
  "gone_request r = r\<lparr>cr_client_sock_fd := -1\<rparr>"

lemma remove_via_index_ok:
  assumes "rw_invar c mem p" "i < rw_length p"
  shows "\<exists>p'. remove_via_index i p = Inr p' \<and> rw_invar c mem p' \<and> rw_length p' = rw_length p \<and>
    rw_num_sent p' = rw_num_sent p \<and> rw_entries p' = (rw_entries p)[i := gone_request (rw_entries p ! i)]"
proof -
  let ?r = "rw_entries p ! i"
  let ?p' = "p\<lparr>rw_data := (rw_data p)[i := Some (gone_request ?r)]\<rparr>"
  note at = rw_data_nth [OF assms]
  have es: "rw_entries ?p' = (rw_entries p)[i := gone_request ?r]"
    by (simp add: rw_entries_def take_update_swap map_update)
  have buf: "map cr_buffer (rw_entries ?p') = map cr_buffer (rw_entries p)"
    using length_rw_entries [OF assms(1)] assms(2) unfolding es
    by (intro nth_equalityI) (auto simp: nth_list_update gone_request_def)
  have "map (key_at c mem \<circ> cr_buffer) (rw_entries ?p') = map (key_at c mem \<circ> cr_buffer) (rw_entries p)"
    by (metis buf map_map)
  moreover have "\<forall>r \<in> set (rw_entries ?p'). has_key c mem (cr_buffer r)"
  proof -
    have "cr_buffer ` set (rw_entries ?p') = cr_buffer ` set (rw_entries p)" by (metis buf list.set_map)
    moreover have "\<forall>b \<in> cr_buffer ` set (rw_entries p). has_key c mem b" using assms(1) by (simp add: rw_invar_def)
    ultimately show ?thesis by (metis image_eqI)
  qed
  moreover have "None \<notin> set (take (rw_length p) (rw_data ?p'))"
    using assms by (auto simp: take_update_swap rw_invar_def dest!: set_update_subset_insert [THEN subsetD])
  ultimately have "rw_invar c mem ?p'" using assms by (simp add: rw_invar_def)
  then show ?thesis using at es by (simp add: remove_via_index_def gone_request_def)
qed

text \<open>
  The state after the first \<open>n\<close> requests \<open>es\<close> of batch \<open>a\<close> have been moved to the batch of reads,
  which had the requests \<open>old\<close> before.
\<close>

definition moved :: "nat \<Rightarrow> conn_req \<Rightarrow> conn_req" where
  "moved a r = \<lparr>cr_req_type = READ, cr_req_batch_ref = Some a, cr_client_sock_fd = cr_client_sock_fd r, cr_buffer = cr_buffer r\<rparr>"

definition reads_moved ::
    "config \<Rightarrow> nat \<Rightarrow> RequestType \<Rightarrow> conn_req list \<Rightarrow> conn_req multiset \<Rightarrow> nat \<Rightarrow> main_state \<Rightarrow> bool" where
  "reads_moved c a t es old n st \<longleftrightarrow>
     (\<exists>ba p br q. batch_deref (mn_store st) a = Inr ba \<and> rb_req_type ba = t \<and> rb_content ba = Pool p \<and> rw_invar c (mn_mem st) p \<and>
        rw_length p = length es \<and> rw_num_sent p = 0 \<and>
        rw_entries p = map gone_request (take n es) @ drop n es \<and>
        batch_deref (mn_store st) (mn_read_batch st) = Inr br \<and> batch_pool br = Inr q \<and>
        batch_invar c (mn_mem st) (mn_read_batch st) br \<and> rw_length q = size old + n \<and>
        mset (rw_entries q) = old + mset (map (moved (mn_read_batch st)) (take n es))) \<and>
     max_keys_null c (mn_sparse_index st)"

lemma batch_deref_put:
  "batch_deref bs a = Inr b \<Longrightarrow> batch_deref (batch_put a b' bs) a' = (if a' = a then Inr b' else batch_deref bs a')"
  by (auto simp: batch_deref_def batch_put_def split: if_splits option.splits)

lemma batch_deref_0: "batch_deref bs a = Inr b \<Longrightarrow> 0 < a"
  by (simp add: batch_deref_def split: if_splits)

lemma BATCH_NUM_REQUESTS_le: "BATCH_NUM_REQUESTS c \<le> PAGE_SIZE c"
  by (simp add: BATCH_NUM_REQUESTS_def)

text \<open>What a move does to the batch of reads and to the batch the request came in.\<close>

lemma insert_into_reads:
  assumes "batch_deref bs rb = Inr br" "batch_invar c mem rb br" "batch_pool br = Inr q" "has_key c mem (cr_buffer r)"
    and "rw_length q < PAGE_SIZE c"
  shows "\<exists>br' q'. store_insert_read_write c mem rb (cr_buffer r) (cr_client_sock_fd r) READ bs = Inr (batch_put rb br' bs) \<and>
    batch_invar c mem rb br' \<and> batch_pool br' = Inr q' \<and> rw_length q' = rw_length q + 1 \<and>
    mset (rw_entries q') = add_mset (moved rb r) (mset (rw_entries q))"
proof -
  let ?P = "\<lambda>e. key_at c mem (cr_buffer e) < key_at c mem (cr_buffer r)"
  from batch_insert_ok [OF assms(2,4,3,5), of "cr_client_sock_fd r" READ] obtain br' q' where
      br': "batch_insert_read_write c mem rb (cr_buffer r) (cr_client_sock_fd r) READ br = Inr br'"
        "batch_invar c mem rb br'" "batch_pool br' = Inr q'" "rw_length q' = rw_length q + 1"
      and es: "rw_entries q' = takeWhile ?P (rw_entries q) @ moved rb r # dropWhile ?P (rw_entries q)"
    by (auto simp: moved_def)
  have "mset (takeWhile ?P (rw_entries q)) + mset (dropWhile ?P (rw_entries q)) = mset (rw_entries q)"
    by (metis mset_append takeWhile_dropWhile_id)
  then have "mset (rw_entries q') = add_mset (moved rb r) (mset (rw_entries q))"
    unfolding es by simp
  then show ?thesis using assms(1) br'
    by (intro exI [of _ br'] exI [of _ q']) (simp add: store_insert_read_write_def)
qed

lemma store_remove_ok:
  assumes "batch_deref bs a = Inr ba" "rb_content ba = Pool p" "rw_invar c mem p" "i < rw_length p"
  shows "\<exists>p'. store_remove a i bs = Inr (batch_put a (ba\<lparr>rb_content := Pool p'\<rparr>) bs) \<and> rw_invar c mem p' \<and>
    rw_length p' = rw_length p \<and> rw_num_sent p' = rw_num_sent p \<and>
    rw_entries p' = (rw_entries p)[i := gone_request (rw_entries p ! i)]"
  using remove_via_index_ok [OF assms(3,4)] assms(1,2) by (auto simp: store_remove_def batch_pool_def)

lemma move_read:
  assumes inv: "reads_moved c a t es old n st" and n: "n < length es" and a: "a \<noteq> mn_read_batch st"
    and reads: "\<forall>r \<in> set es. cr_req_type r = READ \<and> key_at c (mn_mem st) (cr_buffer r) \<noteq> null_key (KEY_LENGTH c)"
    and room: "size old + length es < BATCH_NUM_REQUESTS c"
  shows "\<exists>index bs. handle_request c spurious a n st = Some (Inr (st\<lparr>mn_sparse_index := index, mn_store := bs\<rparr>)) \<and>
    reads_moved c a t es old (Suc n) (st\<lparr>mn_sparse_index := index, mn_store := bs\<rparr>)"
proof -
  let ?rb = "mn_read_batch st" and ?mem = "mn_mem st" and ?r = "es ! n"
  from inv obtain ba p br q where ba: "batch_deref (mn_store st) a = Inr ba" "rb_content ba = Pool p"
      "rw_invar c ?mem p" "rw_length p = length es" "rw_num_sent p = 0" "rw_entries p = map gone_request (take n es) @ drop n es"
    and br: "batch_deref (mn_store st) ?rb = Inr br" "batch_pool br = Inr q" "batch_invar c ?mem ?rb br"
      "rw_length q = size old + n" "mset (rw_entries q) = old + mset (map (moved ?rb) (take n es))"
    and null: "max_keys_null c (mn_sparse_index st)" and ty: "rb_req_type ba = t"
    by (auto simp: reads_moved_def)
  have r: "rw_entries p ! n = ?r" using n by (simp add: ba(6) nth_append)
  have np: "n < rw_length p" using n ba(4) by simp
  have key: "has_key c ?mem (cr_buffer ?r)" using rw_entries_has_key [OF ba(3) np] r by simp
  have "pending c a n ?r st"
    using ba(1,2) rw_data_nth [OF ba(3) np] r key reads n by (simp add: pending_def batch_pool_def)
  from handle_request_fresh [OF this null, of spurious] reads n obtain index where index: "max_keys_null c index"
      "handle_request c spurious a n st = read_miss c spurious a n ?r (st\<lparr>mn_sparse_index := index\<rparr>)" by auto
  have q: "rw_length q < PAGE_SIZE c" using br(4) n room BATCH_NUM_REQUESTS_le [of c] by linarith
  from insert_into_reads [OF br(1,3,2) key q] obtain br' q' where
      ins: "store_insert_read_write c ?mem ?rb (cr_buffer ?r) (cr_client_sock_fd ?r) READ (mn_store st) =
          Inr (batch_put ?rb br' (mn_store st))"
        "batch_invar c ?mem ?rb br'" "batch_pool br' = Inr q'" "rw_length q' = rw_length q + 1"
        "mset (rw_entries q') = add_mset (moved ?rb ?r) (mset (rw_entries q))" by blast
  let ?bs = "batch_put ?rb br' (mn_store st)"
  have at: "batch_deref ?bs ?rb = Inr br'" "batch_deref ?bs a = Inr ba"
    using a ba(1) batch_deref_put [OF br(1), of br'] by simp_all
  from store_remove_ok [OF at(2) ba(2,3) np] obtain p' where
      rem: "store_remove a n ?bs = Inr (batch_put a (ba\<lparr>rb_content := Pool p'\<rparr>) ?bs)" "rw_invar c ?mem p'"
        "rw_length p' = rw_length p" "rw_num_sent p' = rw_num_sent p" "rw_entries p' = (rw_entries p)[n := gone_request ?r]"
    using r by auto
  let ?bs' = "batch_put a (ba\<lparr>rb_content := Pool p'\<rparr>) ?bs"
  have "rw_length q' \<noteq> BATCH_NUM_REQUESTS c" using ins(4) br(4) n room by linarith
  then have run: "handle_request c spurious a n st = Some (Inr (st\<lparr>mn_sparse_index := index, mn_store := ?bs'\<rparr>))"
    using index(2) ins(1,3) at(1) rem(1) by (simp add: read_miss_def Let_def)
  have "rw_entries p' = map gone_request (take (Suc n) es) @ drop (Suc n) es"
    using n by (simp add: rem(5) ba(6) list_update_append take_Suc_conv_app_nth Cons_nth_drop_Suc [symmetric])
  moreover have "mset (rw_entries q') = old + mset (map (moved ?rb) (take (Suc n) es))"
    using n by (simp add: ins(5) br(5) take_Suc_conv_app_nth)
  moreover have "batch_deref ?bs' a = Inr (ba\<lparr>rb_content := Pool p'\<rparr>)" "batch_deref ?bs' ?rb = Inr br'"
    using a at batch_deref_put [OF at(2), of "ba\<lparr>rb_content := Pool p'\<rparr>"] by simp_all
  ultimately have "reads_moved c a t es old (Suc n) (st\<lparr>mn_sparse_index := index, mn_store := ?bs'\<rparr>)"
    using rem(2-4) ba(4,5) ins(2-4) br(4) index(1) ty by (simp add: reads_moved_def)
  with run show ?thesis by blast
qed


lemma move_reads:
  assumes "reads_moved c a t es old 0 st" "a \<noteq> mn_read_batch st" "n \<le> length es"
    and "\<forall>r \<in> set es. cr_req_type r = READ \<and> key_at c (mn_mem st) (cr_buffer r) \<noteq> null_key (KEY_LENGTH c)"
    and "size old + length es < BATCH_NUM_REQUESTS c"
  shows "\<exists>index bs. lfold (handle_request c spurious a) [0 ..< n] st =
      Some (Inr (st\<lparr>mn_sparse_index := index, mn_store := bs\<rparr>)) \<and>
    reads_moved c a t es old n (st\<lparr>mn_sparse_index := index, mn_store := bs\<rparr>)"
  using assms(3)
proof (induction n)
  case 0
  then show ?case using assms(1)
    by (intro exI [of _ "mn_sparse_index st"] exI [of _ "mn_store st"]) simp
next
  case (Suc n)
  then obtain index bs where
      IH: "lfold (handle_request c spurious a) [0 ..< n] st = Some (Inr (st\<lparr>mn_sparse_index := index, mn_store := bs\<rparr>))"
        "reads_moved c a t es old n (st\<lparr>mn_sparse_index := index, mn_store := bs\<rparr>)" by auto
  have "n < length es" using Suc.prems by simp
  with move_read [OF IH(2), of spurious] assms(2,4,5) obtain index' bs' where
      "handle_request c spurious a n (st\<lparr>mn_sparse_index := index, mn_store := bs\<rparr>) =
         Some (Inr (st\<lparr>mn_sparse_index := index', mn_store := bs'\<rparr>))"
      "reads_moved c a t es old (Suc n) (st\<lparr>mn_sparse_index := index', mn_store := bs'\<rparr>)" by auto
  with IH(1) show ?case by (auto simp: lfold_append)
qed

lemma main_round_reads:
  assumes "batch_deref (mn_store st) a = Inr ba" "rb_content ba = Pool p" "rw_invar c (mn_mem st) p" "rw_num_sent p = 0"
    and "batch_deref (mn_store st) (mn_read_batch st) = Inr br" "batch_pool br = Inr q"
    and "batch_invar c (mn_mem st) (mn_read_batch st) br" "a \<noteq> mn_read_batch st"
    and "\<forall>r \<in> set (rw_entries p). cr_req_type r = READ \<and> key_at c (mn_mem st) (cr_buffer r) \<noteq> null_key (KEY_LENGTH c)"
    and "rw_length q + rw_length p < BATCH_NUM_REQUESTS c" "max_keys_null c (mn_sparse_index st)"
  shows "\<exists>index bs ba' p' br' q'. main_round c spurious a st =
      Some (Inr (st\<lparr>mn_sparse_index := index, mn_store := bs, mn_sent := mn_sent st @ [a]\<rparr>)) \<and>
    batch_deref bs a = Inr ba' \<and> rb_content ba' = Pool p' \<and> rb_req_type ba' = rb_req_type ba \<and>
    rw_invar c (mn_mem st) p' \<and> rw_length p' = rw_length p \<and> rw_num_sent p' = 0 \<and>
    rw_entries p' = map gone_request (rw_entries p) \<and>
    batch_deref bs (mn_read_batch st) = Inr br' \<and> batch_pool br' = Inr q' \<and>
    batch_invar c (mn_mem st) (mn_read_batch st) br' \<and>
    mset (rw_entries q') = mset (rw_entries q) + mset (map (moved (mn_read_batch st)) (rw_entries p))"
proof -
  have len: "length (rw_entries p) = rw_length p" using assms(3) by (rule length_rw_entries)
  have "rw_invar c (mn_mem st) q" using assms(6,7) by (auto simp: batch_invar_def batch_pool_def)
  then have lenq: "length (rw_entries q) = rw_length q" by (rule length_rw_entries)
  have "reads_moved c a (rb_req_type ba) (rw_entries p) (mset (rw_entries q)) 0 st"
    using assms len lenq by (simp add: reads_moved_def)
  from move_reads [OF this assms(8) order.refl assms(9), of spurious] assms(10) len lenq obtain index bs where
      run: "lfold (handle_request c spurious a) [0 ..< length (rw_entries p)] st =
          Some (Inr (st\<lparr>mn_sparse_index := index, mn_store := bs\<rparr>))"
        "reads_moved c a (rb_req_type ba) (rw_entries p) (mset (rw_entries q)) (length (rw_entries p))
          (st\<lparr>mn_sparse_index := index, mn_store := bs\<rparr>)" by auto
  have main: "main_round c spurious a st =
      Some (Inr (st\<lparr>mn_sparse_index := index, mn_store := bs, mn_sent := mn_sent st @ [a]\<rparr>))"
    using run(1) len assms(1,2) by (simp add: main_round_def batch_pool_def)
  from run(2) obtain ba' p' br' q' where
      "batch_deref bs a = Inr ba'" "rb_content ba' = Pool p'" "rb_req_type ba' = rb_req_type ba"
      "rw_invar c (mn_mem st) p'" "rw_length p' = length (rw_entries p)" "rw_num_sent p' = 0"
      "rw_entries p' = map gone_request (rw_entries p)"
      "batch_deref bs (mn_read_batch st) = Inr br'" "batch_pool br' = Inr q'"
      "batch_invar c (mn_mem st) (mn_read_batch st) br'"
      "mset (rw_entries q') = mset (rw_entries q) + mset (map (moved (mn_read_batch st)) (rw_entries p))"
    by (auto simp: reads_moved_def)
  then show ?thesis
    by (intro exI [of _ index] exI [of _ bs] exI [of _ ba'] exI [of _ p'] exI [of _ br'] exI [of _ q'])
      (simp add: main len)
qed

text \<open>
  A batch of reads on a new database: every request is moved, with its client and buffer, to the
  batch of reads for the first level, which stays sorted; in the batch it came with its client is
  struck out; nothing else changes and the batch is sent back. (There is room in the batch of
  reads, so that nothing is sent down yet.)
\<close>

lemma main_round_moves_reads:
  assumes "batch_deref (mn_store st) a = Inr ba" "rb_content ba = Pool p" "rw_invar c (mn_mem st) p" "rw_num_sent p = 0"
    and "batch_deref (mn_store st) (mn_read_batch st) = Inr br" "batch_pool br = Inr q"
    and "batch_invar c (mn_mem st) (mn_read_batch st) br" "a \<noteq> mn_read_batch st"
    and "\<forall>r \<in> set (rw_entries p). cr_req_type r = READ \<and> key_at c (mn_mem st) (cr_buffer r) \<noteq> null_key (KEY_LENGTH c)"
    and "rw_length q + rw_length p < BATCH_NUM_REQUESTS c" "max_keys_null c (mn_sparse_index st)"
  shows "\<exists>index bs ba' p' br' q'. main_round c spurious a st =
      Some (Inr (st\<lparr>mn_sparse_index := index, mn_store := bs, mn_sent := mn_sent st @ [a]\<rparr>)) \<and>
    batch_deref bs a = Inr ba' \<and> batch_pool ba' = Inr p' \<and> rw_num_sent p' = 0 \<and>
    rw_entries p' = map gone_request (rw_entries p) \<and>
    batch_deref bs (mn_read_batch st) = Inr br' \<and> batch_pool br' = Inr q' \<and>
    batch_invar c (mn_mem st) (mn_read_batch st) br' \<and>
    mset (rw_entries q') = mset (rw_entries q) + mset (map (moved (mn_read_batch st)) (rw_entries p))"
proof -
  from main_round_reads [OF assms, of spurious] obtain index bs ba' p' br' q' where
      "main_round c spurious a st = Some (Inr (st\<lparr>mn_sparse_index := index, mn_store := bs, mn_sent := mn_sent st @ [a]\<rparr>))"
      "batch_deref bs a = Inr ba'" "rb_content ba' = Pool p'" "rw_num_sent p' = 0"
      "rw_entries p' = map gone_request (rw_entries p)"
      "batch_deref bs (mn_read_batch st) = Inr br'" "batch_pool br' = Inr q'"
      "batch_invar c (mn_mem st) (mn_read_batch st) br'"
      "mset (rw_entries q') = mset (rw_entries q) + mset (map (moved (mn_read_batch st)) (rw_entries p))"
    by blast
  then show ?thesis
    by (intro exI [of _ index] exI [of _ bs] exI [of _ ba'] exI [of _ p'] exI [of _ br'] exI [of _ q'])
      (simp add: batch_pool_def)
qed

definition read_pool :: readwrite_pool where
  "read_pool = \<lparr>rw_data = Some (sample_req 2 6) # Some (sample_req 1 0) # replicate 4094 None,
     rw_length = 2, rw_num_sent = 0, rw_present_in_level = None\<rparr>"

definition read_main :: main_state where
  "read_main = (sample_main [Some \<lparr>rb_req_type = READ, rb_content = Pool read_pool\<rparr>,
       Some \<lparr>rb_req_type = READ, rb_content = Pool new_readwrite_pool\<rparr>])
     \<lparr>mn_sparse_index := new_sparse_index cmake_config\<rparr>"

abbreviation (input) pool_batch :: "readwrite_pool \<Rightarrow> request_batch" where
  "pool_batch p \<equiv> \<lparr>rb_req_type = READ, rb_content = Pool p\<rparr>"

lemma read_pool_entries: "rw_entries read_pool = [sample_req 2 6, sample_req 1 0]"
  by (simp add: rw_entries_def read_pool_def)

lemma read_main_store:
  "batch_deref (mn_store read_main) 1 = Inr (pool_batch read_pool)"
  "batch_deref (mn_store read_main) (mn_read_batch read_main) = Inr (pool_batch new_readwrite_pool)"
  "batch_pool (pool_batch new_readwrite_pool) = Inr new_readwrite_pool"
  "mn_mem read_main = sample_mem" "mn_read_batch read_main = 2" "mn_sent read_main = []"
  "rw_num_sent read_pool = 0" "rw_length read_pool = 2" "rw_entries new_readwrite_pool = []"
  "max_keys_null cmake_config (mn_sparse_index read_main)"
  "rw_length new_readwrite_pool + rw_length read_pool < BATCH_NUM_REQUESTS cmake_config"
  by (simp_all add: read_main_def sample_main_def batch_deref_def batch_pool_def new_sparse_index_null)
    (simp_all add: read_pool_def new_readwrite_pool_def BATCH_NUM_REQUESTS_def SOCKET_BUFFER_LENGTH_def rw_entries_def)

lemma read_main_ready:
  "rw_invar cmake_config sample_mem read_pool"
  "batch_invar cmake_config sample_mem 2 (pool_batch new_readwrite_pool)"
  "\<forall>r \<in> set (rw_entries read_pool). cr_req_type r = READ \<and>
     key_at cmake_config sample_mem (cr_buffer r) \<noteq> null_key (KEY_LENGTH cmake_config)"
proof -
  have mem: "key_at cmake_config sample_mem 6 = [3]" "key_at cmake_config sample_mem 0 = [9]"
      "has_key cmake_config sample_mem 6" "has_key cmake_config sample_mem 0"
    by (simp_all add: key_at_def has_key_def sample_mem_def block_def)
  show "rw_invar cmake_config sample_mem read_pool"
    unfolding rw_invar_def read_pool_entries by (simp add: mem sample_req_def) (simp add: read_pool_def)
  show "batch_invar cmake_config sample_mem 2 (pool_batch new_readwrite_pool)"
    by (simp add: batch_invar_def rw_invar_def new_readwrite_pool_def rw_entries_def)
  show "\<forall>r \<in> set (rw_entries read_pool). cr_req_type r = READ \<and>
      key_at cmake_config sample_mem (cr_buffer r) \<noteq> null_key (KEY_LENGTH cmake_config)"
    unfolding read_pool_entries by (simp add: sample_req_def mem null_key_def)
qed

lemma main_round_moves_reads_example:
  "\<exists>st' br q. main_round cmake_config (\<lambda>_ _. False) 1 read_main = Some (Inr st') \<and> mn_sent st' = [1] \<and>
    batch_deref (mn_store st') 2 = Inr br \<and> batch_pool br = Inr q \<and>
    mset (map cr_client_sock_fd (rw_entries q)) = {#2, 1#}"
proof -
  obtain index bs br' q' where run: "main_round cmake_config (\<lambda>_ _. False) 1 read_main =
      Some (Inr (read_main\<lparr>mn_sparse_index := index, mn_store := bs, mn_sent := mn_sent read_main @ [1]\<rparr>))"
    and q': "batch_deref bs (mn_read_batch read_main) = Inr br'" "batch_pool br' = Inr q'"
      "mset (rw_entries q') = mset (rw_entries new_readwrite_pool) +
        mset (map (moved (mn_read_batch read_main)) (rw_entries read_pool))"
    using main_round_moves_reads [of read_main 1 "pool_batch read_pool" read_pool
        cmake_config "pool_batch new_readwrite_pool" new_readwrite_pool "\<lambda>_ _. False"]
      read_main_store read_main_ready by auto
  have "mset (map cr_client_sock_fd (rw_entries q')) = image_mset cr_client_sock_fd (mset (rw_entries q'))" by simp
  then have "mset (map cr_client_sock_fd (rw_entries q')) = {#2, 1#}"
    by (simp add: q'(3) read_main_store read_pool_entries moved_def sample_req_def)
  then show ?thesis using run q'(1,2) by (auto simp: read_main_store)
qed

end
