(* ===== verification/Shapes.thy ===== *)
theory Shapes
  imports Network Main_Thread
begin

text \<open>
  What every operation of the network and the main thread keeps whenever it is defined, whatever the
  bytes of the requests are and whoever calls it: the sizes of arrays, that the cells a pool counts
  have been written, that a connection's slot holds its own client, and that there is a submission
  entry to prepare.
\<close>

section \<open>Pools and the batch store\<close>

definition filled :: "nat \<Rightarrow> 'a option list \<Rightarrow> bool" where
  "filled n xs \<longleftrightarrow> n \<le> length xs \<and> (\<forall>i < n. xs ! i \<noteq> None)"

definition pool_shape :: "config \<Rightarrow> readwrite_pool \<Rightarrow> bool" where
  "pool_shape c p \<longleftrightarrow> rw_length p = 0 \<or> length (rw_data p) = PAGE_SIZE c \<and> filled (rw_length p) (rw_data p)"

definition content_shape :: "config \<Rightarrow> content \<Rightarrow> bool" where
  "content_shape c x \<longleftrightarrow> (\<forall>p. x = Pool p \<longrightarrow> pool_shape c p)"

definition store_shape :: "config \<Rightarrow> batch_store \<Rightarrow> bool" where
  "store_shape c bs \<longleftrightarrow> (\<forall>b. Some b \<in> set bs \<longrightarrow> content_shape c (rb_content b))"

lemma content_shape_simps [simp]:
  "content_shape c (Pool p) = pool_shape c p" "content_shape c Uninitialised" "content_shape c (Segment seg)"
  by (simp_all add: content_shape_def)

text \<open>The search ends inside its bounds, and behind the last probe when it ends at the right one.\<close>

lemma rw_search_bounds:
  "rw_search lt l r cur = Inr (p, q) \<Longrightarrow> l \<le> r \<Longrightarrow> l \<le> p \<and> p \<le> r \<and> (l < r \<and> p = r \<longrightarrow> q + 1 = r) \<and> (l = r \<longrightarrow> q = cur)"
proof (induction lt l r cur rule: rw_search.induct)
  case (1 lt l r cur)
  define mid where "mid = (l + r) div 2"
  show ?case
  proof (cases "l < r")
    case False
    then have "rw_search lt l r cur = Inr (l, cur)" by (simp add: rw_search.simps [of lt l r cur])
    then show ?thesis using 1(3,4) False by simp
  next
    case True
    then have mid: "l \<le> mid" "mid < r" by (auto simp: mid_def)
    obtain b where b: "lt mid = Inr b"
      using 1(3) True by (auto simp: rw_search.simps [of lt l r cur] Let_def mid_def split: sum.splits)
    show ?thesis
    proof (cases b)
      case right: True
      then have "rw_search lt (mid + 1) r mid = Inr (p, q)"
        using 1(3) True b by (simp add: rw_search.simps [of lt l r cur] Let_def mid_def)
      with 1(1) [OF True mid_def b right] mid show ?thesis by (cases "mid + 1 = r") auto
    next
      case left: False
      then have "rw_search lt l mid mid = Inr (p, q)"
        using 1(3) True b by (simp add: rw_search.simps [of lt l r cur] Let_def mid_def)
      with 1(2) [OF True mid_def b left] mid show ?thesis by auto
    qed
  qed
qed

lemma rw_shift_fills:
  assumes "rw_shift n i r data = Inr data'"
  shows "length data' = length data \<and> i + n < length data \<and> (\<forall>j < i. data' ! j = data ! j) \<and>
    (\<forall>j. i \<le> j \<and> j \<le> i + n \<longrightarrow> data' ! j \<noteq> None)"
  using assms
proof (induction n arbitrary: i r data)
  case 0
  then show ?case by (auto simp: rupd_def split: if_splits)
next
  case (Suc n)
  then obtain x d where d: "rupd data i (Some r) = Inr d" "rw_shift n (Suc i) x d = Inr data'"
    by (auto simp: rbind_eq_Inr)
  have up: "i < length data" "d = data[i := Some r]" using d(1) by (auto simp: rupd_def split: if_splits)
  note IH = Suc.IH [OF d(2)]
  have "data' ! j \<noteq> None" if "i \<le> j" "j \<le> i + Suc n" for j
  proof (cases "j = i")
    case True
    then have "data' ! j = Some r" using IH up by simp
    then show ?thesis by simp
  next
    case False
    then show ?thesis using IH that by auto
  qed
  then show ?case using IH up by auto
qed

lemma insert_read_write_shape:
  assumes "insert_read_write c mem buf fd t ref p = Inr p'" "pool_shape c p"
  shows "pool_shape c p'"
proof -
  let ?n = "rw_length p"
  let ?data = "if ?n = 0 then replicate (PAGE_SIZE c) None else rw_data p"
  let ?r = "\<lparr>cr_req_type = t, cr_req_batch_ref = Some ref, cr_client_sock_fd = fd, cr_buffer = buf\<rparr>"
  from assms(1) obtain l q d where l: "rw_search (rw_below c mem ?data (request_key c mem buf)) 0 ?n 0 = Inr (l, q)"
    and d: "(if l = ?n then rupd ?data (q + (if l > 0 then 1 else 0)) (Some ?r) else rw_shift (?n - l) l ?r ?data) = Inr d"
    and p': "p' = p\<lparr>rw_data := d, rw_length := ?n + 1\<rparr>"
    by (auto simp: insert_read_write_def Let_def rbind_eq_Inr split del: if_split)
  have data: "length ?data = PAGE_SIZE c" "filled ?n ?data" using assms(2) by (auto simp: pool_shape_def filled_def)
  note b = rw_search_bounds [OF l]
  have "length d = PAGE_SIZE c \<and> filled (Suc ?n) d"
  proof (cases "l = ?n")
    case True
    then have "q + (if l > 0 then 1 else 0) = ?n" using b by (cases "?n = 0") auto
    then have "rupd ?data ?n (Some ?r) = Inr d" using d True by simp
    then have "d = ?data[?n := Some ?r]" "?n < length ?data" by (simp_all only: rupd_def split: if_splits) simp_all
    then show ?thesis using data by (auto simp: filled_def nth_list_update less_Suc_eq split del: if_split)
  next
    case False
    then have "rw_shift (?n - l) l ?r ?data = Inr d" "l \<le> ?n" using d b by simp_all
    note f = rw_shift_fills [OF this(1)]
    have "d ! j \<noteq> None" if "j < Suc ?n" for j
      using that f data(2) \<open>l \<le> ?n\<close> by (cases "j < l") (auto simp: filled_def split del: if_split)
    then show ?thesis using f data(1) \<open>l \<le> ?n\<close> by (auto simp: filled_def split del: if_split)
  qed
  then show ?thesis by (simp add: p' pool_shape_def)
qed

lemma remove_via_index_shape: "remove_via_index i p = Inr p' \<Longrightarrow> pool_shape c p \<Longrightarrow> pool_shape c p'"
  by (auto simp: remove_via_index_def pool_shape_def filled_def rbind_eq_Inr rnth_def rupd_def nth_list_update split: if_splits)

lemma store_shape_deref: "store_shape c bs \<Longrightarrow> batch_deref bs a = Inr b \<Longrightarrow> content_shape c (rb_content b)"
proof -
  assume "store_shape c bs" "batch_deref bs a = Inr b"
  moreover from this(2) have "Some b \<in> set bs"
    by (auto simp: batch_deref_def in_set_conv_nth split: if_splits option.splits intro!: exI [of _ "a - 1"])
  ultimately show ?thesis by (simp add: store_shape_def)
qed

lemma store_shape_put [simp]: "store_shape c bs \<Longrightarrow> content_shape c (rb_content b) \<Longrightarrow> store_shape c (batch_put a b bs)"
  by (auto simp: store_shape_def batch_put_def dest!: set_update_subset_insert [THEN subsetD])

lemma store_shape_delete [simp]: "store_shape c bs \<Longrightarrow> store_shape c (bs[i := None])"
  by (auto simp: store_shape_def dest!: set_update_subset_insert [THEN subsetD])

lemma store_shape_new [simp]: "store_shape c (snd (batch_new t bs)) = store_shape c bs"
  by (auto simp: batch_new_def store_shape_def new_request_batch_def)

lemma store_pool_shape:
  assumes "store_shape c bs" "batch_deref bs a = Inr b" "batch_pool b = Inr p"
  shows "pool_shape c p"
  using store_shape_deref [OF assms(1,2)] assms(3) by (auto simp: batch_pool_def split: content.splits)

lemma store_insert_shape:
  assumes "store_insert_read_write c mem a buf fd t bs = Inr bs'" "store_shape c bs"
  shows "store_shape c bs'"
  using assms store_pool_shape [OF assms(2)]
  by (fastforce simp: store_insert_read_write_def batch_insert_read_write_def rbind_eq_Inr dest: insert_read_write_shape)

lemma store_remove_shape: "store_remove a i bs = Inr bs' \<Longrightarrow> store_shape c bs \<Longrightarrow> store_shape c bs'"
  by (fastforce simp: store_remove_def rbind_eq_Inr dest: store_pool_shape remove_via_index_shape)

section \<open>The network thread\<close>

text \<open>Slot \<open>i\<close> belongs to the client with descriptor \<open>i + 1\<close>.\<close>

definition slots_shape :: "nat \<Rightarrow> connection_pool \<Rightarrow> bool" where
  "slots_shape n pool \<longleftrightarrow> length (cp_connections pool) = n \<and>
     (\<forall>i r. i < n \<and> cp_connections pool ! i = Some r \<longrightarrow>
        cr_client_sock_fd r = int i + 1 \<and> cr_buffer r = cp_buffer_pool pool + i \<and> cr_req_type r = RECV)"

definition network_shape :: "config \<Rightarrow> nat \<Rightarrow> nat \<Rightarrow> network_state \<Rightarrow> bool" where
  "network_shape c n m st \<longleftrightarrow> length (nw_mem st) = m \<and> slots_shape n (nw_connection_pool st) \<and>
     store_shape c (nw_store st) \<and> nw_sqe st < length (nw_ring st)"

lemma rfill_length: "rfill xs a b x = Inr ys \<Longrightarrow> length ys = length xs"
  by (auto simp: rfill_def split: if_splits)

lemma cp_insert_shape:
  assumes "cp_insert fd RECV pool = Inr (pool', s)" "slots_shape n pool"
  shows "slots_shape n pool'"
  using assms
  by (auto simp: cp_insert_def slots_shape_def Let_def rbind_eq_Inr rassert_eq_Inr rnth_def rupd_def nth_list_update
      split: if_splits)

lemma prep_shape: "prep e st = Inr st' \<Longrightarrow> network_shape c n m st \<Longrightarrow> network_shape c n m st'"
  by (auto simp: prep_def network_shape_def rbind_eq_Inr dest: rupd_length)

lemma get_sqe_shape [simp]: "network_shape c n m st \<Longrightarrow> network_shape c n m (get_sqe st)"
  by (simp add: network_shape_def get_sqe_def)

lemma handle_accept_shape:
  assumes "handle_accept c fd flag_more st = Inr st'" "network_shape c n m st"
  shows "network_shape c n m st'"
proof (cases "fd > 0")
  case True
  then obtain pool s e st1 where st1: "cp_insert fd RECV (nw_connection_pool st) = Inr (pool, s)"
      "prep e (st\<lparr>nw_connection_pool := pool\<rparr>) = Inr st1"
      "st' = st1 \<or> (\<exists>e st2. prep e (get_sqe st1) = Inr st2 \<and> st' = st2\<lparr>nw_sqe := nw_sqe st1\<rparr>)"
    using assms(1) by (fastforce simp: handle_accept_def rbind_eq_Inr split: if_splits)
  have "network_shape c n m (st\<lparr>nw_connection_pool := pool\<rparr>)"
    using cp_insert_shape [OF st1(1)] assms(2) by (simp add: network_shape_def)
  then have n1: "network_shape c n m st1" using st1(2) prep_shape by blast
  from st1(3) show ?thesis
  proof (elim disjE exE conjE)
    fix e st2 assume st2: "prep e (get_sqe st1) = Inr st2" "st' = st2\<lparr>nw_sqe := nw_sqe st1\<rparr>"
    have "length (nw_ring st2) = Suc (length (nw_ring st1))"
      using st2(1) by (auto simp: prep_def get_sqe_def rbind_eq_Inr dest: rupd_length)
    then show ?thesis using prep_shape [OF st2(1) get_sqe_shape [OF n1]] st2(2) n1 by (simp add: network_shape_def)
  qed (use n1 in simp)
qed (use assms in \<open>simp add: handle_accept_def\<close>)

lemma handle_recv_shape:
  assumes "handle_recv c u st = Inr st'" "network_shape c n m st"
  shows "network_shape c n m st'"
proof -
  from assms(1) obtain mem where mem: "length mem = length (nw_mem st)"
    and st': "(\<exists>buf fd t bs. store_insert_read_write c mem (nw_batch st) buf fd t (nw_store st) = Inr bs \<and>
        st' = st\<lparr>nw_mem := mem, nw_store := bs\<rparr>) \<or>
      (\<exists>e st2. prep e (st\<lparr>nw_mem := mem\<rparr>) = Inr st2 \<and>
        st' = st2\<lparr>nw_batch := fst (batch_new READ (nw_store st2)), nw_store := snd (batch_new READ (nw_store st2))\<rparr>)"
    by (fastforce simp: handle_recv_def Let_def rbind_eq_Inr batch_new_def split: if_splits dest!: rfill_length)
  have n1: "network_shape c n m (st\<lparr>nw_mem := mem\<rparr>)" using assms(2) mem by (simp add: network_shape_def)
  from st' show ?thesis
  proof (elim disjE exE conjE)
    fix e st2 assume st2: "prep e (st\<lparr>nw_mem := mem\<rparr>) = Inr st2"
        "st' = st2\<lparr>nw_batch := fst (batch_new READ (nw_store st2)), nw_store := snd (batch_new READ (nw_store st2))\<rparr>"
    then show ?thesis using prep_shape [OF st2(1) n1] by (simp add: network_shape_def)
  qed (use n1 in \<open>auto simp: network_shape_def dest: store_insert_shape\<close>)
qed

lemma bump_num_sent_shape: "bump_num_sent a st = Inr st' \<Longrightarrow> network_shape c n m st \<Longrightarrow> network_shape c n m st'"
  using store_pool_shape [of c "nw_store st" a]
  by (fastforce simp: bump_num_sent_def network_shape_def rbind_eq_Inr pool_shape_def)

lemma delete_if_sent_shape: "delete_if_sent a st = Inr st' \<Longrightarrow> network_shape c n m st \<Longrightarrow> network_shape c n m st'"
  by (auto simp: delete_if_sent_def network_shape_def rbind_eq_Inr split: if_splits)

lemma handle_send_shape:
  assumes "handle_send c u st = Inr st'" "network_shape c n m st"
  shows "network_shape c n m st'"
proof -
  from assms(1) obtain e st1 st2 a where "prep e st = Inr st1" "bump_num_sent a st1 = Inr st2" "delete_if_sent a st2 = Inr st'"
    by (auto simp: handle_send_def rbind_eq_Inr split: option.splits)
  then show ?thesis using assms(2) prep_shape bump_num_sent_shape delete_if_sent_shape by blast
qed

lemma answer_entry_shape:
  assumes "answer_entry c a is_last k st = Inr st'" "network_shape c n m st"
  shows "network_shape c n m st'"
  using assms
  by (auto simp: answer_entry_def rbind_eq_Inr split: if_splits dest: prep_shape bump_num_sent_shape)

lemma answer_entries_shape:
  "answer_entries c a k i st = Inr st' \<Longrightarrow> network_shape c n m st \<Longrightarrow> network_shape c n m st'"
  by (induction k arbitrary: i st) (auto simp: rbind_eq_Inr dest: answer_entry_shape)

lemma handle_batch_shape: "handle_batch c u st = Inr st' \<Longrightarrow> network_shape c n m st \<Longrightarrow> network_shape c n m st'"
  by (auto simp: handle_batch_def rbind_eq_Inr split: user_data.splits dest: answer_entries_shape delete_if_sent_shape)

lemma handle_cqe_shape:
  assumes "handle_cqe c res flag_more u st = Inr st'" "network_shape c n m st"
  shows "network_shape c n m st'"
  using assms
  by (auto simp: handle_cqe_def rbind_eq_Inr split: if_splits
      dest: handle_accept_shape handle_recv_shape handle_send_shape handle_batch_shape)

section \<open>The main thread\<close>

definition memtable_shape :: "config \<Rightarrow> memtable \<Rightarrow> bool" where
  "memtable_shape c t \<longleftrightarrow> length (mt_data t) = MEMTABLE_SIZE c"

definition main_shape :: "config \<Rightarrow> nat \<Rightarrow> main_state \<Rightarrow> bool" where
  "main_shape c m st \<longleftrightarrow> length (mn_mem st) = m \<and> store_shape c (mn_store st) \<and>
     length (mn_memtables st) = LEVEL_FACTOR c \<and> (\<forall>t \<in> set (mn_memtables st). memtable_shape c t) \<and>
     si_invar c (mn_sparse_index st)"

lemma mt_shift_length: "mt_shift e n dest buf d = Inr (dest', buf', d') \<Longrightarrow> length d' = length d"
  by (induction n arbitrary: dest buf d) (auto simp: rbind_eq_Inr dest!: rblit_length)

lemma mt_write_shape:
  assumes "mt_write c k v n t index = Inr (t', index')" "memtable_shape c t" "si_invar c index"
  shows "memtable_shape c t' \<and> si_invar c index'"
  using assms
  by (auto simp: mt_write_def memtable_shape_def si_invar_def set_table_max_key_def set_table_min_key_def rbind_eq_Inr
      split: if_splits dest!: rblit_length mt_shift_length)

lemma get_table_num_shape:
  assumes "get_table_num c k index = Inr (n, index')" "si_invar c index"
  shows "si_invar c index'"
proof -
  have "length index' = length index" if "get_table_num_from c k i index = Inr (n, index')" for i
    using that
  proof (induction c k i index rule: get_table_num_from.induct)
    case (1 c k i index)
    then show ?case
      by (subst (asm) (3) get_table_num_from.simps) (auto simp: rbind_eq_Inr split: if_splits dest: rblit_length)
  qed
  then show ?thesis using assms by (simp add: get_table_num_def si_invar_def)
qed

lemma read_miss_shape:
  assumes "0 < LEVEL_FACTOR c" "read_miss c spurious a i r st = Some (Inr st')" "main_shape c m st"
  shows "main_shape c m st'"
  using assms(2,3) send_down_fails [OF assms(1)]
  by (auto simp: read_miss_def main_shape_def Let_def lbind_eq_Inr rbind_eq_Inr split: if_splits
      dest!: store_insert_shape store_remove_shape)

lemma handle_read_shape:
  assumes "0 < LEVEL_FACTOR c" "handle_read c spurious a i r k n st = Some (Inr st')" "main_shape c m st"
  shows "main_shape c m st'"
proof -
  have "read_miss c spurious a i r st = Some (Inr st') \<or> (\<exists>mem. length mem = length (mn_mem st) \<and> st' = st\<lparr>mn_mem := mem\<rparr>)"
    using assms(2) by (auto simp: handle_read_def lbind_eq_Inr rbind_eq_Inr split: if_splits option.splits dest: rblit_length)
  then show ?thesis using assms(3) read_miss_shape [OF assms(1)] by (auto simp: main_shape_def)
qed

lemma handle_write_shape:
  assumes "0 < LEVEL_FACTOR c" "handle_write c spurious r k n st = Some (Inr st')" "main_shape c m st"
  shows "main_shape c m st'"
proof -
  from assms(2) flush_memtable_fails [OF assms(1)] obtain v where "write_entry c k v n st = Inr st'"
    by (auto simp: handle_write_def lbind_eq_Inr rbind_eq_Inr split: if_splits)
  then obtain t t' index ts where w: "rnth (mn_memtables st) n = Inr t" "mt_write c k v n t (mn_sparse_index st) = Inr (t', index)"
      "rupd (mn_memtables st) n t' = Inr ts" "st' = st\<lparr>mn_memtables := ts, mn_sparse_index := index\<rparr>"
    by (auto simp: write_entry_def rbind_eq_Inr)
  have "memtable_shape c t" "si_invar c (mn_sparse_index st)" using assms(3) rnth_set [OF w(1)] by (auto simp: main_shape_def)
  from mt_write_shape [OF w(2) this] assms(3) w(4) rupd_length [OF w(3)] rupd_set [OF w(3)]
  show ?thesis by (auto simp: main_shape_def)
qed

lemma handle_request_shape:
  assumes "0 < LEVEL_FACTOR c" "handle_request c spurious a i st = Some (Inr st')" "main_shape c m st"
  shows "main_shape c m st'"
proof -
  let ?with = "\<lambda>index. st\<lparr>mn_sparse_index := index\<rparr>"
  from assms(2) obtain r k n index where index: "get_table_num c k (mn_sparse_index st) = Inr (n, index)"
    and st': "(if memcmp k (null_key (KEY_LENGTH c)) = 0 then
            Some (rbind (rfill (mn_mem (?with index)) (cr_buffer r) (cr_buffer r + SOCKET_BUFFER_LENGTH c) 0) (\<lambda>mem.
              Inr ((?with index)\<lparr>mn_mem := mem\<rparr>)))
          else if cr_req_type r = READ then handle_read c spurious a i r k n (?with index)
          else handle_write c spurious r k (unat n) (?with index)) = Some (Inr st')"
    by (auto simp: handle_request_def Let_def lbind_eq_Inr rbind_eq_Inr split del: if_split)
  have w: "main_shape c m (?with index)" using assms(3) get_table_num_shape [OF index] by (simp add: main_shape_def)
  show ?thesis
  proof (cases "memcmp k (null_key (KEY_LENGTH c)) = 0")
    case True
    then show ?thesis using st' w by (auto simp: main_shape_def rbind_eq_Inr dest: rfill_length)
  next
    case False
    then show ?thesis using st' handle_read_shape [OF assms(1) _ w] handle_write_shape [OF assms(1) _ w]
      by (auto split: if_splits)
  qed
qed

lemma main_round_shape:
  assumes "0 < LEVEL_FACTOR c" "main_round c spurious a st = Some (Inr st')" "main_shape c m st"
  shows "main_shape c m st'"
proof -
  from assms(2) obtain p :: readwrite_pool and st1 where "lfold (handle_request c spurious a) [0 ..< rw_length p] st = Some (Inr st1)"
      "st' = st1\<lparr>mn_sent := mn_sent st1 @ [a]\<rparr>" by (auto simp: main_round_def lbind_eq_Inr)
  moreover from this(1) assms(3) have "main_shape c m st1"
    by (rule lfold_invariant) (rule handle_request_shape [OF assms(1)])
  ultimately show ?thesis by (simp add: main_shape_def)
qed

end
