(* ===== verification/SSTable_Read.thy ===== *)
theory SSTable_Read
  imports Level_Info
begin

text \<open>
  Reading a batch of keys from an SSTable, in \<^verbatim>\<open>lsm_tree.hpp\<close>: \<open>move_down_to_children\<close> and the
  loop of \<open>try_sstable_tree_read_in_memory\<close>, which walks the requests of the batch with an explicit
  stack and looks each key up in the page-cache buffers. A page-cache buffer is an array of entries
  in heap order: the children of entry \<open>i\<close> are entries \<open>2 * i + 1\<close> and \<open>2 * i + 2\<close>.
\<close>

record read_state =
  tr_sstable :: sstable_info
  tr_mem :: "byte list"
  tr_store :: batch_store
  tr_pages :: "buf \<Rightarrow> byte list"
  tr_reads :: "(buf \<times> usize) list"

section \<open>Searching a page\<close>

text \<open>
  The \<open>while\<close> loop over a page. \<open>not_null\<close> and \<open>res\<close> are \<open>None\<close> until the loop assigns them.
  (Entry numbers are far below \<open>2 ^ 31\<close>, so doubling them does not wrap.)
\<close>

function page_search ::
    "(nat \<Rightarrow> key res) \<Rightarrow> key \<Rightarrow> key \<Rightarrow> nat \<Rightarrow> nat \<Rightarrow> bool option \<Rightarrow> int option \<Rightarrow>
     (nat \<times> bool option \<times> int option) res" where
  "page_search key_of null req n i not_null res =
     (if i < n then
        (case key_of i of
           Inl e \<Rightarrow> Inl e
         | Inr k \<Rightarrow>
             if memcmp k null = 0 then Inr (i, Some False, res)
             else if memcmp k req = 0 then Inr (i, Some True, Some 0)
             else page_search key_of null req n (2 * i + 2 - (if 0 < memcmp k req then 1 else 0))
                    (Some True) (Some (memcmp k req)))
      else Inr (i, not_null, res))"
  by pat_completeness auto
termination
  by (relation "measure (\<lambda>(key_of, null, req, n, i, not_null, res). n - i)") auto

declare page_search.simps [simp del]

definition entry_key :: "config \<Rightarrow> byte list \<Rightarrow> nat \<Rightarrow> key res" where
  "entry_key c page i = rslice page (i * MEMTABLE_ENTRY_LENGTH c) (KEY_LENGTH c)"

definition entry_value :: "config \<Rightarrow> byte list \<Rightarrow> nat \<Rightarrow> byte list res" where
  "entry_value c page i = rslice page (i * MEMTABLE_ENTRY_LENGTH c + KEY_LENGTH c) (VALUE_LENGTH c)"

section \<open>The traversal\<close>

text \<open>\<open>req_batch->content.readwrite_pool.data[i]\<close>.\<close>

definition request_at :: "read_state \<Rightarrow> nat \<Rightarrow> conn_req res" where
  "request_at st i =
     rbind (batch_deref (tr_store st) (ss_req_batch (tr_sstable st))) (\<lambda>b.
       rbind (batch_pool b) (\<lambda>p. cell (rw_data p) i))"

definition has_request :: "config \<Rightarrow> read_state \<Rightarrow> uint \<Rightarrow> bool res" where
  "has_request c st i =
     rbind (request_at st (unat i)) (\<lambda>r.
       rbind (request_key c (tr_mem st) (cr_buffer r)) (\<lambda>k.
         Inr (memcmp k (null_key (KEY_LENGTH c)) \<noteq> 0)))"

text \<open>
  The cell pushed is (offset, request, left, right), but its first three numbers are read back as
  request, left and right.
\<close>

definition move_down_to_children :: "config \<Rightarrow> read_state \<Rightarrow> read_state res" where
  "move_down_to_children c st =
     (let s = tr_sstable st; off = ucast (ss_desired_sstable_offset s)
      in rbind (stack_top (ss_stack s)) (\<lambda>(cur_request, left, right, _).
           let stk = pop_top (ss_stack s);
               left_child = drop_bit 1 (left + cur_request);
               right_child = drop_bit 1 (cur_request + right)
           in rbind (if right_child > cur_request then has_request c st right_child else Inr False) (\<lambda>go_right.
                rbind (if go_right then push_top off right_child cur_request right stk else Inr stk) (\<lambda>stk1.
                  rbind (if left_child < cur_request then has_request c st left_child else Inr False) (\<lambda>go_left.
                    rbind (if go_left then push_top off left_child left cur_request stk1 else Inr stk1) (\<lambda>stk2.
                      Inr (st\<lparr>tr_sstable := s\<lparr>ss_stack := stk2\<rparr>\<rparr>)))))))"

text \<open>The offset is not in the cache: schedule one read, and a second one if two buffers are free.\<close>

definition schedule_read :: "config \<Rightarrow> read_state \<Rightarrow> read_state res" where
  "schedule_read c st =
     (let s = tr_sstable st
      in rbind (if ch_free_buffers_left (ss_cache_helper s) = 0
                then replenish_least_recently_selected_buffer (ss_cache_helper s)
                else Inr (ss_cache_helper s)) (\<lambda>h.
           case round_to_block_size_multiple c (ss_desired_sstable_offset s) of
             None \<Rightarrow> Inl Indeterminate
           | Some left_boundary \<Rightarrow>
               let first = get_id_of_most_recently_selected_buffer h + 1
               in rbind (cell (ss_page_cache_buffers s) (unat first)) (\<lambda>b.
                    let size = of_nat (fair_aligned_sstable_page_cache_buffer_size c);
                        left_boundary2 = (if left_boundary = 0 then size else push_bit 1 left_boundary)
                    in rbind (if ch_free_buffers_left h = 2 \<and> left_boundary2 < get_cur_min_invalid_offset h
                              then rbind (cell (ss_page_cache_buffers s) (unat first + 1)) (\<lambda>b2. Inr [(b2, left_boundary2)])
                              else Inr []) (\<lambda>more_reads.
                         Inr (st\<lparr>tr_sstable := s\<lparr>ss_cache_helper := h, ss_waiting_on_io := True\<rparr>,
                                 tr_reads := tr_reads st @ (b, left_boundary) # more_reads\<rparr>)))))"

text \<open>The offset is in the cache: search the page that holds it.\<close>

definition search_cached_page :: "config \<Rightarrow> nat \<Rightarrow> cache_location \<Rightarrow> read_state \<Rightarrow> read_state res" where
  "search_cached_page c cur_request loc st =
     (let s = tr_sstable st;
          n = unat (ucast ((cl_right loc - cl_left loc) div of_nat (MEMTABLE_ENTRY_LENGTH c)) :: uint);
          i0 = unat (ucast (ss_desired_sstable_offset s - cl_left loc) :: uint)
      in rbind (cell (ss_page_cache_buffers s) (unat (cl_buffer_id loc))) (\<lambda>b.
           rbind (rbind (request_at st cur_request) (\<lambda>r. request_key c (tr_mem st) (cr_buffer r))) (\<lambda>k.
             rbind (page_search (entry_key c (tr_pages st b)) (null_key (KEY_LENGTH c)) k n i0 None None) (\<lambda>(i, not_null, res).
               case res of
                 None \<Rightarrow> Inl Indeterminate
               | Some r \<Rightarrow>
                   if r \<noteq> 0 then
                     Inr (st\<lparr>tr_sstable := s\<lparr>ss_desired_sstable_offset := of_nat i + cl_left loc\<rparr>\<rparr>)
                   else if not_null = Some True then
                     rbind (request_at st cur_request) (\<lambda>q.
                       rbind (entry_value c (tr_pages st b) i) (\<lambda>v.
                         rbind (rblit (tr_mem st) (cr_buffer q + 5 + KEY_LENGTH c) v) (\<lambda>mem.
                           move_down_to_children c (st\<lparr>tr_mem := mem\<rparr>))))
                   else move_down_to_children c st))))"

definition read_step :: "config \<Rightarrow> read_state \<Rightarrow> read_state res" where
  "read_step c st =
     (let s = tr_sstable st
      in if get_cur_min_invalid_offset (ss_cache_helper s) \<le> ss_desired_sstable_offset s
         then move_down_to_children c st
         else rbind (stack_top (ss_stack s)) (\<lambda>(off, cur_request, _, _).
                let st1 = st\<lparr>tr_sstable := s\<lparr>ss_desired_sstable_offset := ucast off\<rparr>\<rparr>
                in rbind (get_buffer_info (ucast off) (ss_cache_helper s)) (\<lambda>loc.
                     if cl_left loc = -1 then schedule_read c st1
                     else search_cached_page c (unat cur_request) loc st1)))"

text \<open>\<open>do ... while (!(stack.empty() || waiting_on_io))\<close>; \<open>None\<close> is a loop that never ends.\<close>

partial_function (option) tree_read_loop :: "config \<Rightarrow> read_state \<Rightarrow> read_state res option" where
  "tree_read_loop c st =
     (case read_step c st of
        Inl e \<Rightarrow> Some (Inl e)
      | Inr st' \<Rightarrow>
          if stack_empty (ss_stack (tr_sstable st')) \<or> ss_waiting_on_io (tr_sstable st') then Some (Inr st')
          else tree_read_loop c st')"

text \<open>How the worker starts on a batch: offset 0, and the middle request on the stack.\<close>

definition start_read :: "config \<Rightarrow> read_state \<Rightarrow> read_state res option" where
  "start_read c st =
     (case rbind (batch_deref (tr_store st) (ss_req_batch (tr_sstable st))) (\<lambda>b.
             rbind (batch_pool b) (\<lambda>p.
               rbind (push_top 0 (of_nat (rw_length p div 2)) 0 (of_nat (rw_length p)) (ss_stack (tr_sstable st))) (\<lambda>stk.
                 Inr (st\<lparr>tr_sstable := (tr_sstable st)\<lparr>ss_desired_sstable_offset := 0, ss_stack := stk\<rparr>\<rparr>)))) of
        Inl e \<Rightarrow> Some (Inl e)
      | Inr st' \<Rightarrow> tree_read_loop c st')"

section \<open>A page in heap order is searched correctly\<close>

text \<open>The keys of the subtree at entry \<open>i\<close>, and the search-tree property of a page of \<open>n\<close> entries.\<close>

function tree_keys :: "(nat \<Rightarrow> key) \<Rightarrow> key \<Rightarrow> nat \<Rightarrow> nat \<Rightarrow> key set" where
  "tree_keys key_of null n i =
     (if i < n then
        if key_of i = null then {}
        else insert (key_of i) (tree_keys key_of null n (2 * i + 1) \<union> tree_keys key_of null n (2 * i + 2))
      else {})"
  by pat_completeness auto
termination
  by (relation "measure (\<lambda>(key_of, null, n, i). n - i)") auto

declare tree_keys.simps [simp del]

definition search_tree :: "(nat \<Rightarrow> key) \<Rightarrow> key \<Rightarrow> nat \<Rightarrow> bool" where
  "search_tree key_of null n \<longleftrightarrow>
     (\<forall>i < n. key_of i \<noteq> null \<longrightarrow>
        (\<forall>k \<in> tree_keys key_of null n (2 * i + 1). k < key_of i) \<and>
        (\<forall>k \<in> tree_keys key_of null n (2 * i + 2). key_of i < k))"

lemma page_search_found:
  assumes "search_tree key_of null n" "\<And>j. j < n \<Longrightarrow> length (key_of j) = length req" "length null = length req"
  shows "\<exists>j nn r. page_search (\<lambda>j. Inr (key_of j)) null req n i nn0 r0 = Inr (j, nn, r) \<and>
    (req \<in> tree_keys key_of null n i \<longrightarrow> j < n \<and> key_of j = req \<and> nn = Some True \<and> r = Some 0) \<and>
    (req \<notin> tree_keys key_of null n i \<longrightarrow> (n \<le> j \<or> key_of j = null) \<and> (r = r0 \<or> (\<exists>x. r = Some x \<and> x \<noteq> 0)))"
proof (induction "n - i" arbitrary: i nn0 r0 rule: less_induct)
  case less
  let ?T = "tree_keys key_of null n"
  show ?case
  proof (cases "i < n \<and> key_of i \<noteq> null")
    case False
    then have "?T i = {}" by (subst tree_keys.simps) simp
    then show ?thesis
      using False assms(2,3) by (cases "i < n") (auto simp: page_search.simps [of _ _ _ _ i] memcmp_order)
  next
    case True
    have T: "?T i = insert (key_of i) (?T (2 * i + 1) \<union> ?T (2 * i + 2))"
      using True by (subst tree_keys.simps) simp
    have len: "length (key_of i) = length req" "length (key_of i) = length null" using True assms(2,3) by simp_all
    have l: "\<forall>k \<in> ?T (2 * i + 1). k < key_of i" and r: "\<forall>k \<in> ?T (2 * i + 2). key_of i < k"
      using assms(1) True by (auto simp: search_tree_def)
    consider "key_of i = req" | "req < key_of i" | "key_of i < req" by force
    then show ?thesis
    proof cases
      case 1
      then show ?thesis using True len T by (auto simp: page_search.simps [of _ _ _ _ i] memcmp_order)
    next
      case 2
      then have c: "0 < memcmp (key_of i) req" "memcmp (key_of i) req \<noteq> 0" "memcmp (key_of i) null \<noteq> 0"
        using True len by (simp_all add: memcmp_order)
      have "req \<in> ?T i \<longleftrightarrow> req \<in> ?T (2 * i + 1)" using T 2 r by auto
      moreover have "page_search (\<lambda>j. Inr (key_of j)) null req n i nn0 r0 =
          page_search (\<lambda>j. Inr (key_of j)) null req n (2 * i + 1) (Some True) (Some (memcmp (key_of i) req))"
        using True c by (subst page_search.simps) simp
      moreover have "n - (2 * i + 1) < n - i" using True by (intro diff_less_mono2) simp_all
      from less [OF this, of "Some True" "Some (memcmp (key_of i) req)"] obtain j nn x where
          "page_search (\<lambda>j. Inr (key_of j)) null req n (2 * i + 1) (Some True) (Some (memcmp (key_of i) req)) =
            Inr (j, nn, x)"
          "req \<in> ?T (2 * i + 1) \<longrightarrow> j < n \<and> key_of j = req \<and> nn = Some True \<and> x = Some 0"
          "req \<notin> ?T (2 * i + 1) \<longrightarrow> (n \<le> j \<or> key_of j = null) \<and>
            (x = Some (memcmp (key_of i) req) \<or> (\<exists>y. x = Some y \<and> y \<noteq> 0))" by blast
      ultimately show ?thesis using c(2) by (intro exI [of _ j] exI [of _ nn] exI [of _ x]) auto
    next
      case 3
      then have c: "\<not> 0 < memcmp (key_of i) req" "memcmp (key_of i) req \<noteq> 0" "memcmp (key_of i) null \<noteq> 0"
        using True len by (simp_all add: memcmp_order)
      have "req \<in> ?T i \<longleftrightarrow> req \<in> ?T (2 * i + 2)" using T 3 l by auto
      moreover have "page_search (\<lambda>j. Inr (key_of j)) null req n i nn0 r0 =
          page_search (\<lambda>j. Inr (key_of j)) null req n (2 * i + 2) (Some True) (Some (memcmp (key_of i) req))"
        using True c by (subst page_search.simps) simp
      moreover have "n - (2 * i + 2) < n - i" using True by (intro diff_less_mono2) simp_all
      from less [OF this, of "Some True" "Some (memcmp (key_of i) req)"] obtain j nn x where
          "page_search (\<lambda>j. Inr (key_of j)) null req n (2 * i + 2) (Some True) (Some (memcmp (key_of i) req)) =
            Inr (j, nn, x)"
          "req \<in> ?T (2 * i + 2) \<longrightarrow> j < n \<and> key_of j = req \<and> nn = Some True \<and> x = Some 0"
          "req \<notin> ?T (2 * i + 2) \<longrightarrow> (n \<le> j \<or> key_of j = null) \<and>
            (x = Some (memcmp (key_of i) req) \<or> (\<exists>y. x = Some y \<and> y \<noteq> 0))" by blast
      ultimately show ?thesis using c(2) by (intro exI [of _ j] exI [of _ nn] exI [of _ x]) auto
    qed
  qed
qed


definition sample_keys :: "nat \<Rightarrow> key" where
  "sample_keys j = [[5], [3], [8]] ! j"

lemma sample_tree:
  "3 \<le> i \<Longrightarrow> tree_keys sample_keys [0] 3 i = {}"
  "tree_keys sample_keys [0] 3 (Suc 0) = {[3]}" "tree_keys sample_keys [0] 3 2 = {[8]}"
  "tree_keys sample_keys [0] 3 (Suc (Suc 0)) = {[8]}" "tree_keys sample_keys [0] 3 0 = {[5], [8], [3]}"
proof -
  have out: "tree_keys sample_keys [0] 3 i = {}" if "3 \<le> i" for i
    using that by (subst tree_keys.simps) simp
  then show "tree_keys sample_keys [0] 3 i = {}" if "3 \<le> i" using that .
  show 1: "tree_keys sample_keys [0] 3 (Suc 0) = {[3]}"
    by (subst tree_keys.simps) (simp add: out sample_keys_def)
  show 2: "tree_keys sample_keys [0] 3 2 = {[8]}"
    by (subst tree_keys.simps) (simp add: out sample_keys_def)
  then show "tree_keys sample_keys [0] 3 (Suc (Suc 0)) = {[8]}" by (simp add: numeral_2_eq_2)
  with 1 2 show "tree_keys sample_keys [0] 3 0 = {[5], [8], [3]}"
    by (subst tree_keys.simps) (simp add: sample_keys_def)
qed


section \<open>The traversal does not get anywhere\<close>

lemma read_step_repeats:
  assumes "stack_top (ss_stack s) = Inr (off, cur, x, y)" "s = tr_sstable st"
    and "get_buffer_info (ucast off) (ss_cache_helper s) = Inr loc" "cl_left loc \<noteq> -1"
    and "search_cached_page c (unat cur) loc (st\<lparr>tr_sstable := s\<lparr>ss_desired_sstable_offset := ucast off\<rparr>\<rparr>) =
      Inr (st\<lparr>tr_sstable := s\<lparr>ss_desired_sstable_offset := d\<rparr>\<rparr>)"
    and "e < get_cur_min_invalid_offset (ss_cache_helper s)"
  shows "read_step c (st\<lparr>tr_sstable := s\<lparr>ss_desired_sstable_offset := e\<rparr>\<rparr>) =
    Inr (st\<lparr>tr_sstable := s\<lparr>ss_desired_sstable_offset := d\<rparr>\<rparr>)"
  using assms by (simp add: read_step_def not_le [symmetric])

lemma tree_read_loop_step:
  "read_step c st = Inr st' \<Longrightarrow> \<not> stack_empty (ss_stack (tr_sstable st')) \<Longrightarrow>
   \<not> ss_waiting_on_io (tr_sstable st') \<Longrightarrow> tree_read_loop c st = tree_read_loop c st'"
  by (subst tree_read_loop.simps) simp

lemma tree_read_loop_fixpoint:
  assumes "read_step c st = Inr st" "\<not> stack_empty (ss_stack (tr_sstable st))" "\<not> ss_waiting_on_io (tr_sstable st)"
  shows "tree_read_loop c st = None"
proof (rule ccontr)
  let ?I = "\<lambda>c st. read_step c st = Inr st \<and> \<not> stack_empty (ss_stack (tr_sstable st)) \<and> \<not> ss_waiting_on_io (tr_sstable st)"
  assume "tree_read_loop c st \<noteq> None"
  then obtain r where ret: "tree_read_loop c st = Some r" by blast
  have "?I c st \<longrightarrow> False"
  proof (rule tree_read_loop.raw_induct [where P = "\<lambda>c st r. ?I c st \<longrightarrow> False", OF _ ret], rule impI)
    fix f :: "config \<Rightarrow> read_state \<Rightarrow> read_state res option" and c st r
    assume IH: "\<And>c st r. f c st = Some r \<Longrightarrow> ?I c st \<longrightarrow> False" and I: "?I c st"
      and eq: "(case read_step c st of Inl e \<Rightarrow> Some (Inl e) | Inr st' \<Rightarrow>
        if stack_empty (ss_stack (tr_sstable st')) \<or> ss_waiting_on_io (tr_sstable st') then Some (Inr st')
        else f c st') = Some r"
    from eq I have "f c st = Some r" by simp
    with IH I show False by blast
  qed
  with assms show False by blast
qed

text \<open>
  C40. The offset a page search arrives at is thrown away: the next round takes the offset from the
  stack again. So when the key of the current request is not in the page, and the offset arrived at
  is not beyond the end of the file, the traversal repeats the same search forever.
\<close>

theorem tree_read_diverges:
  assumes "tr_sstable st = s" "stack_top (ss_stack s) = Inr (off, cur, x, y)"
    and "get_buffer_info (ucast off) (ss_cache_helper s) = Inr loc" "cl_left loc \<noteq> -1"
    and "search_cached_page c (unat cur) loc (st\<lparr>tr_sstable := s\<lparr>ss_desired_sstable_offset := ucast off\<rparr>\<rparr>) =
      Inr (st\<lparr>tr_sstable := s\<lparr>ss_desired_sstable_offset := d\<rparr>\<rparr>)"
    and "d < get_cur_min_invalid_offset (ss_cache_helper s)"
    and "ss_desired_sstable_offset s < get_cur_min_invalid_offset (ss_cache_helper s)"
    and "\<not> stack_empty (ss_stack s)" "\<not> ss_waiting_on_io s"
  shows "tree_read_loop c st = None"
proof -
  let ?st = "\<lambda>e. st\<lparr>tr_sstable := s\<lparr>ss_desired_sstable_offset := e\<rparr>\<rparr>"
  have step: "read_step c (?st e) = Inr (?st d)" if "e < get_cur_min_invalid_offset (ss_cache_helper s)" for e
    using read_step_repeats [OF assms(2) assms(1) [symmetric] assms(3-5) that] .
  have self: "?st (ss_desired_sstable_offset s) = st" using assms(1) by (cases st) auto
  have "tree_read_loop c (?st d) = None"
    using step [OF assms(6)] assms(8,9) by (intro tree_read_loop_fixpoint) simp_all
  moreover have "tree_read_loop c st = tree_read_loop c (?st d)"
    using step [OF assms(7)] assms(8,9) unfolding self by (intro tree_read_loop_step) simp_all
  ultimately show ?thesis by simp
qed

text \<open>
  The very first step of reading a batch from an SSTable already looks at a stack cell that was
  never written, because the top of the stack is read one cell above the one just pushed.
\<close>

lemma start_read_unwritten:
  assumes "ss_stack (tr_sstable st) = new_stack len" "2 \<le> len"
    and "batch_deref (tr_store st) (ss_req_batch (tr_sstable st)) = Inr b" "batch_pool b = Inr p"
    and "0 < get_cur_min_invalid_offset (ss_cache_helper (tr_sstable st))"
  shows "start_read c st = Some (Inl Indeterminate)"
proof -
  obtain m where m: "len = Suc (Suc m)" using assms(2) by (metis add_2_eq_Suc le_iff_add)
  let ?s = "(tr_sstable st)\<lparr>ss_desired_sstable_offset := 0, ss_stack := \<lparr>st_back = 1, st_data =
      Some (0, of_nat (rw_length p div 2), 0, of_nat (rw_length p)) # None # replicate m None\<rparr>\<rparr>"
  have "read_step c (st\<lparr>tr_sstable := ?s\<rparr>) = Inl Indeterminate"
    using assms(5) by (simp add: read_step_def stack_top_def cell_def not_le [symmetric])
  then have "tree_read_loop c (st\<lparr>tr_sstable := ?s\<rparr>) = Some (Inl Indeterminate)"
    by (subst tree_read_loop.simps) simp
  then show ?thesis
    using assms(1,3,4) by (simp add: start_read_def new_stack_def push_top_def m)
qed

definition sample_read :: read_state where
  "sample_read = \<lparr>tr_sstable = new_sstable_info cmake_config (new_wait_queue 0 True) (\<lambda>_. 0) 1,
     tr_mem = sample_mem, tr_store = sample_store, tr_pages = (\<lambda>_. []), tr_reads = []\<rparr>"

lemma start_read_unwritten_example: "start_read cmake_config sample_read = Some (Inl Indeterminate)"
proof -
  let ?b = "\<lparr>rb_req_type = READ, rb_content = Pool sample_pool\<rparr>"
  have "ss_stack (tr_sstable sample_read) = new_stack 20"
      "batch_deref (tr_store sample_read) (ss_req_batch (tr_sstable sample_read)) = Inr ?b"
      "0 < get_cur_min_invalid_offset (ss_cache_helper (tr_sstable sample_read))"
    by (simp_all add: sample_read_def new_sstable_info_def max_sstable_height_def batch_deref_def
        sample_store_def get_cur_min_invalid_offset_def new_cache_helper_def word_neq_0_conv [symmetric])
  then show ?thesis by (intro start_read_unwritten [of sample_read 20 ?b sample_pool]) (simp_all add: batch_pool_def)
qed

text \<open>
  A page with the keys 5, 3 and 8, a request for key 9 and a stack whose cell above the top happens
  to hold the offset and the number of that request.
\<close>

definition stuck_sstable :: sstable_info where
  "stuck_sstable = (new_sstable_info cmake_config (new_wait_queue 0 True) (\<lambda>_. 0) 1)\<lparr>
     ss_stack := \<lparr>st_back = 1, st_data = [Some (0, 1, 0, 2), Some (0, 1, 0, 2)]\<rparr>,
     ss_page_cache_buffers := [Some 40],
     ss_cache_helper := (new_cache_helper cmake_config)\<lparr>
       ch_cache_locations := [Some \<lparr>cl_left = 0, cl_right = 9, cl_buffer_id = 0\<rparr>],
       ch_id_of_most_recently_selected_buffer := 0\<rparr>,
     ss_desired_sstable_offset := 0\<rparr>"

definition stuck_read :: read_state where
  "stuck_read = \<lparr>tr_sstable = stuck_sstable, tr_mem = sample_mem, tr_store = sample_store,
     tr_pages = (\<lambda>_. [5, 0, 0, 3, 0, 0, 8, 0, 0]), tr_reads = []\<rparr>"

theorem tree_read_diverges_witness: "tree_read_loop cmake_config stuck_read = None"
proof -
  let ?loc = "\<lparr>cl_left = 0, cl_right = 9, cl_buffer_id = 0\<rparr>"
  have s: "tr_sstable stuck_read = stuck_sstable" "ss_desired_sstable_offset stuck_sstable = 0"
      "\<not> ss_waiting_on_io stuck_sstable" "\<not> stack_empty (ss_stack stuck_sstable)"
      "stack_top (ss_stack stuck_sstable) = Inr (0, 1, 0, 2)"
      "get_cur_min_invalid_offset (ss_cache_helper stuck_sstable) = -1"
    by (simp_all add: stuck_read_def stuck_sstable_def new_sstable_info_def stack_empty_def stack_top_def
        get_cur_min_invalid_offset_def new_cache_helper_def)
  have info: "get_buffer_info 0 (ss_cache_helper stuck_sstable) = Inr ?loc"
    by (simp add: stuck_sstable_def get_buffer_info_def search.simps ends_before_def cell_def Let_def)
  have parts: "cell (ss_page_cache_buffers stuck_sstable) 0 = Inr 40"
      "rbind (request_at stuck_read 1) (\<lambda>r. request_key cmake_config sample_mem (cr_buffer r)) = Inr [9]"
      "page_search (entry_key cmake_config [5, 0, 0, 3, 0, 0, 8, 0, 0]) (null_key 1) [9] 3 0 None None =
        Inr (6, Some True, Some (-1))"
    by code_simp+
  have "request_at (stuck_read\<lparr>tr_sstable := stuck_sstable\<lparr>ss_desired_sstable_offset := 0\<rparr>\<rparr>) 1 = request_at stuck_read 1"
    by (simp add: request_at_def stuck_read_def)
  then have "search_cached_page cmake_config (unat (1 :: uint)) ?loc
      (stuck_read\<lparr>tr_sstable := stuck_sstable\<lparr>ss_desired_sstable_offset := ucast (0 :: uint)\<rparr>\<rparr>) =
      Inr (stuck_read\<lparr>tr_sstable := stuck_sstable\<lparr>ss_desired_sstable_offset := 6\<rparr>\<rparr>)"
    using parts by (simp add: search_cached_page_def Let_def MEMTABLE_ENTRY_LENGTH_def
        stuck_read_def del: One_nat_def)
  moreover have "get_buffer_info (ucast (0 :: uint)) (ss_cache_helper stuck_sstable) = Inr ?loc" using info by simp
  ultimately show ?thesis
    using tree_read_diverges [of stuck_read stuck_sstable 0 1 0 2 ?loc cmake_config 6] s
    by (simp add: word_neq_0_conv [symmetric])
qed

end
