(* ===== verification/Startup.thy ===== *)
theory Startup
  imports SSTable_Read
begin

text \<open>
  Start-up in \<^verbatim>\<open>lsm_tree.hpp\<close>: how \<open>initialize\<close> marks levels and wait queues as single-threaded,
  how \<open>sstable_worker_thread\<close> divides the SSTables among the workers and the workers among the processors, and the initialization phase of
  a worker: the parameters of an SSTable, the path of its file, its page-cache buffers, and what is
  learnt from the first reads of the file.
\<close>

section \<open>Threads and SSTables\<close>

definition worker_sstables :: "config \<Rightarrow> nat \<Rightarrow> nat list" where
  "worker_sstables c worker_thread_num =
     (let first_sstable_num = worker_thread_num * WORKER_SSTABLE_BATCH_SIZE c
      in [first_sstable_num ..< first_sstable_num + WORKER_SSTABLE_BATCH_SIZE c])"

text \<open>
  The processor a worker is bound to. The remainder of a number that is not negative does not depend on the
  sign of the divisor.
\<close>

definition worker_cpu :: "config \<Rightarrow> nat \<Rightarrow> int res" where
  "worker_cpu c worker_thread_num =
     (let cores = int (NUM_PROCESSORS c) - 3
      in if cores = 0 then Inl DivByZero else Inr (3 + int worker_thread_num mod \<bar>cores\<bar>))"

definition sstable_position :: "config \<Rightarrow> nat \<Rightarrow> nat \<times> nat" where
  "sstable_position c sstable_num =
     (let level = sstable_num div LEVEL_FACTOR c in (level, sstable_num - level * LEVEL_FACTOR c))"

text \<open>\<open>sstable_infos[j].req_batch_wq.guard.is_single_thread = v\<close>.\<close>

definition set_wq_single :: "nat \<Rightarrow> bool \<Rightarrow> level_info \<Rightarrow> level_info res" where
  "set_wq_single j v li =
     rbind (rnth (li_sstable_infos li) j) (\<lambda>s.
       rbind (rupd (li_sstable_infos li) j (s\<lparr>ss_req_batch_wq := (ss_req_batch_wq s)\<lparr>wq_is_single_thread := v\<rparr>\<rparr>)) (\<lambda>ss.
         Inr (li\<lparr>li_sstable_infos := ss\<rparr>)))"

definition with_level :: "nat \<Rightarrow> (level_info \<Rightarrow> level_info res) \<Rightarrow> level_info list \<Rightarrow> level_info list res" where
  "with_level level f lis =
     rbind (rnth lis level) (\<lambda>li. rbind (f li) (\<lambda>li'. rupd lis level li'))"

text \<open>The first and the last level: everything single-threaded.\<close>

definition init_outer_level :: "config \<Rightarrow> level_info \<Rightarrow> level_info res" where
  "init_outer_level c li =
     rbind (set_is_single_thread c True li) (rfold (\<lambda>j. set_wq_single j True) [0 ..< LEVEL_FACTOR c])"

definition init_inner_level :: "config \<Rightarrow> nat \<Rightarrow> level_info \<Rightarrow> level_info res" where
  "init_inner_level c level li =
     (let per_worker = WORKER_SSTABLE_BATCH_SIZE c div LEVEL_FACTOR c
      in if per_worker = 0 then Inl DivByZero
         else
           let location = level mod per_worker;
               not_beginning = 0 < location;
               not_end = location < LEVEL_FACTOR c - 1
           in rbind (set_is_single_thread c (not_beginning \<and> not_end) li) (\<lambda>li1.
                rbind (rfold (\<lambda>j. set_wq_single j not_beginning) [0 ..< LEVEL_FACTOR c - 1] li1)
                  (set_wq_single (LEVEL_FACTOR c - 1) not_end)))"

definition init_levels :: "config \<Rightarrow> level_info list \<Rightarrow> level_info list res" where
  "init_levels c lis =
     rbind (with_level 0 (init_outer_level c) lis) (\<lambda>lis1.
       rbind (rfold (\<lambda>level. with_level level (init_inner_level c level)) [1 ..< NUM_SSTABLE_LEVELS c - 1] lis1)
         (with_level (NUM_SSTABLE_LEVELS c - 1) (init_outer_level c)))"

section \<open>Initializing an SSTable\<close>

text \<open>\<open>snprintf(dst, max_len, "%u", n)\<close>: the digits that fit, a terminating null byte; returns the number of digits.\<close>

fun digits :: "nat \<Rightarrow> byte list" where
  "digits n = (if n < 10 then [of_nat (48 + n)] else digits (n div 10) @ [of_nat (48 + n mod 10)])"

declare digits.simps [simp del]

definition snprintf_u :: "nat \<Rightarrow> nat \<Rightarrow> nat \<Rightarrow> byte list \<Rightarrow> (nat \<times> byte list) res" where
  "snprintf_u dst max_len n path =
     rbind (rblit path dst (take (max_len - 1) (digits n) @ [0])) (\<lambda>p. Inr (length (digits n), p))"

text \<open>
  The file path. \<open>memcpy(sstable_info, "/sstable", 8)\<close> writes to the start of the structure, which
  is the consumer guard of the wait queue, and not to \<open>file_path\<close>; the separator is put at index
  \<open>dir_len\<close>, not behind the directory.
\<close>

definition sstable_path :: "nat \<Rightarrow> nat \<Rightarrow> byte list \<Rightarrow> byte list res" where
  "sstable_path level index_in_level path =
     rbind (snprintf_u 8 level_str_len level path) (\<lambda>(dir_len, path1).
       rbind (rupd path1 dir_len 47) (\<lambda>path2.
         rbind (snprintf_u (dir_len + 1) sstable_number_str_len index_in_level path2) (\<lambda>(_, path3). Inr path3)))"

definition init_page_cache_buffer ::
    "config \<Rightarrow> nat \<Rightarrow> nat \<Rightarrow> nat \<Rightarrow> sstable_info \<Rightarrow> sstable_info res" where
  "init_page_cache_buffer c base sstable_num m s =
     rbind (rupd (ss_page_cache_buffers s) m
              (Some (base + fair_aligned_sstable_page_cache_buffer_size c * (sstable_num + m)))) (\<lambda>bufs.
       Inr (s\<lparr>ss_page_cache_buffers := bufs, ss_cache_helper := add_buffer (ss_cache_helper s)\<rparr>))"

definition init_sstable :: "config \<Rightarrow> nat \<Rightarrow> nat \<Rightarrow> sstable_info \<Rightarrow> sstable_info res" where
  "init_sstable c base sstable_num s =
     (if ss_desired_sstable_offset s \<noteq> -2 then Inr s
      else
        let (level, index_in_level) = sstable_position c sstable_num
        in rbind (sstable_path level index_in_level (ss_file_path s)) (\<lambda>path.
             rfold (init_page_cache_buffer c base sstable_num) [0 ..< max_sstable_height c]
               (s\<lparr>ss_min_key := replicate (KEY_LENGTH c) 255, ss_max_key := replicate (KEY_LENGTH c) 0,
                  ss_req_batch_wq := (ss_req_batch_wq s)\<lparr>wq_atomic_consumer_guard := 47\<rparr>,
                  ss_file_path := path, ss_desired_sstable_offset := 0,
                  ss_insert_buffers_from := of_nat (max_sstable_height c)\<rparr>)))"

section \<open>The first reads\<close>

text \<open>
  The loop over the entries of a chunk uses the number \<open>i\<close> of the SSTable the worker is visiting as
  the index of the entry, and copies the SSTable's bounds into the page instead of the key into the
  bounds.
\<close>

definition init_entry ::
    "config \<Rightarrow> nat \<Rightarrow> key \<Rightarrow> key \<Rightarrow> byte list \<times> bloom_filter \<Rightarrow> (byte list \<times> bloom_filter) res" where
  "init_entry c i min_key max_key pf =
     (let (page, flt) = pf; pos = i * MEMTABLE_ENTRY_LENGTH c
      in rbind (entry_value c page i) (\<lambda>v.
           if memcmp v (replicate (VALUE_LENGTH c) 0) = 0 then Inr (page, flt)
           else rbind (entry_key c page i) (\<lambda>k.
                  rbind (if memcmp k min_key < 0 then rblit page pos min_key else Inr page) (\<lambda>page1.
                    rbind (if memcmp k max_key > 0 then rblit page1 pos max_key else Inr page1) (\<lambda>page2.
                      rbind (insert_key (drop pos page2) flt) (\<lambda>flt'. Inr (page2, flt')))))))"

fun init_entries ::
    "config \<Rightarrow> nat \<Rightarrow> nat \<Rightarrow> key \<Rightarrow> key \<Rightarrow> byte list \<times> bloom_filter \<Rightarrow> (byte list \<times> bloom_filter) res" where
  "init_entries c 0 i min_key max_key pf = Inr pf"
| "init_entries c (Suc n) i min_key max_key pf =
     rbind (init_entry c i min_key max_key pf) (init_entries c n i min_key max_key)"

text \<open>
  The entries of the submission queues that matter: a read of a number of bytes at an offset into a
  buffer, the opening of a file, and the message with an SSTable's number to the worker's own ring,
  which is sent when the operations before it have completed.
\<close>

datatype startup_sqe =
    Init_read nat buf nat usize
  | Init_open "byte list"
  | Init_msg nat

definition schedule_initialization_read ::
    "config \<Rightarrow> nat \<Rightarrow> sstable_info \<Rightarrow> startup_sqe list \<Rightarrow> startup_sqe list res" where
  "schedule_initialization_read c sstable_num s ring =
     (let n = fair_aligned_sstable_page_cache_buffer_size c; offset = ss_desired_sstable_offset s
      in rbind (cell (ss_page_cache_buffers s) 0) (\<lambda>b0.
           rbind (cell (ss_page_cache_buffers s) 1) (\<lambda>b1.
             Inr (ring @ [Init_read sstable_num b0 n offset, Init_read sstable_num b1 n (offset + of_nat n),
                          Init_msg sstable_num]))))"

record init_state =
  in_sstable :: sstable_info
  in_pages :: "buf \<Rightarrow> byte list"
  in_filter :: bloom_filter
  in_sparse_index :: sparse_index
  in_num_read :: nat
  in_ring :: "startup_sqe list"

text \<open>One of the two completions of a pair of reads: first the entries that were read.\<close>

definition init_chunk_entries :: "config \<Rightarrow> nat \<Rightarrow> nat \<Rightarrow> int \<Rightarrow> init_state \<Rightarrow> init_state res" where
  "init_chunk_entries c i j cqe_res st =
     (if cqe_res > 0 then
        let s = in_sstable st
        in rbind (cell (ss_page_cache_buffers s) j) (\<lambda>b.
             rbind (init_entries c (nat cqe_res div MEMTABLE_ENTRY_LENGTH c) i (ss_min_key s) (ss_max_key s)
                      (in_pages st b, in_filter st)) (\<lambda>(page', flt).
               Inr (st\<lparr>in_sstable := s\<lparr>ss_desired_sstable_offset := ss_desired_sstable_offset s + word_of_int cqe_res,
                                      ss_is_flushed_to := True\<rparr>,
                       in_pages := (in_pages st)(b := page'), in_filter := flt\<rparr>)))
      else Inr st)"

text \<open>
  Then the end of the file, or the next pair of reads. A negative result is large when it is compared
  with the unsigned buffer size.
\<close>

definition init_chunk_end :: "config \<Rightarrow> nat \<Rightarrow> nat \<Rightarrow> nat \<Rightarrow> int \<Rightarrow> init_state \<Rightarrow> init_state res" where
  "init_chunk_end c sstable_num index_in_level j cqe_res st =
     (let s = in_sstable st
      in if to_unsigned cqe_res < fair_aligned_sstable_page_cache_buffer_size c then
           rbind (insert_range c (ss_min_key s) (ss_max_key s) index_in_level (in_sparse_index st)) (\<lambda>ix.
             Inr (st\<lparr>in_sstable := s\<lparr>ss_desired_sstable_offset := -1, ss_waiting_on_io := False\<rparr>,
                     in_sparse_index := ix, in_num_read := in_num_read st + 1\<rparr>))
         else if j = 1 then
           rbind (schedule_initialization_read c sstable_num s (in_ring st)) (\<lambda>ring. Inr (st\<lparr>in_ring := ring\<rparr>))
         else Inr st)"

definition init_chunk :: "config \<Rightarrow> nat \<Rightarrow> nat \<Rightarrow> nat \<Rightarrow> nat \<Rightarrow> int \<Rightarrow> init_state \<Rightarrow> init_state res" where
  "init_chunk c i sstable_num index_in_level j cqe_res st =
     rbind (init_chunk_entries c i j cqe_res st) (init_chunk_end c sstable_num index_in_level j cqe_res)"

definition init_completion :: "config \<Rightarrow> nat \<Rightarrow> nat \<Rightarrow> nat \<Rightarrow> int \<Rightarrow> int \<Rightarrow> init_state \<Rightarrow> init_state res" where
  "init_completion c i sstable_num index_in_level res0 res1 st =
     rbind (init_chunk c i sstable_num index_in_level 0 res0 st) (init_chunk c i sstable_num index_in_level 1 res1)"


section \<open>Properties\<close>

text \<open>
  The workers are spread evenly over the last processors: each is bound to one of them, and of the first \<open>w\<close> workers
  no processor gets more than one more than another.
\<close>

lemma worker_cpu_range:
  assumes "3 < NUM_PROCESSORS c"
  shows "\<exists>r < NUM_PROCESSORS c - 3. worker_cpu c n = Inr (int (3 + r)) \<and> r = n mod (NUM_PROCESSORS c - 3)"
  using assms by (intro exI [of _ "n mod (NUM_PROCESSORS c - 3)"])
    (simp add: worker_cpu_def Let_def zmod_int of_nat_diff)

lemma card_residues:
  assumes "0 < (d :: nat)" "r < d"
  shows "card {n. n < w \<and> n mod d = r} = w div d + (if r < w mod d then 1 else 0)"
proof (induction w)
  case (Suc w)
  have "{n. n < Suc w \<and> n mod d = r} = (if w mod d = r then insert w else id) {n. n < w \<and> n mod d = r}"
    by (auto simp: less_Suc_eq)
  then have "card {n. n < Suc w \<and> n mod d = r} = (if w mod d = r then 1 else 0) + card {n. n < w \<and> n mod d = r}"
    by simp
  then show ?case using Suc assms by (auto simp: div_Suc mod_Suc)
qed simp

lemma worker_cpu_balanced:
  assumes "3 < NUM_PROCESSORS c" "i < NUM_PROCESSORS c - 3" "j < NUM_PROCESSORS c - 3"
  shows "card {n. n < w \<and> worker_cpu c n = Inr (int (3 + i))} \<le> card {n. n < w \<and> worker_cpu c n = Inr (int (3 + j))} + 1"
proof -
  have "worker_cpu c n = Inr (int (3 + r)) \<longleftrightarrow> n mod (NUM_PROCESSORS c - 3) = r" for n r
    using worker_cpu_range [OF assms(1), of n] by auto
  then show ?thesis using assms by (simp add: card_residues)
qed

lemma worker_cpu_three: "NUM_PROCESSORS c = 3 \<Longrightarrow> worker_cpu c n = Inl DivByZero"
  by (simp add: worker_cpu_def)

subsection \<open>Threads and SSTables\<close>

lemma concat_upt_chunks: "concat (map (\<lambda>i. [i * b ..< i * b + b]) [0 ..< n]) = [0 ..< n * b]"
proof (induction n)
  case (Suc n)
  have "[0 ..< n * b + b] = [0 ..< n * b] @ [n * b ..< n * b + b]" by (simp add: upt_add_eq_append [of 0])
  with Suc show ?case by (simp add: add.commute)
qed simp

text \<open>
  The workers' ranges are consecutive, disjoint and start at SSTable 0, but the division in
  \<open>WORKER_SSTABLE_BATCH_SIZE\<close> leaves the last \<open>NUM_SSTABLES mod NUM_SSTABLE_WORKER_THREADS\<close> SSTables to
  no worker. With the shipped configuration 400 of the 500 SSTables are initialized and served.
\<close>

lemma worker_sstables_cover:
  "concat (map (worker_sstables c) [0 ..< NUM_SSTABLE_WORKER_THREADS c]) =
     [0 ..< NUM_SSTABLES c - NUM_SSTABLES c mod NUM_SSTABLE_WORKER_THREADS c] \<and>
   concat (map (worker_sstables cmake_config) [0 ..< NUM_SSTABLE_WORKER_THREADS cmake_config]) = [0 ..< 400] \<and>
   NUM_SSTABLES cmake_config = 500"
proof -
  have *: "concat (map (worker_sstables c) [0 ..< NUM_SSTABLE_WORKER_THREADS c]) =
      [0 ..< NUM_SSTABLES c - NUM_SSTABLES c mod NUM_SSTABLE_WORKER_THREADS c]" for c
    using concat_upt_chunks [of "WORKER_SSTABLE_BATCH_SIZE c" "NUM_SSTABLE_WORKER_THREADS c"]
    by (simp add: worker_sstables_def [abs_def] Let_def WORKER_SSTABLE_BATCH_SIZE_def minus_mod_eq_mult_div)
  show ?thesis using * [of c] * [of cmake_config] by (simp add: NUM_SSTABLES_def)
qed

text \<open>
  \<open>sstable_num / LEVEL_FACTOR\<close> and the remainder number the SSTables of all levels one to one.
\<close>

lemma sstable_position_bij:
  "bij_betw (sstable_position c) {0 ..< NUM_SSTABLE_LEVELS c * LEVEL_FACTOR c}
     ({0 ..< NUM_SSTABLE_LEVELS c} \<times> {0 ..< LEVEL_FACTOR c})"
proof (rule bij_betw_byWitness [where f' = "\<lambda>(l, i). l * LEVEL_FACTOR c + i"])
  let ?f = "LEVEL_FACTOR c"
  have pos: "sstable_position c n = (n div ?f, n mod ?f)" for n
    by (simp add: sstable_position_def Let_def minus_div_mult_eq_mod)
  show "\<forall>n \<in> {0 ..< NUM_SSTABLE_LEVELS c * ?f}. (case sstable_position c n of (l, i) \<Rightarrow> l * ?f + i) = n"
    by (simp add: pos)
  show "\<forall>p \<in> {0 ..< NUM_SSTABLE_LEVELS c} \<times> {0 ..< ?f}. sstable_position c (case p of (l, i) \<Rightarrow> l * ?f + i) = p"
    by (auto simp: pos)
  show "sstable_position c ` {0 ..< NUM_SSTABLE_LEVELS c * ?f} \<subseteq> {0 ..< NUM_SSTABLE_LEVELS c} \<times> {0 ..< ?f}"
  proof -
    have "n div ?f < NUM_SSTABLE_LEVELS c \<and> n mod ?f < ?f" if "n < NUM_SSTABLE_LEVELS c * ?f" for n
    proof -
      have "0 < ?f" using that by (cases "?f = 0") simp_all
      with that show ?thesis by (simp add: less_mult_imp_div_less)
    qed
    then show ?thesis by (auto simp: pos)
  qed
  show "(\<lambda>(l, i). l * ?f + i) ` ({0 ..< NUM_SSTABLE_LEVELS c} \<times> {0 ..< ?f}) \<subseteq> {0 ..< NUM_SSTABLE_LEVELS c * ?f}"
  proof -
    have "l * ?f + i < n * ?f" if "l < n" "i < ?f" for l i n
      using that mult_le_mono1 [of "Suc l" n ?f] by simp
    then show ?thesis by auto
  qed
qed

subsection \<open>Marking the levels\<close>

lemma extend_update:
  assumes "a \<le> b" "b < length xs"
  shows "(map (\<lambda>i. if a \<le> i \<and> i < b then g i else xs ! i) [0 ..< length xs])[b := g b] =
    map (\<lambda>i. if a \<le> i \<and> i < Suc b then g i else xs ! i) [0 ..< length xs]"
  using assms by (intro nth_equalityI) (simp_all add: nth_list_update less_Suc_eq)

lemma rfold_with_level:
  assumes "\<And>i. a \<le> i \<Longrightarrow> i < b \<Longrightarrow> f i (xs ! i) = Inr (g i (xs ! i))" and "b \<le> length xs"
  shows "rfold (\<lambda>i. with_level i (f i)) [a ..< b] xs =
    Inr (map (\<lambda>i. if a \<le> i \<and> i < b then g i (xs ! i) else xs ! i) [0 ..< length xs])"
  using assms
proof (induction b)
  case 0
  then show ?case by (simp add: map_nth)
next
  case (Suc b)
  show ?case
  proof (cases "a \<le> b")
    case True
    have "rfold (\<lambda>i. with_level i (f i)) [a ..< b] xs =
        Inr (map (\<lambda>i. if a \<le> i \<and> i < b then g i (xs ! i) else xs ! i) [0 ..< length xs])"
      using Suc by simp
    moreover have "with_level b (f b) (map (\<lambda>i. if a \<le> i \<and> i < b then g i (xs ! i) else xs ! i) [0 ..< length xs]) =
        Inr (map (\<lambda>i. if a \<le> i \<and> i < Suc b then g i (xs ! i) else xs ! i) [0 ..< length xs])"
      using True Suc.prems extend_update [OF True, of xs "\<lambda>i. g i (xs ! i)"] by (simp add: with_level_def)
    ultimately show ?thesis using True by (simp add: rfold_append)
  next
    case False
    then have none: "(a \<le> i \<and> i < Suc b) = False" for i by auto
    from False show ?thesis using map_nth [of xs] by (simp add: none)
  qed
qed

lemma rfold_set_wq_single:
  assumes "b \<le> length (li_sstable_infos li)"
  shows "rfold (\<lambda>j. set_wq_single j v) [a ..< b] li =
    Inr (li\<lparr>li_sstable_infos := map (\<lambda>j. if a \<le> j \<and> j < b then
        (li_sstable_infos li ! j)\<lparr>ss_req_batch_wq := (ss_req_batch_wq (li_sstable_infos li ! j))\<lparr>wq_is_single_thread := v\<rparr>\<rparr>
        else li_sstable_infos li ! j) [0 ..< length (li_sstable_infos li)]\<rparr>)"
  using assms
proof (induction b)
  case 0
  then show ?case by (simp add: map_nth)
next
  case (Suc b)
  show ?case
  proof (cases "a \<le> b")
    case True
    let ?ss = "li_sstable_infos li"
    let ?g = "\<lambda>j. (?ss ! j)\<lparr>ss_req_batch_wq := (ss_req_batch_wq (?ss ! j))\<lparr>wq_is_single_thread := v\<rparr>\<rparr>"
    have "rfold (\<lambda>j. set_wq_single j v) [a ..< b] li =
        Inr (li\<lparr>li_sstable_infos := map (\<lambda>j. if a \<le> j \<and> j < b then ?g j else ?ss ! j) [0 ..< length ?ss]\<rparr>)"
      using Suc by simp
    moreover have "set_wq_single b v
          (li\<lparr>li_sstable_infos := map (\<lambda>j. if a \<le> j \<and> j < b then ?g j else ?ss ! j) [0 ..< length ?ss]\<rparr>) =
        Inr (li\<lparr>li_sstable_infos := map (\<lambda>j. if a \<le> j \<and> j < Suc b then ?g j else ?ss ! j) [0 ..< length ?ss]\<rparr>)"
      using True Suc.prems extend_update [OF True, of ?ss ?g] by (simp add: set_wq_single_def)
    ultimately show ?thesis using True by (simp add: rfold_append)
  next
    case False
    then have none: "(a \<le> i \<and> i < Suc b) = False" for i by auto
    from False show ?thesis using map_nth [of "li_sstable_infos li"] by (simp add: none)
  qed
qed


text \<open>A level whose buffer queues carry the flag \<open>b\<close> and whose \<open>j\<close>-th wait queue carries \<open>f j\<close>.\<close>

definition marked :: "bool \<Rightarrow> (nat \<Rightarrow> bool) \<Rightarrow> level_info \<Rightarrow> level_info" where
  "marked b f li =
     li\<lparr>li_buffer_queues := map (bq_is_single_thread_update (\<lambda>_. b)) (li_buffer_queues li),
        li_sstable_infos := map (\<lambda>j. (li_sstable_infos li ! j)\<lparr>ss_req_batch_wq :=
            (ss_req_batch_wq (li_sstable_infos li ! j))\<lparr>wq_is_single_thread := f j\<rparr>\<rparr>)
          [0 ..< length (li_sstable_infos li)]\<rparr>"

definition level_ok :: "config \<Rightarrow> level_info \<Rightarrow> bool" where
  "level_ok c li \<longleftrightarrow>
     length (li_buffer_queues li) = LEVEL_FACTOR c \<and> length (li_sstable_infos li) = LEVEL_FACTOR c"

lemma init_outer_level_marked:
  assumes "level_ok c li"
  shows "init_outer_level c li = Inr (marked True (\<lambda>_. True) li)"
proof -
  have len: "length (li_buffer_queues li) = LEVEL_FACTOR c" "length (li_sstable_infos li) = LEVEL_FACTOR c"
    using assms by (simp_all add: level_ok_def)
  let ?li = "li\<lparr>li_buffer_queues := map (bq_is_single_thread_update (\<lambda>_. True)) (li_buffer_queues li)\<rparr>"
  show ?thesis using set_is_single_thread_result [OF len(1), of True] rfold_set_wq_single [of "LEVEL_FACTOR c" ?li True 0] len(2)
    by (simp add: init_outer_level_def marked_def)
qed

lemma init_inner_level_marked:
  assumes "level_ok c li" "0 < LEVEL_FACTOR c" "0 < WORKER_SSTABLE_BATCH_SIZE c div LEVEL_FACTOR c"
    and "location = level mod (WORKER_SSTABLE_BATCH_SIZE c div LEVEL_FACTOR c)"
  shows "init_inner_level c level li =
    Inr (marked (0 < location \<and> location < LEVEL_FACTOR c - 1)
      (\<lambda>j. if j = LEVEL_FACTOR c - 1 then location < LEVEL_FACTOR c - 1 else 0 < location) li)"
proof -
  let ?nb = "0 < location" and ?ne = "location < LEVEL_FACTOR c - 1" and ?n = "LEVEL_FACTOR c - 1"
  have len: "length (li_buffer_queues li) = LEVEL_FACTOR c" "length (li_sstable_infos li) = LEVEL_FACTOR c"
    using assms by (simp_all add: level_ok_def)
  let ?li = "li\<lparr>li_buffer_queues := map (bq_is_single_thread_update (\<lambda>_. ?nb \<and> ?ne)) (li_buffer_queues li)\<rparr>"
  let ?g = "\<lambda>v j. (li_sstable_infos li ! j)\<lparr>ss_req_batch_wq := (ss_req_batch_wq (li_sstable_infos li ! j))\<lparr>wq_is_single_thread := v\<rparr>\<rparr>"
  let ?ss = "map (\<lambda>j. if j < ?n then ?g ?nb j else li_sstable_infos li ! j) [0 ..< LEVEL_FACTOR c]"
  have first: "rfold (\<lambda>j. set_wq_single j ?nb) [0 ..< ?n] ?li = Inr (?li\<lparr>li_sstable_infos := ?ss\<rparr>)"
    using rfold_set_wq_single [of ?n ?li ?nb 0] len(2) by simp
  have "?ss[?n := ?g ?ne ?n] = map (\<lambda>j. ?g (if j = ?n then ?ne else ?nb) j) [0 ..< LEVEL_FACTOR c]"
    using assms(2) by (intro nth_equalityI) (auto simp: nth_list_update)
  then have "set_wq_single ?n ?ne (?li\<lparr>li_sstable_infos := ?ss\<rparr>) =
      Inr (marked (?nb \<and> ?ne) (\<lambda>j. if j = ?n then ?ne else ?nb) li)"
    using assms(2) len(2) by (simp add: set_wq_single_def marked_def)
  with first set_is_single_thread_result [OF len(1), of "?nb \<and> ?ne"] assms(3) show ?thesis
    by (simp add: init_inner_level_def Let_def flip: assms(4))
qed


text \<open>
  C39. What \<open>initialize\<close> marks as accessed by one thread only: everything on the first and the last
  level, and on a level in between what its position in the worker's range gives. Where a worker
  has fewer SSTables than a level, as in the shipped configuration, the position is a remainder by
  zero and \<open>initialize\<close> cannot start.
\<close>

theorem init_levels_result:
  assumes "length lis = NUM_SSTABLE_LEVELS c" "\<forall>li \<in> set lis. level_ok c li"
    and "3 \<le> NUM_SSTABLE_LEVELS c" "0 < LEVEL_FACTOR c"
  shows "init_levels c lis =
    (if WORKER_SSTABLE_BATCH_SIZE c < LEVEL_FACTOR c then Inl DivByZero
     else Inr (map (\<lambda>level.
       if level = 0 \<or> level = NUM_SSTABLE_LEVELS c - 1 then marked True (\<lambda>_. True) (lis ! level)
       else
         let location = level mod (WORKER_SSTABLE_BATCH_SIZE c div LEVEL_FACTOR c)
         in marked (0 < location \<and> location < LEVEL_FACTOR c - 1)
              (\<lambda>j. if j = LEVEL_FACTOR c - 1 then location < LEVEL_FACTOR c - 1 else 0 < location) (lis ! level))
       [0 ..< NUM_SSTABLE_LEVELS c]))"
proof -
  let ?n = "NUM_SSTABLE_LEVELS c - 1" and ?out = "marked True (\<lambda>_. True)"
  let ?per = "WORKER_SSTABLE_BATCH_SIZE c div LEVEL_FACTOR c"
  let ?inner = "\<lambda>level. marked (0 < level mod ?per \<and> level mod ?per < LEVEL_FACTOR c - 1)
    (\<lambda>j. if j = LEVEL_FACTOR c - 1 then level mod ?per < LEVEL_FACTOR c - 1 else 0 < level mod ?per)"
  have ok: "level_ok c (lis ! i)" if "i < NUM_SSTABLE_LEVELS c" for i using assms(1,2) that by simp
  let ?lis1 = "lis[0 := ?out (lis ! 0)]"
  have first: "with_level 0 (init_outer_level c) lis = Inr ?lis1"
    using assms(1,3) ok [of 0] by (simp add: with_level_def init_outer_level_marked)
  show ?thesis
  proof (cases "WORKER_SSTABLE_BATCH_SIZE c < LEVEL_FACTOR c")
    case True
    have "[1 ..< ?n] = 1 # [2 ..< ?n]" using assms(3) by (simp add: upt_conv_Cons numeral_2_eq_2)
    moreover have "with_level 1 (init_inner_level c 1) ?lis1 = Inl DivByZero"
      using True assms(1,3) by (simp add: with_level_def init_inner_level_def)
    ultimately show ?thesis using True first by (simp add: init_levels_def)
  next
    case False
    then have per: "0 < ?per" using assms(4) by (simp add: div_greater_zero_iff)
    let ?lis2 = "map (\<lambda>i. if 1 \<le> i \<and> i < ?n then ?inner i (?lis1 ! i) else ?lis1 ! i) [0 ..< length ?lis1]"
    have "init_inner_level c i (?lis1 ! i) = Inr (?inner i (?lis1 ! i))" if "1 \<le> i" "i < ?n" for i
      using that ok [of i] init_inner_level_marked [OF _ assms(4) per refl, of "lis ! i" i] by simp
    then have second: "rfold (\<lambda>level. with_level level (init_inner_level c level)) [1 ..< ?n] ?lis1 = Inr ?lis2"
      using assms(1,3) by (intro rfold_with_level) simp_all
    have "?lis2 ! ?n = lis ! ?n" using assms(1,3) by simp
    then have third: "with_level ?n (init_outer_level c) ?lis2 = Inr (?lis2[?n := ?out (lis ! ?n)])"
      using assms(1,3) ok [of ?n] by (simp add: with_level_def init_outer_level_marked)
    have "?lis2[?n := ?out (lis ! ?n)] = map (\<lambda>level. if level = 0 \<or> level = ?n then ?out (lis ! level)
        else ?inner level (lis ! level)) [0 ..< NUM_SSTABLE_LEVELS c]"
      using assms(1,3) by (intro nth_equalityI) (auto simp: nth_list_update)
    with False first second third show ?thesis by (simp add: init_levels_def Let_def)
  qed
qed


definition idle_level :: level_info where
  "idle_level = sample_level\<lparr>li_sstable_infos :=
     replicate 10 (new_sstable_info cmake_config (new_wait_queue 0 False) (\<lambda>_. 0) 0)\<rparr>"

theorem init_levels_result_witness: "init_levels cmake_config (replicate 50 idle_level) = Inl DivByZero"
proof -
  have c: "NUM_SSTABLE_LEVELS cmake_config = 50" "WORKER_SSTABLE_BATCH_SIZE cmake_config = 2"
    by (simp_all add: NUM_SSTABLE_LEVELS_def WORKER_SSTABLE_BATCH_SIZE_def NUM_SSTABLES_def)
  have "level_ok cmake_config idle_level" by (simp add: level_ok_def idle_level_def sample_level_def)
  then show ?thesis using init_levels_result [of "replicate 50 idle_level" cmake_config] by (simp add: c)
qed

subsection \<open>The file of an SSTable\<close>

text \<open>What \<open>openat\<close> makes of the path: the bytes before the first null byte.\<close>

definition c_string :: "byte list \<Rightarrow> byte list" where
  "c_string path = takeWhile (\<lambda>b. b \<noteq> 0) path"

lemma digits_nonzero: "b \<in> set (digits n) \<Longrightarrow> b \<noteq> 0"
proof (induction n rule: digits.induct)
  case (1 n)
  have "(of_nat (48 + d) :: byte) \<noteq> 0" if "d < 10" for d
  proof
    assume "(of_nat (48 + d) :: byte) = 0"
    then have "unat (of_nat (48 + d) :: byte) = 0" by (simp only: unsigned_0)
    then show False using that by (simp only: unat_of_nat) simp
  qed
  with 1 show ?case by (subst (asm) (2) digits.simps) (auto split: if_splits)
qed

lemma digits_length: "n < 10 ^ d \<Longrightarrow> 0 < d \<Longrightarrow> length (digits n) \<le> d"
proof (induction d arbitrary: n)
  case (Suc d)
  show ?case
  proof (cases "n < 10")
    case True
    then show ?thesis by (subst digits.simps) simp
  next
    case False
    then have "n div 10 < 10 ^ d" using Suc.prems by (simp add: less_mult_imp_div_less mult.commute)
    moreover have "0 < d" using False Suc.prems by (cases d) simp_all
    ultimately have "length (digits (n div 10)) \<le> d" by (rule Suc.IH)
    then show ?thesis using False by (subst digits.simps) simp
  qed
qed simp


lemma c_string_null: "c_string (xs @ 0 # ys) = c_string xs"
  by (induction xs) (simp_all add: c_string_def)

lemma sstable_path_file:
  assumes "length path = file_path_length" "level < 10 ^ 8" "index_in_level < 10 ^ 9"
  shows "\<exists>p. sstable_path level index_in_level path = Inr p \<and>
    c_string p = c_string (take (length (digits level)) path @ 47 # digits index_in_level)"
proof -
  let ?d = "digits level" and ?e = "digits index_in_level"
  have len: "length ?d \<le> 8" "length ?e \<le> 9" using assms(2,3) by (simp_all add: digits_length)
  let ?p1 = "blit path 8 (?d @ [0])" and ?n = "length ?d"
  let ?p2 = "?p1[?n := 47]"
  let ?p3 = "blit ?p2 (?n + 1) (?e @ [0])"
  have l: "length path = 29" using assms(1) by (simp add: file_path_length_def level_str_len_def sstable_number_str_len_def)
  then have l2: "length ?p2 = 29" using len by simp
  have "sstable_path level index_in_level path = Inr ?p3"
    using len l l2 by (simp add: sstable_path_def snprintf_u_def level_str_len_def sstable_number_str_len_def)
  moreover have "take ?n ?p2 = take ?n path" using len l by (simp add: blit_def)
  moreover have "?p2 ! ?n = 47" using len l by simp
  ultimately have "take (?n + 1) ?p2 = take ?n path @ [47]"
    using take_Suc_conv_app_nth [of ?n ?p2] l2 len by simp
  then have "?p3 = (take ?n path @ 47 # ?e) @ 0 # drop (?n + 1 + length (?e @ [0])) ?p2"
    by (simp add: blit_def)
  then have "c_string ?p3 = c_string (take ?n path @ 47 # ?e)" by (simp only: c_string_null)
  with \<open>sstable_path level index_in_level path = Inr ?p3\<close> show ?thesis by blast
qed

text \<open>
  The path of an SSTable's file does not contain its level: the separator and the number in the
  level are written over the place where the level should be, so SSTables with the same number on
  levels of equally many digits open the same file.
\<close>

lemma sstable_path_collides:
  assumes "length path = file_path_length" "level < 10 ^ 8" "level' < 10 ^ 8" "index_in_level < 10 ^ 9"
    and "length (digits level) = length (digits level')"
  shows "\<exists>p p'. sstable_path level index_in_level path = Inr p \<and> sstable_path level' index_in_level path = Inr p' \<and>
    c_string p = c_string p' \<and>
    c_string p = c_string (take (length (digits level)) path @ 47 # digits index_in_level)"
  using sstable_path_file [OF assms(1,2,4)] sstable_path_file [OF assms(1,3,4)] assms(5) by auto

lemma sstable_path_collides_example:
  "\<exists>p p'. sstable_path 3 2 (replicate 29 97) = Inr p \<and> sstable_path 7 2 (replicate 29 97) = Inr p' \<and>
    c_string p = [97, 47, 50] \<and> c_string p' = [97, 47, 50]"
proof -
  have d: "digits 3 = [51]" "digits 7 = [55]" "digits 2 = [50]" by (subst digits.simps, simp)+
  show ?thesis using sstable_path_collides [of "replicate 29 97" 3 7 2]
    by (auto simp: d c_string_def file_path_length_def level_str_len_def sstable_number_str_len_def)
qed


subsection \<open>The page-cache buffers of an SSTable\<close>

lemma init_page_cache_buffers:
  assumes "n \<le> length (ss_page_cache_buffers s)"
  shows "rfold (init_page_cache_buffer c base sstable_num) [0 ..< n] s =
    Inr (s\<lparr>ss_page_cache_buffers :=
             map (\<lambda>m. Some (base + fair_aligned_sstable_page_cache_buffer_size c * (sstable_num + m))) [0 ..< n] @
             drop n (ss_page_cache_buffers s),
           ss_cache_helper := (add_buffer ^^ n) (ss_cache_helper s)\<rparr>)"
  using assms
proof (induction n)
  case (Suc n)
  have "drop n (ss_page_cache_buffers s) = ss_page_cache_buffers s ! n # drop (Suc n) (ss_page_cache_buffers s)"
    using Suc.prems by (simp add: Cons_nth_drop_Suc)
  then show ?case using Suc
    by (simp add: rfold_append init_page_cache_buffer_def list_update_append)
qed simp

definition fresh_sstable :: "config \<Rightarrow> nat \<Rightarrow> sstable_info \<Rightarrow> bool" where
  "fresh_sstable c sstable_num s \<longleftrightarrow>
     ss_desired_sstable_offset s = -2 \<and> length (ss_file_path s) = file_path_length \<and>
     max_sstable_height c \<le> length (ss_page_cache_buffers s) \<and>
     sstable_num div LEVEL_FACTOR c < 10 ^ 8 \<and> sstable_num mod LEVEL_FACTOR c < 10 ^ 9"

lemma init_sstable_ok:
  assumes "fresh_sstable c n s"
  shows "\<exists>s'. init_sstable c base n s = Inr s' \<and> ss_desired_sstable_offset s' = 0 \<and>
    ss_min_key s' = replicate (KEY_LENGTH c) 255 \<and> ss_max_key s' = replicate (KEY_LENGTH c) 0 \<and>
    wq_atomic_consumer_guard (ss_req_batch_wq s') = 47 \<and>
    take (max_sstable_height c) (ss_page_cache_buffers s') =
      map (\<lambda>m. Some (base + fair_aligned_sstable_page_cache_buffer_size c * (n + m))) [0 ..< max_sstable_height c]"
proof -
  let ?l = "n div LEVEL_FACTOR c" and ?i = "n mod LEVEL_FACTOR c"
  from sstable_path_file [of "ss_file_path s" ?l ?i] assms obtain p
    where p: "sstable_path ?l ?i (ss_file_path s) = Inr p" by (auto simp: fresh_sstable_def)
  let ?s = "s\<lparr>ss_min_key := replicate (KEY_LENGTH c) 255, ss_max_key := replicate (KEY_LENGTH c) 0,
      ss_req_batch_wq := (ss_req_batch_wq s)\<lparr>wq_atomic_consumer_guard := 47\<rparr>,
      ss_file_path := p, ss_desired_sstable_offset := 0, ss_insert_buffers_from := of_nat (max_sstable_height c)\<rparr>"
  show ?thesis using p assms init_page_cache_buffers [of "max_sstable_height c" ?s c base n]
    by (simp add: init_sstable_def sstable_position_def Let_def minus_div_mult_eq_mod fresh_sstable_def)
qed

text \<open>
  Initializing two neighbouring SSTables of a worker succeeds, leaves the range that no key lies
  in, and gives them all but one page-cache buffer in common: the buffers of an SSTable start at
  its number and not at its number times the buffers per SSTable. Both wait queues are left with a
  consumer guard of 47, the first byte of the directory name copied over it.
\<close>

lemma init_sstable_shares_buffers:
  assumes "fresh_sstable c n s" "fresh_sstable c (Suc n) t"
  shows "\<exists>s' t'. init_sstable c base n s = Inr s' \<and> init_sstable c base (Suc n) t = Inr t' \<and>
    ss_min_key s' = replicate (KEY_LENGTH c) 255 \<and> ss_max_key s' = replicate (KEY_LENGTH c) 0 \<and>
    wq_atomic_consumer_guard (ss_req_batch_wq s') = 47 \<and> wq_atomic_consumer_guard (ss_req_batch_wq t') = 47 \<and>
    tl (take (max_sstable_height c) (ss_page_cache_buffers s')) =
      butlast (take (max_sstable_height c) (ss_page_cache_buffers t'))"
proof -
  let ?f = "\<lambda>n m. Some (base + fair_aligned_sstable_page_cache_buffer_size c * (n + m))"
  have "tl (map (?f n) [0 ..< h]) = butlast (map (?f (Suc n)) [0 ..< h])" for h
  proof (cases h)
    case (Suc k)
    have "tl (map (?f n) [0 ..< Suc k]) = map (?f n) [Suc 0 ..< Suc k]" by (simp add: map_tl [symmetric] del: upt_Suc)
    also have "\<dots> = map (?f (Suc n)) [0 ..< k]" by (simp only: map_Suc_upt [symmetric] map_map) simp
    finally show ?thesis using Suc by simp
  qed simp
  with init_sstable_ok [OF assms(1), of base] init_sstable_ok [OF assms(2), of base] show ?thesis by auto
qed

lemma new_sstable_fresh:
  assumes "n < 500"
  shows "fresh_sstable cmake_config n (new_sstable_info cmake_config (new_wait_queue 0 False) (\<lambda>_. 0) 0)"
proof -
  have "n div 10 < 100000000 \<and> n mod 10 < 1000000000"
    using assms div_le_dividend [of n 10] mod_less_eq_dividend [of n 10] by linarith
  then show ?thesis
    by (simp add: fresh_sstable_def new_sstable_info_def max_buffer_set_size_def max_sstable_height_def)
qed

lemma init_sstable_shares_buffers_example:
  "\<exists>s' t'. init_sstable cmake_config 0 4 (new_sstable_info cmake_config (new_wait_queue 0 False) (\<lambda>_. 0) 0) = Inr s' \<and>
    init_sstable cmake_config 0 5 (new_sstable_info cmake_config (new_wait_queue 0 False) (\<lambda>_. 0) 0) = Inr t' \<and>
    tl (take 20 (ss_page_cache_buffers s')) = butlast (take 20 (ss_page_cache_buffers t'))"
  using init_sstable_shares_buffers [OF new_sstable_fresh new_sstable_fresh, of 4 0]
  by (auto simp: max_sstable_height_def)

subsection \<open>The first reads\<close>

lemma init_chunk_entries_fields:
  assumes "init_chunk_entries c i j r st = Inr st'"
  shows "ss_min_key (in_sstable st') = ss_min_key (in_sstable st) \<and> ss_max_key (in_sstable st') = ss_max_key (in_sstable st) \<and>
    ss_file_path (in_sstable st') = ss_file_path (in_sstable st) \<and>
    ss_page_cache_buffers (in_sstable st') = ss_page_cache_buffers (in_sstable st) \<and>
    in_sparse_index st' = in_sparse_index st \<and> in_num_read st' = in_num_read st"
  using assms by (auto simp: init_chunk_entries_def Let_def rbind_eq_Inr split: if_splits prod.splits)

lemma init_chunk_end_fields:
  assumes "init_chunk_end c n t j r st = Inr st'"
  shows "ss_min_key (in_sstable st') = ss_min_key (in_sstable st) \<and> ss_max_key (in_sstable st') = ss_max_key (in_sstable st) \<and>
    ss_file_path (in_sstable st') = ss_file_path (in_sstable st) \<and>
    ss_page_cache_buffers (in_sstable st') = ss_page_cache_buffers (in_sstable st)"
  using assms by (auto simp: init_chunk_end_def Let_def rbind_eq_Inr split: if_splits)

lemma init_chunk_keys:
  assumes "init_chunk c i n t j r st = Inr st'"
  shows "ss_min_key (in_sstable st') = ss_min_key (in_sstable st) \<and>
    ss_max_key (in_sstable st') = ss_max_key (in_sstable st)"
  using assms by (auto simp: init_chunk_def rbind_eq_Inr dest!: init_chunk_entries_fields init_chunk_end_fields)

text \<open>Whatever the file holds, the bounds of the SSTable are those it was initialized with.\<close>

lemma init_completion_keys:
  assumes "init_completion c i n t r0 r1 st = Inr st'"
  shows "ss_min_key (in_sstable st') = ss_min_key (in_sstable st) \<and>
    ss_max_key (in_sstable st') = ss_max_key (in_sstable st)"
  using assms init_chunk_keys by (fastforce simp: init_completion_def res_simps)

text \<open>
  The first pair of reads of an empty file. Where the page-cache buffers have a positive size,
  both reads count the SSTable as initialized, so it is counted twice, and the range recorded in
  the sparse index is the pair of sentinels. Where the size is 0, as in the shipped configuration,
  no read is ever short: nothing is counted and another pair of reads is scheduled.
\<close>

lemma init_completion_empty_file:
  assumes "si_invar c (in_sparse_index st)" "t < LEVEL_FACTOR c"
    and "length (ss_min_key (in_sstable st)) = KEY_LENGTH c" "length (ss_max_key (in_sstable st)) = KEY_LENGTH c"
    and "schedule_initialization_read c n (in_sstable st) (in_ring st) = Inr ring"
  shows "\<exists>st'. init_completion c i n t 0 0 st = Inr st' \<and>
    (if fair_aligned_sstable_page_cache_buffer_size c = 0
     then st' = st\<lparr>in_ring := ring\<rparr>
     else in_num_read st' = in_num_read st + 2 \<and> in_ring st' = in_ring st \<and>
       ss_desired_sstable_offset (in_sstable st') = -1 \<and>
       min_key_of c (in_sparse_index st') t = Inr (ss_min_key (in_sstable st)) \<and>
       max_key_of c (in_sparse_index st') t = Inr (ss_max_key (in_sstable st)))"
proof -
  let ?lo = "ss_min_key (in_sstable st)" and ?hi = "ss_max_key (in_sstable st)"
  have u: "to_unsigned 0 = 0" by (simp add: to_unsigned_def)
  from insert_range_keys [OF assms(1-4)] obtain i1 where i1: "insert_range c ?lo ?hi t (in_sparse_index st) = Inr i1"
      "si_invar c i1" by blast
  from insert_range_keys [OF i1(2) assms(2-4)] obtain i2 where i2: "insert_range c ?lo ?hi t i1 = Inr i2"
      "min_key_of c i2 t = Inr ?lo" "max_key_of c i2 t = Inr ?hi" by blast
  show ?thesis
  proof (cases "fair_aligned_sstable_page_cache_buffer_size c = 0")
    case True
    then show ?thesis using assms(5) by (simp add: init_completion_def init_chunk_def init_chunk_entries_def init_chunk_end_def Let_def u)
  next
    case False
    then show ?thesis using i1(1) i2 by (simp add: init_completion_def init_chunk_def init_chunk_entries_def init_chunk_end_def Let_def u)
  qed
qed

lemma cmake_buffer_size: "fair_aligned_sstable_page_cache_buffer_size cmake_config = 0"
  by (simp add: fair_aligned_sstable_page_cache_buffer_size_def fair_sstable_page_cache_size_def
      NUM_SSTABLES_def max_sstable_height_def)

definition opened_sstable :: sstable_info where
  "opened_sstable = (new_sstable_info cmake_config (new_wait_queue 0 False) (\<lambda>_. 0) 0)
     \<lparr>ss_page_cache_buffers := replicate 20 (Some 0), ss_desired_sstable_offset := 0\<rparr>"

lemma init_completion_empty_file_example:
  "\<exists>st'. init_completion cmake_config 4 4 4 0 0
      \<lparr>in_sstable = opened_sstable, in_pages = (\<lambda>_. []), in_filter = sample_filter,
       in_sparse_index = new_sparse_index cmake_config, in_num_read = 0, in_ring = []\<rparr> = Inr st' \<and>
    in_num_read st' = 0 \<and> in_ring st' = [Init_read 4 0 0 0, Init_read 4 0 0 0, Init_msg 4]"
proof -
  let ?st = "\<lparr>in_sstable = opened_sstable, in_pages = (\<lambda>_. []), in_filter = sample_filter,
       in_sparse_index = new_sparse_index cmake_config, in_num_read = 0, in_ring = []\<rparr>"
  have "schedule_initialization_read cmake_config 4 (in_sstable ?st) (in_ring ?st) =
      Inr [Init_read 4 0 0 0, Init_read 4 0 0 0, Init_msg 4]"
    by (simp add: schedule_initialization_read_def Let_def cmake_buffer_size opened_sstable_def cell_def)
  moreover have "si_invar cmake_config (in_sparse_index ?st)"
    by (simp add: si_invar_def new_sparse_index_def)
  ultimately show ?thesis
    using init_completion_empty_file [of cmake_config ?st 4 4 "[Init_read 4 0 0 0, Init_read 4 0 0 0, Init_msg 4]" 4]
    by (simp add: new_sstable_info_def opened_sstable_def cmake_buffer_size)
qed

end
