(* ===== verification/Worker_Init.thy ===== *)
theory Worker_Init
  imports Startup
begin

text \<open>
  The initialization loop of \<open>LSMTree::sstable_worker_thread\<close> in \<^verbatim>\<open>lsm_tree.hpp\<close>: a worker opens the
  file of each of its SSTables, registers it, and reads it two buffers at a time until a read is
  short. The completion queue of an SSTable is part of the state, because the loop looks at its
  first two entries and never removes any.
\<close>

section \<open>SSTables of a database\<close>

definition sstable_at :: "nat \<Rightarrow> nat \<Rightarrow> level_info list \<Rightarrow> sstable_info res" where
  "sstable_at level index_in_level lis = rbind (rnth lis level) (\<lambda>li. rnth (li_sstable_infos li) index_in_level)"

definition sstable_put :: "nat \<Rightarrow> nat \<Rightarrow> sstable_info \<Rightarrow> level_info list \<Rightarrow> level_info list res" where
  "sstable_put level index_in_level s =
     with_level level (\<lambda>li. rbind (rupd (li_sstable_infos li) index_in_level s) (\<lambda>ss. Inr (li\<lparr>li_sstable_infos := ss\<rparr>)))"

lemma sstable_put_ok:
  assumes "sstable_at level i lis = Inr s"
  shows "\<exists>lis'. sstable_put level i s' lis = Inr lis' \<and> sstable_at level i lis' = Inr s' \<and> length lis' = length lis \<and>
    (\<forall>level' i'. (level', i') \<noteq> (level, i) \<longrightarrow> sstable_at level' i' lis' = sstable_at level' i' lis)"
proof -
  have b: "level < length lis" "i < length (li_sstable_infos (lis ! level))"
    using assms by (auto simp: sstable_at_def rnth_def rbind_eq_Inr split: if_splits)
  let ?lis' = "lis[level := (lis ! level)\<lparr>li_sstable_infos := (li_sstable_infos (lis ! level))[i := s']\<rparr>]"
  have "sstable_put level i s' lis = Inr ?lis'" using b by (simp add: sstable_put_def with_level_def)
  moreover have "sstable_at level i ?lis' = Inr s'" using b by (simp add: sstable_at_def)
  moreover have "sstable_at level' i' ?lis' = sstable_at level' i' lis" if "(level', i') \<noteq> (level, i)" for level' i'
    using that b by (cases "level' = level") (auto simp: sstable_at_def rnth_def)
  ultimately show ?thesis by (intro exI [of _ ?lis']) simp
qed

section \<open>The loop\<close>

record init_worker =
  iw_levels :: "level_info list"
  iw_pages :: "buf \<Rightarrow> byte list"
  iw_fixed_file_fds :: "uint option list"
  iw_files :: "(nat \<times> uint) list"
  iw_cqs :: "nat \<Rightarrow> (usize \<times> int) list"
  iw_ring :: "startup_sqe list"
  iw_num_read :: nat
  iw_num_initialized_read :: nat

text \<open>\<open>it's a file read\<close>: two completions.\<close>

definition init_reads :: "config \<Rightarrow> nat \<Rightarrow> nat \<Rightarrow> int \<Rightarrow> int \<Rightarrow> init_worker \<Rightarrow> init_worker res" where
  "init_reads c i sstable_num res0 res1 st =
     (let (level, index_in_level) = sstable_position c sstable_num
      in rbind (rnth (iw_levels st) level) (\<lambda>li.
           rbind (rnth (li_sstable_infos li) index_in_level) (\<lambda>s.
             rbind (rnth (li_filters li) index_in_level) (\<lambda>flt.
               rbind (init_completion c i sstable_num index_in_level res0 res1
                        \<lparr>in_sstable = s, in_pages = iw_pages st, in_filter = flt, in_sparse_index = li_sparse_index li,
                         in_num_read = 0, in_ring = iw_ring st\<rparr>) (\<lambda>r.
                 rbind (rupd (iw_levels st) level
                          (li\<lparr>li_sstable_infos := (li_sstable_infos li)[index_in_level := in_sstable r],
                              li_filters := (li_filters li)[index_in_level := in_filter r],
                              li_sparse_index := in_sparse_index r\<rparr>)) (\<lambda>lis.
                   Inr (st\<lparr>iw_levels := lis, iw_pages := in_pages r, iw_ring := in_ring r,
                           iw_num_read := iw_num_read st + in_num_read r,
                           iw_num_initialized_read := iw_num_initialized_read st + in_num_read r\<rparr>)))))))"

text \<open>
  \<open>file descriptor of sstable has been opened\<close>: the descriptor is taken from the completion's user
  data. Where the SSTable's queue is empty, \<open>cqes[0]\<close> is still the worker's own message.
\<close>

definition init_opened :: "config \<Rightarrow> nat \<Rightarrow> usize \<Rightarrow> init_worker \<Rightarrow> init_worker res" where
  "init_opened c sstable_num user_data st =
     (let (level, index_in_level) = sstable_position c sstable_num
      in rbind (rupd (iw_fixed_file_fds st) sstable_num (Some (ucast user_data))) (\<lambda>fds.
           rbind (sstable_at level index_in_level (iw_levels st)) (\<lambda>s.
             let s' = s\<lparr>ss_desired_sstable_offset := 0\<rparr>
             in rbind (sstable_put level index_in_level s' (iw_levels st)) (\<lambda>lis.
                  rbind (schedule_initialization_read c sstable_num s' (iw_ring st)) (\<lambda>ring.
                    Inr (st\<lparr>iw_levels := lis, iw_fixed_file_fds := fds,
                            iw_files := iw_files st @ [(sstable_num, ucast user_data)], iw_ring := ring\<rparr>))))))"

definition init_completed :: "config \<Rightarrow> nat \<Rightarrow> nat \<Rightarrow> init_worker \<Rightarrow> init_worker res" where
  "init_completed c i sstable_num st =
     (case iw_cqs st sstable_num of
        (_, res0) # (_, res1) # _ \<Rightarrow> init_reads c i sstable_num res0 res1 st
      | [(user_data, _)] \<Rightarrow> init_opened c sstable_num user_data st
      | [] \<Rightarrow> init_opened c sstable_num (of_nat sstable_num) st)"

text \<open>The visit of an SSTable; \<open>base\<close> is the address of the worker's page-cache buffers.\<close>

definition init_visit :: "config \<Rightarrow> nat \<Rightarrow> nat \<Rightarrow> init_worker \<Rightarrow> init_worker res" where
  "init_visit c base i st =
     (let (level, index_in_level) = sstable_position c i
      in rbind (sstable_at level index_in_level (iw_levels st)) (\<lambda>s.
           if ss_desired_sstable_offset s \<noteq> -2 then Inr st
           else rbind (init_sstable c base i s) (\<lambda>s'.
                  rbind (sstable_put level index_in_level s' (iw_levels st)) (\<lambda>lis.
                    Inr (st\<lparr>iw_levels := lis, iw_ring := iw_ring st @ [Init_open (ss_file_path s'), Init_msg i]\<rparr>)))))"

text \<open>The operating system completes operations of an SSTable.\<close>

definition deliver :: "nat \<Rightarrow> (usize \<times> int) list \<Rightarrow> init_worker \<Rightarrow> init_worker" where
  "deliver sstable_num cqes st = st\<lparr>iw_cqs := (iw_cqs st)(sstable_num := iw_cqs st sstable_num @ cqes)\<rparr>"

text \<open>
  One turn of the inner loop: \<open>arrived i\<close> is the message found on the worker's ring, if any, with the
  completions of that SSTable that came before it.
\<close>

definition init_turn ::
    "config \<Rightarrow> nat \<Rightarrow> (nat \<Rightarrow> (nat \<times> (usize \<times> int) list) option) \<Rightarrow> nat \<Rightarrow> init_worker \<Rightarrow> init_worker res" where
  "init_turn c base arrived i st =
     rbind (case arrived i of
              None \<Rightarrow> Inr st
            | Some (sstable_num, cqes) \<Rightarrow> init_completed c i sstable_num (deliver sstable_num cqes st))
       (init_visit c base i)"

definition init_pass ::
    "config \<Rightarrow> nat \<Rightarrow> (nat \<Rightarrow> (nat \<times> (usize \<times> int) list) option) \<Rightarrow> nat \<Rightarrow> init_worker \<Rightarrow> init_worker res" where
  "init_pass c base arrived worker_thread_num = rfold (init_turn c base arrived) (worker_sstables c worker_thread_num)"

partial_function (option) init_loop ::
    "config \<Rightarrow> nat \<Rightarrow> (nat \<Rightarrow> nat \<Rightarrow> (nat \<times> (usize \<times> int) list) option) \<Rightarrow> nat \<Rightarrow> nat \<Rightarrow> init_worker \<Rightarrow>
     init_worker res option" where
  "init_loop c base arrived worker_thread_num n st =
     (if iw_num_initialized_read st < WORKER_SSTABLE_BATCH_SIZE c
      then case init_pass c base (arrived n) worker_thread_num st of
             Inl e \<Rightarrow> Some (Inl e)
           | Inr st' \<Rightarrow> init_loop c base arrived worker_thread_num (Suc n) st'
      else Some (Inr st))"

section \<open>Opening the files\<close>

definition sstable_of :: "config \<Rightarrow> nat \<Rightarrow> init_worker \<Rightarrow> sstable_info res" where
  "sstable_of c n st = (let (level, i) = sstable_position c n in sstable_at level i (iw_levels st))"

lemma sstable_position_inj: "sstable_position c m = sstable_position c n \<Longrightarrow> m = n"
  by (simp add: sstable_position_def Let_def) (metis minus_div_mult_eq_mod mod_div_mult_eq)

text \<open>An SSTable that has been initialized and whose file is being opened.\<close>

definition being_opened :: "config \<Rightarrow> nat \<Rightarrow> nat \<Rightarrow> sstable_info \<Rightarrow> bool" where
  "being_opened c base n s \<longleftrightarrow> ss_desired_sstable_offset s = 0 \<and>
     ss_min_key s = replicate (KEY_LENGTH c) 255 \<and> ss_max_key s = replicate (KEY_LENGTH c) 0 \<and>
     take (max_sstable_height c) (ss_page_cache_buffers s) =
       map (\<lambda>m. Some (base + fair_aligned_sstable_page_cache_buffer_size c * (n + m))) [0 ..< max_sstable_height c]"

lemma init_visit_fresh:
  assumes "sstable_of c n st = Inr s" "fresh_sstable c n s"
  shows "\<exists>st' s'. init_visit c base n st = Inr st' \<and> sstable_of c n st' = Inr s' \<and> being_opened c base n s' \<and>
    iw_ring st' = iw_ring st @ [Init_open (ss_file_path s'), Init_msg n] \<and>
    (\<forall>m. m \<noteq> n \<longrightarrow> sstable_of c m st' = sstable_of c m st) \<and> iw_cqs st' = iw_cqs st \<and> iw_num_read st' = iw_num_read st"
proof -
  obtain level i where pos: "sstable_position c n = (level, i)" by fastforce
  have at: "sstable_at level i (iw_levels st) = Inr s" using assms(1) by (simp add: sstable_of_def pos)
  from init_sstable_ok [OF assms(2), of base] obtain s' where s': "init_sstable c base n s = Inr s'" "being_opened c base n s'"
    by (auto simp: being_opened_def)
  from sstable_put_ok [OF at, of s'] obtain lis where lis: "sstable_put level i s' (iw_levels st) = Inr lis"
      "sstable_at level i lis = Inr s'"
      "\<And>l j. (l, j) \<noteq> (level, i) \<Longrightarrow> sstable_at l j lis = sstable_at l j (iw_levels st)" by blast
  let ?st' = "st\<lparr>iw_levels := lis, iw_ring := iw_ring st @ [Init_open (ss_file_path s'), Init_msg n]\<rparr>"
  have "init_visit c base n st = Inr ?st'"
    using at s'(1) lis(1) assms(2) by (simp add: init_visit_def pos fresh_sstable_def)
  moreover have "sstable_of c m ?st' = sstable_of c m st" if "m \<noteq> n" for m
  proof (cases "sstable_position c m")
    case (Pair l j)
    then have "(l, j) \<noteq> (level, i)" using that pos sstable_position_inj [of c m n] by auto
    then show ?thesis using lis(3) by (simp add: sstable_of_def Pair)
  qed
  ultimately show ?thesis using lis(2) s'(2)
    by (intro exI [of _ ?st'] exI [of _ s']) (simp add: sstable_of_def pos)
qed

lemma init_turn_silent: "init_turn c base (\<lambda>_. None) i st = init_visit c base i st"
  by (simp add: init_turn_def)

text \<open>What a worker asks the operating system for to open the files of the SSTables \<open>ns\<close>.\<close>

definition open_requests :: "config \<Rightarrow> init_worker \<Rightarrow> nat list \<Rightarrow> startup_sqe list" where
  "open_requests c st ns =
     concat (map (\<lambda>n. case sstable_of c n st of Inl _ \<Rightarrow> [] | Inr s \<Rightarrow> [Init_open (ss_file_path s), Init_msg n]) ns)"

lemma init_visits_fresh:
  assumes "distinct ns" "\<And>n. n \<in> set ns \<Longrightarrow> \<exists>s. sstable_of c n st = Inr s \<and> fresh_sstable c n s"
  shows "\<exists>st'. rfold (init_visit c base) ns st = Inr st' \<and>
    (\<forall>n \<in> set ns. \<exists>s. sstable_of c n st' = Inr s \<and> being_opened c base n s) \<and>
    iw_ring st' = iw_ring st @ open_requests c st' ns \<and>
    (\<forall>m. m \<notin> set ns \<longrightarrow> sstable_of c m st' = sstable_of c m st) \<and> iw_cqs st' = iw_cqs st \<and> iw_num_read st' = iw_num_read st"
  using assms
proof (induction ns arbitrary: st)
  case (Cons n ns)
  from Cons.prems(2) [of n] obtain s where s: "sstable_of c n st = Inr s" "fresh_sstable c n s" by auto
  from init_visit_fresh [OF s, of base] obtain st1 s1 where st1: "init_visit c base n st = Inr st1"
      "sstable_of c n st1 = Inr s1" "being_opened c base n s1" "iw_ring st1 = iw_ring st @ [Init_open (ss_file_path s1), Init_msg n]"
      "\<And>m. m \<noteq> n \<Longrightarrow> sstable_of c m st1 = sstable_of c m st" "iw_cqs st1 = iw_cqs st" "iw_num_read st1 = iw_num_read st"
    by blast
  have "\<exists>s. sstable_of c m st1 = Inr s \<and> fresh_sstable c m s" if "m \<in> set ns" for m
    using Cons.prems that st1(5) [of m] by (metis distinct.simps(2) list.set_intros(2))
  with Cons.IH [of st1] Cons.prems(1) obtain st' where st': "rfold (init_visit c base) ns st1 = Inr st'"
      "\<forall>n \<in> set ns. \<exists>s. sstable_of c n st' = Inr s \<and> being_opened c base n s"
      "iw_ring st' = iw_ring st1 @ open_requests c st' ns"
      "\<forall>m. m \<notin> set ns \<longrightarrow> sstable_of c m st' = sstable_of c m st1" "iw_cqs st' = iw_cqs st1" "iw_num_read st' = iw_num_read st1"
    by auto
  have n: "sstable_of c n st' = Inr s1" using st'(4) st1(2) Cons.prems(1) by simp
  show ?case
  proof (intro exI [of _ st'] conjI)
    show "rfold (init_visit c base) (n # ns) st = Inr st'" using st1(1) st'(1) by simp
    show "iw_ring st' = iw_ring st @ open_requests c st' (n # ns)"
      using st1(4) st'(3) n by (simp add: open_requests_def)
  qed (use st1 st' n in auto)
qed (simp add: open_requests_def)

lemma init_visit_again: "sstable_of c n st = Inr s \<Longrightarrow> being_opened c base n s \<Longrightarrow> init_visit c base' n st = Inr st"
  by (simp add: init_visit_def sstable_of_def being_opened_def split: prod.splits)

lemma rfold_id: "(\<And>x. x \<in> set xs \<Longrightarrow> f x s = Inr s) \<Longrightarrow> rfold f xs s = Inr s"
  by (induction xs) simp_all

text \<open>
  C37. The first pass over new SSTables initializes each of the worker's SSTables, gives it its range of
  page-cache buffers, and asks for its file to be opened, in order and once; SSTables of other
  workers keep their state. Until the system answers, further passes do nothing.
\<close>

theorem init_pass_opens:
  assumes "\<forall>n \<in> set (worker_sstables c w). \<exists>s. sstable_of c n st = Inr s \<and> fresh_sstable c n s"
  shows "\<exists>st'. init_pass c base (\<lambda>_. None) w st = Inr st' \<and>
    (\<forall>n \<in> set (worker_sstables c w). \<exists>s. sstable_of c n st' = Inr s \<and> being_opened c base n s) \<and>
    iw_ring st' = iw_ring st @ open_requests c st' (worker_sstables c w) \<and>
    (\<forall>m. m \<notin> set (worker_sstables c w) \<longrightarrow> sstable_of c m st' = sstable_of c m st) \<and>
    init_pass c base (\<lambda>_. None) w st' = Inr st'"
proof -
  let ?ns = "worker_sstables c w"
  have "init_turn c base (\<lambda>_. None) = init_visit c base" by (intro ext) (simp add: init_turn_silent)
  then have pass: "init_pass c base (\<lambda>_. None) w = rfold (init_visit c base) ?ns" by (simp add: init_pass_def)
  have "distinct ?ns" by (simp add: worker_sstables_def Let_def)
  from init_visits_fresh [OF this, of c st base] assms obtain st' where st': "rfold (init_visit c base) ?ns st = Inr st'"
      "\<forall>n \<in> set ?ns. \<exists>s. sstable_of c n st' = Inr s \<and> being_opened c base n s"
      "iw_ring st' = iw_ring st @ open_requests c st' ?ns"
      "\<forall>m. m \<notin> set ?ns \<longrightarrow> sstable_of c m st' = sstable_of c m st"
    by blast
  moreover have "rfold (init_visit c base) ?ns st' = Inr st'"
    using st'(2) init_visit_again by (intro rfold_id) blast
  ultimately show ?thesis by (auto simp: pass)
qed

definition init_start :: "level_info list \<Rightarrow> init_worker" where
  "init_start lis = \<lparr>iw_levels = lis, iw_pages = (\<lambda>_. []), iw_fixed_file_fds = replicate 500 None, iw_files = [],
     iw_cqs = (\<lambda>_. []), iw_ring = [], iw_num_read = 0, iw_num_initialized_read = 0\<rparr>"

theorem init_pass_opens_witness:
  "\<exists>st' p0 p1. init_pass cmake_config 0 (\<lambda>_. None) 0 (init_start [idle_level]) = Inr st' \<and>
    iw_ring st' = [Init_open p0, Init_msg 0, Init_open p1, Init_msg 1]"
proof -
  let ?st = "init_start [idle_level]" and ?s = "new_sstable_info cmake_config (new_wait_queue 0 False) (\<lambda>_. 0) 0"
  have ns: "worker_sstables cmake_config 0 = [0, 1]"
    by (simp add: worker_sstables_def WORKER_SSTABLE_BATCH_SIZE_def NUM_SSTABLES_def upt_rec)
  have "sstable_of cmake_config n ?st = Inr ?s" if "n < 10" for n
    using that by (simp add: sstable_of_def sstable_position_def sstable_at_def init_start_def idle_level_def)
  then have "\<forall>n \<in> set (worker_sstables cmake_config 0). \<exists>s. sstable_of cmake_config n ?st = Inr s \<and> fresh_sstable cmake_config n s"
    by (simp add: ns new_sstable_fresh)
  from init_pass_opens [OF this, of 0] obtain st' where st': "init_pass cmake_config 0 (\<lambda>_. None) 0 ?st = Inr st'"
      "\<forall>n \<in> {0, 1}. \<exists>s. sstable_of cmake_config n st' = Inr s" "iw_ring st' = iw_ring ?st @ open_requests cmake_config st' [0, 1]"
    unfolding ns by auto
  then show ?thesis by (auto simp: open_requests_def init_start_def)
qed

section \<open>The answers\<close>

lemma init_reads_silent:
  assumes "fair_aligned_sstable_page_cache_buffer_size c = 0" "init_reads c i n r0 r1 st = Inr st'"
  shows "iw_num_initialized_read st' = iw_num_initialized_read st"
proof -
  have chunk: "in_num_read s' = in_num_read s" if "init_chunk c i n t j r s = Inr s'" for t j r s s'
    using that assms(1)
    by (auto simp: init_chunk_def init_chunk_end_def Let_def rbind_eq_Inr split: if_splits dest!: init_chunk_entries_fields)
  have "in_num_read s' = in_num_read s" if "init_completion c i n t r0 r1 s = Inr s'" for t s s'
    using that chunk by (fastforce simp: init_completion_def res_simps)
  then show ?thesis using assms(2)
    by (fastforce simp: init_reads_def Let_def rbind_eq_Inr split: prod.splits)
qed

lemma init_opened_silent:
  "init_opened c n u st = Inr st' \<Longrightarrow> iw_num_initialized_read st' = iw_num_initialized_read st"
  by (auto simp: init_opened_def Let_def rbind_eq_Inr split: prod.splits)

lemma init_visit_silent:
  "init_visit c base i st = Inr st' \<Longrightarrow> iw_num_initialized_read st' = iw_num_initialized_read st"
  by (auto simp: init_visit_def Let_def rbind_eq_Inr split: prod.splits if_splits)

lemma init_pass_silent:
  assumes "fair_aligned_sstable_page_cache_buffer_size c = 0" "init_pass c base arrived w st = Inr st'"
  shows "iw_num_initialized_read st' = iw_num_initialized_read st"
proof -
  have completed: "iw_num_initialized_read t' = iw_num_initialized_read t" if "init_completed c i n t = Inr t'" for i n t t'
    using that init_reads_silent [OF assms(1)] init_opened_silent
    by (auto simp: init_completed_def split: list.splits prod.splits)
  have turn: "iw_num_initialized_read t' = iw_num_initialized_read t" if "init_turn c base arrived i t = Inr t'" for i t t'
    using that by (auto simp: init_turn_def rbind_eq_Inr deliver_def dest!: completed init_visit_silent split: option.splits)
  from assms(2) show ?thesis unfolding init_pass_def
    by (rule rfold_invariant [where P = "\<lambda>t. iw_num_initialized_read t = iw_num_initialized_read st"]) (use turn in auto)
qed

text \<open>
  C38. Where the page-cache buffers have size 0, as in the shipped configuration, no worker gets through
  its initialization: whatever the system answers and whatever the files hold, the loop runs for
  ever or into undefined behaviour.
\<close>

theorem init_loop_never_completes:
  assumes "fair_aligned_sstable_page_cache_buffer_size c = 0" "iw_num_initialized_read st < WORKER_SSTABLE_BATCH_SIZE c"
  shows "init_loop c base arrived w n st \<noteq> Some (Inr st')"
proof
  let ?stuck = "\<lambda>c st. fair_aligned_sstable_page_cache_buffer_size c = 0 \<and>
    iw_num_initialized_read st < WORKER_SSTABLE_BATCH_SIZE c"
  assume ret: "init_loop c base arrived w n st = Some (Inr st')"
  have "?stuck c st \<longrightarrow> (\<forall>t. (Inr st' :: init_worker res) \<noteq> Inr t)"
  proof (rule init_loop.raw_induct [where P = "\<lambda>c base arrived w n st r. ?stuck c st \<longrightarrow> (\<forall>t. r \<noteq> Inr t)", OF _ ret], rule impI)
    fix f c base arrived w n st and r :: "init_worker res"
    assume IH: "\<And>c base arrived w n st r. f c base arrived w n st = Some r \<Longrightarrow> ?stuck c st \<longrightarrow> (\<forall>t. r \<noteq> Inr t)"
      and eq: "(if iw_num_initialized_read st < WORKER_SSTABLE_BATCH_SIZE c
        then case init_pass c base (arrived n) w st of Inl e \<Rightarrow> Some (Inl e)
             | Inr st' \<Rightarrow> f c base arrived w (Suc n) st'
        else Some (Inr st)) = Some r"
      and I: "?stuck c st"
    show "\<forall>t. r \<noteq> Inr t"
    proof (cases "init_pass c base (arrived n) w st")
      case (Inl e)
      then show ?thesis using eq I by auto
    next
      case (Inr st1)
      then have "f c base arrived w (Suc n) st1 = Some r" using eq I by simp
      moreover have "?stuck c st1" using I init_pass_silent [OF conjunct1 [OF I] Inr] by simp
      ultimately show ?thesis using IH by blast
    qed
  qed
  then show False using assms by blast
qed

theorem init_loop_never_completes_witness:
  "\<forall>st'. init_loop cmake_config 0 (\<lambda>_ _. None) 0 0 (init_start [idle_level]) \<noteq> Some (Inr st')"
  using init_loop_never_completes [OF cmake_buffer_size, of "init_start [idle_level]" 0 "\<lambda>_ _. None" 0 0]
  by (simp add: init_start_def WORKER_SSTABLE_BATCH_SIZE_def NUM_SSTABLES_def)

text \<open>
  The completion of the opening stays at the head of the queue. It is enough for the opening itself,
  but when reads have completed, its result is taken for that of the first read.
\<close>

definition with_sstable :: "nat \<Rightarrow> sstable_info \<Rightarrow> level_info \<Rightarrow> level_info" where
  "with_sstable k s li = li\<lparr>li_sstable_infos := (li_sstable_infos li)[k := s]\<rparr>"

lemma init_completed_open:
  assumes "iw_cqs st n = []" "sstable_position c n = (level, k)" "level < length (iw_levels st)"
    and "k < length (li_sstable_infos (iw_levels st ! level))" "s = li_sstable_infos (iw_levels st ! level) ! k"
    and "n < length (iw_fixed_file_fds st)"
    and "cell (ss_page_cache_buffers s) 0 = Inr b0" "cell (ss_page_cache_buffers s) 1 = Inr b1"
    and "m = fair_aligned_sstable_page_cache_buffer_size c"
  shows "init_completed c i n (deliver n [(u, r)] st) = Inr (st\<lparr>
    iw_levels := (iw_levels st)[level := with_sstable k (s\<lparr>ss_desired_sstable_offset := 0\<rparr>) (iw_levels st ! level)],
    iw_fixed_file_fds := (iw_fixed_file_fds st)[n := Some (ucast u)], iw_files := iw_files st @ [(n, ucast u)],
    iw_cqs := (iw_cqs st)(n := [(u, r)]),
    iw_ring := iw_ring st @ [Init_read n b0 m 0, Init_read n b1 m (of_nat m), Init_msg n]\<rparr>)"
  using assms
  by (simp add: init_completed_def init_opened_def deliver_def sstable_at_def sstable_put_def with_level_def
      with_sstable_def schedule_initialization_read_def Let_def)

lemma init_completed_later:
  assumes "iw_cqs st n = [(u, r)]"
  shows "init_completed c i n (deliver n ((u', r') # cqes) st) = init_reads c i n r r' (deliver n ((u', r') # cqes) st)"
  using assms by (simp add: init_completed_def deliver_def)

lemma init_completion_small:
  assumes "si_invar c (in_sparse_index st)" "t < LEVEL_FACTOR c"
    and "length (ss_min_key (in_sstable st)) = KEY_LENGTH c" "length (ss_max_key (in_sstable st)) = KEY_LENGTH c"
    and "cell (ss_page_cache_buffers (in_sstable st)) 0 = Inr b" "0 < r" "r < int (MEMTABLE_ENTRY_LENGTH c)"
    and "r < int (fair_aligned_sstable_page_cache_buffer_size c)" "r < 2 ^ 32"
  shows "\<exists>st'. init_completion c i n t r 0 st = Inr st' \<and> in_num_read st' = in_num_read st + 2 \<and>
    ss_is_flushed_to (in_sstable st') \<and> ss_desired_sstable_offset (in_sstable st') = -1 \<and>
    \<not> ss_waiting_on_io (in_sstable st')"
proof -
  let ?lo = "ss_min_key (in_sstable st)" and ?hi = "ss_max_key (in_sstable st)"
  have u: "to_unsigned 0 = 0" by (simp add: to_unsigned_def)
  have "to_unsigned r = nat r" using assms(6,9) by (simp add: to_unsigned_def unsigned_of_int take_bit_int_eq_self)
  then have short: "to_unsigned r < fair_aligned_sstable_page_cache_buffer_size c" using assms(6,8) by linarith
  have none: "nat r div MEMTABLE_ENTRY_LENGTH c = 0" using assms(6,7) by simp
  from insert_range_keys [OF assms(1-4)] obtain i1 where i1: "insert_range c ?lo ?hi t (in_sparse_index st) = Inr i1"
      "si_invar c i1" by blast
  from insert_range_keys [OF i1(2) assms(2-4)] obtain i2 where "insert_range c ?lo ?hi t i1 = Inr i2" by blast
  then show ?thesis using i1(1) short none assms(5,6)
    by (simp add: init_completion_def init_chunk_def init_chunk_entries_def init_chunk_end_def Let_def u)
qed

text \<open>
  An empty file is taken for one that has been flushed to: the completion of the opening is never
  removed from the SSTable's queue, and when the first reads complete, the file descriptor it
  returned is taken for the number of bytes of the first read. The SSTable is marked as flushed to,
  counted twice, and its offset is the mark of an SSTable whose reading is finished. (For descriptors below the size of an entry.)
\<close>

lemma init_empty_file_flushed:
  assumes "iw_cqs st n = []" "sstable_position c n = (level, k)" "level < length (iw_levels st)"
    and "k < length (li_sstable_infos (iw_levels st ! level))" "s = li_sstable_infos (iw_levels st ! level) ! k"
    and "k < length (li_filters (iw_levels st ! level))" "n < length (iw_fixed_file_fds st)"
    and "cell (ss_page_cache_buffers s) 0 = Inr b0" "cell (ss_page_cache_buffers s) 1 = Inr b1"
    and "si_invar c (li_sparse_index (iw_levels st ! level))" "k < LEVEL_FACTOR c"
    and "length (ss_min_key s) = KEY_LENGTH c" "length (ss_max_key s) = KEY_LENGTH c"
    and "0 < fd" "fd < int (MEMTABLE_ENTRY_LENGTH c)" "fd < int (fair_aligned_sstable_page_cache_buffer_size c)" "fd < 2 ^ 32"
  shows "\<exists>st1 st2 s2. init_completed c i n (deliver n [(u, fd)] st) = Inr st1 \<and>
    init_completed c i' n (deliver n [(u0, 0), (u1, 0)] st1) = Inr st2 \<and> sstable_of c n st2 = Inr s2 \<and>
    ss_is_flushed_to s2 \<and> ss_desired_sstable_offset s2 = -1 \<and> iw_num_read st2 = iw_num_read st + 2"
proof -
  note first = init_completed_open [OF assms(1-5,7-9) refl, of i u fd]
  then obtain st1 where st1: "init_completed c i n (deliver n [(u, fd)] st) = Inr st1" "iw_cqs st1 n = [(u, fd)]"
      "iw_levels st1 = (iw_levels st)[level := with_sstable k (s\<lparr>ss_desired_sstable_offset := 0\<rparr>) (iw_levels st ! level)]"
      "iw_num_read st1 = iw_num_read st" by simp
  let ?st = "deliver n [(u0, 0), (u1, 0)] st1"
  let ?s = "s\<lparr>ss_desired_sstable_offset := 0\<rparr>" and ?li = "iw_levels st ! level"
  let ?in = "\<lparr>in_sstable = ?s, in_pages = iw_pages ?st, in_filter = li_filters ?li ! k,
      in_sparse_index = li_sparse_index ?li, in_num_read = 0, in_ring = iw_ring ?st\<rparr>"
  from init_completion_small [of c ?in k b0 fd i' n] assms obtain r where r: "init_completion c i' n k fd 0 ?in = Inr r"
      "in_num_read r = 2" "ss_is_flushed_to (in_sstable r)" "ss_desired_sstable_offset (in_sstable r) = -1"
    by auto
  have lv: "iw_levels ?st = (iw_levels st)[level := with_sstable k ?s ?li]" using st1(3) by (simp add: deliver_def)
  have "\<exists>st2. init_reads c i' n fd 0 ?st = Inr st2 \<and> sstable_of c n st2 = Inr (in_sstable r) \<and>
      iw_num_read st2 = iw_num_read ?st + 2"
    using r(1,2) assms(2-6) unfolding init_reads_def lv
    by (simp add: with_sstable_def sstable_of_def sstable_at_def)
  moreover have "iw_num_read ?st = iw_num_read st" using st1(4) by (simp add: deliver_def)
  ultimately show ?thesis using st1(1) init_completed_later [OF st1(2), of c i' u0 0 "[(u1, 0)]"] r(3,4) by auto
qed

text \<open>A configuration with page-cache buffers of 4096 bytes, and an SSTable that has its first two.\<close>

definition roomy_config :: config where
  "roomy_config = cmake_config\<lparr>VALUE_LENGTH := 15, TOTAL_SSTABLE_PAGE_CACHE_SIZE := 10000\<rparr>"

lemma roomy_buffer_size: "fair_aligned_sstable_page_cache_buffer_size roomy_config = 4096"
proof -
  have "lcm 16 4096 = (4096 :: nat)" by (simp add: lcm_proj2_if_dvd)
  then show ?thesis
    by (simp add: fair_aligned_sstable_page_cache_buffer_size_def fair_sstable_page_cache_size_def
        NUM_SSTABLES_def max_sstable_height_def roomy_config_def)
qed

definition roomy_sstable :: sstable_info where
  "roomy_sstable = (new_sstable_info cmake_config (new_wait_queue 0 True) (\<lambda>_. 0) 0)
     \<lparr>ss_page_cache_buffers := [Some 0, Some 4096]\<rparr>"

definition roomy_level :: level_info where
  "roomy_level = idle_level\<lparr>li_sstable_infos := replicate 10 roomy_sstable, li_sparse_index := new_sparse_index cmake_config\<rparr>"

lemma init_empty_file_flushed_example:
  "\<exists>st1 st2 s2. init_completed roomy_config 0 3 (deliver 3 [(0, 7)] (init_start [roomy_level])) = Inr st1 \<and>
    init_completed roomy_config 0 3 (deliver 3 [(0, 0), (0, 0)] st1) = Inr st2 \<and> sstable_of roomy_config 3 st2 = Inr s2 \<and>
    ss_is_flushed_to s2 \<and> ss_desired_sstable_offset s2 = -1 \<and> iw_num_read st2 = 2"
proof -
  let ?st = "init_start [roomy_level]"
  have c: "LEVEL_FACTOR roomy_config = 10" "KEY_LENGTH roomy_config = 1" "MEMTABLE_ENTRY_LENGTH roomy_config = 16"
    by (simp_all add: roomy_config_def MEMTABLE_ENTRY_LENGTH_def)
  have pos: "sstable_position roomy_config 3 = (0, 3)" by (simp add: sstable_position_def c)
  have infos: "li_sstable_infos (iw_levels ?st ! 0) ! 3 = roomy_sstable" "length (li_sstable_infos (iw_levels ?st ! 0)) = 10"
      "length (li_filters (iw_levels ?st ! 0)) = 10" "length (iw_levels ?st) = 1" "iw_num_read ?st = 0"
      "length (iw_fixed_file_fds ?st) = 500" "iw_cqs ?st 3 = []"
    by (simp_all add: init_start_def roomy_level_def idle_level_def sample_level_def)
  have bufs: "cell (ss_page_cache_buffers roomy_sstable) 0 = Inr 0" "cell (ss_page_cache_buffers roomy_sstable) 1 = Inr 4096"
      "length (ss_min_key roomy_sstable) = 1" "length (ss_max_key roomy_sstable) = 1"
    by (simp_all add: roomy_sstable_def cell_def new_sstable_info_def)
  have "si_invar roomy_config (li_sparse_index (iw_levels ?st ! 0))"
    by (simp add: init_start_def roomy_level_def si_invar_def new_sparse_index_def c)
  then show ?thesis
    using init_empty_file_flushed [of ?st 3 roomy_config 0 3 roomy_sstable 0 4096 7 0 0 0 0 0] pos infos bufs c
    by (simp add: roomy_buffer_size numeral_2_eq_2)
qed

section \<open>The shape of the database\<close>

text \<open>The sizes the arrays of an SSTable and of a level have by their types.\<close>

definition sstable_shape :: "config \<Rightarrow> sstable_info \<Rightarrow> bool" where
  "sstable_shape c s \<longleftrightarrow> length (ss_min_key s) = KEY_LENGTH c \<and> length (ss_max_key s) = KEY_LENGTH c \<and>
     length (ss_file_path s) = file_path_length \<and> length (ss_page_cache_buffers s) = max_buffer_set_size c"

definition level_shape :: "config \<Rightarrow> level_info \<Rightarrow> bool" where
  "level_shape c li \<longleftrightarrow> level_ok c li \<and> length (li_filters li) = LEVEL_FACTOR c \<and> si_invar c (li_sparse_index li) \<and>
     (\<forall>s \<in> set (li_sstable_infos li). sstable_shape c s)"

definition database_shape :: "config \<Rightarrow> level_info list \<Rightarrow> bool" where
  "database_shape c lis \<longleftrightarrow> length lis = NUM_SSTABLE_LEVELS c \<and> (\<forall>li \<in> set lis. level_shape c li)"

lemma sstable_path_length: "sstable_path level i path = Inr path' \<Longrightarrow> length path' = length path"
  by (auto simp: sstable_path_def snprintf_u_def rbind_eq_Inr dest!: rblit_length rupd_length)

lemma init_sstable_shape:
  assumes "init_sstable c base n s = Inr s'" "sstable_shape c s"
  shows "sstable_shape c s'"
proof -
  have buffers: "sstable_shape c t" if "rfold (init_page_cache_buffer c base n) ms s1 = Inr t" "sstable_shape c s1" for ms s1 t
    using that by (rule rfold_invariant [where P = "sstable_shape c"])
      (auto simp: init_page_cache_buffer_def rbind_eq_Inr sstable_shape_def dest!: rupd_length)
  show ?thesis
  proof (cases "ss_desired_sstable_offset s = -2")
    case True
    then obtain p where p: "length p = length (ss_file_path s)"
        "rfold (init_page_cache_buffer c base n) [0 ..< max_sstable_height c]
           (s\<lparr>ss_min_key := replicate (KEY_LENGTH c) 255, ss_max_key := replicate (KEY_LENGTH c) 0,
              ss_req_batch_wq := (ss_req_batch_wq s)\<lparr>wq_atomic_consumer_guard := 47\<rparr>,
              ss_file_path := p, ss_desired_sstable_offset := 0,
              ss_insert_buffers_from := of_nat (max_sstable_height c)\<rparr>) = Inr s'"
      using assms(1) by (auto simp: init_sstable_def Let_def rbind_eq_Inr split: prod.splits dest!: sstable_path_length)
    from p(2) show ?thesis by (rule buffers) (use p(1) assms(2) in \<open>simp add: sstable_shape_def\<close>)
  next
    case False
    then show ?thesis using assms by (simp add: init_sstable_def)
  qed
qed

lemma database_shape_level:
  assumes "database_shape c lis" "rnth lis level = Inr li"
  shows "level_shape c li"
  using assms by (auto simp: database_shape_def dest: rnth_set)

lemma database_shape_update:
  assumes "database_shape c lis" "level_shape c li" "rupd lis level li = Inr lis'"
  shows "database_shape c lis'"
  using assms rupd_set [OF assms(3)] rupd_length [OF assms(3)] by (auto simp: database_shape_def)

lemma sstable_at_shape:
  assumes "database_shape c lis" "sstable_at level i lis = Inr s"
  shows "sstable_shape c s"
  using assms by (auto simp: sstable_at_def rbind_eq_Inr level_shape_def dest!: database_shape_level dest: rnth_set)

lemma sstable_put_shape:
  assumes "sstable_put level i s lis = Inr lis'" "database_shape c lis" "sstable_shape c s"
  shows "database_shape c lis'"
proof -
  from assms(1) obtain li ss where li: "rnth lis level = Inr li" "rupd (li_sstable_infos li) i s = Inr ss"
      "rupd lis level (li\<lparr>li_sstable_infos := ss\<rparr>) = Inr lis'"
    by (auto simp: sstable_put_def with_level_def rbind_eq_Inr)
  have "level_shape c (li\<lparr>li_sstable_infos := ss\<rparr>)"
    using database_shape_level [OF assms(2) li(1)] rupd_set [OF li(2)] rupd_length [OF li(2)] assms(3)
    by (auto simp: level_shape_def level_ok_def)
  then show ?thesis using database_shape_update [OF assms(2) _ li(3)] by blast
qed

lemma insert_range_length: "insert_range c lo hi t ix = Inr ix' \<Longrightarrow> length ix' = length ix"
  by (auto simp: insert_range_def Let_def rbind_eq_Inr dest!: rblit_length)

lemma init_chunk_end_index:
  "init_chunk_end c n t j r st = Inr st' \<Longrightarrow> length (in_sparse_index st') = length (in_sparse_index st)"
  by (auto simp: init_chunk_end_def Let_def rbind_eq_Inr insert_range_length split: if_splits)

lemma init_chunk_shape:
  assumes "init_chunk c i n t j r st = Inr st'" "sstable_shape c (in_sstable st)" "si_invar c (in_sparse_index st)"
  shows "sstable_shape c (in_sstable st') \<and> si_invar c (in_sparse_index st')"
proof -
  from assms(1) obtain st1 where "init_chunk_entries c i j r st = Inr st1" "init_chunk_end c n t j r st1 = Inr st'"
    by (auto simp: init_chunk_def rbind_eq_Inr)
  note facts = init_chunk_entries_fields [OF this(1)] init_chunk_end_fields [OF this(2)] init_chunk_end_index [OF this(2)]
  then show ?thesis using assms(2,3) by (simp add: sstable_shape_def si_invar_def)
qed

lemma init_reads_shape:
  assumes "init_reads c i n r0 r1 st = Inr st'" "database_shape c (iw_levels st)"
  shows "database_shape c (iw_levels st')"
proof -
  obtain level k where pos: "sstable_position c n = (level, k)" by fastforce
  from assms(1) obtain li s flt r lis where
      li: "rnth (iw_levels st) level = Inr li" "rnth (li_sstable_infos li) k = Inr s"
      and r: "init_completion c i n k r0 r1 \<lparr>in_sstable = s, in_pages = iw_pages st, in_filter = flt,
          in_sparse_index = li_sparse_index li, in_num_read = 0, in_ring = iw_ring st\<rparr> = Inr r"
      and lis: "rupd (iw_levels st) level (li\<lparr>li_sstable_infos := (li_sstable_infos li)[k := in_sstable r],
          li_filters := (li_filters li)[k := in_filter r], li_sparse_index := in_sparse_index r\<rparr>) = Inr lis"
      "iw_levels st' = lis"
    by (auto simp: init_reads_def pos rbind_eq_Inr)
  have shape: "level_shape c li" using assms(2) li(1) by (rule database_shape_level)
  then have "sstable_shape c s" "si_invar c (li_sparse_index li)" using rnth_set [OF li(2)] by (auto simp: level_shape_def)
  then have "sstable_shape c (in_sstable r) \<and> si_invar c (in_sparse_index r)"
    using r by (fastforce simp: init_completion_def rbind_eq_Inr dest!: init_chunk_shape)
  then have "level_shape c (li\<lparr>li_sstable_infos := (li_sstable_infos li)[k := in_sstable r],
      li_filters := (li_filters li)[k := in_filter r], li_sparse_index := in_sparse_index r\<rparr>)"
    using shape by (auto simp: level_shape_def level_ok_def dest!: set_update_subset_insert [THEN subsetD])
  from database_shape_update [OF assms(2) this lis(1)] show ?thesis by (simp add: lis(2))
qed

lemma init_opened_shape:
  assumes "init_opened c n u st = Inr st'" "database_shape c (iw_levels st)"
  shows "database_shape c (iw_levels st')"
proof -
  obtain level k where pos: "sstable_position c n = (level, k)" by fastforce
  from assms(1) obtain s where s: "sstable_at level k (iw_levels st) = Inr s"
      "sstable_put level k (s\<lparr>ss_desired_sstable_offset := 0\<rparr>) (iw_levels st) = Inr (iw_levels st')"
    by (auto simp: init_opened_def pos Let_def rbind_eq_Inr)
  from s(2) assms(2) show ?thesis
    by (rule sstable_put_shape) (use sstable_at_shape [OF assms(2) s(1)] in \<open>simp add: sstable_shape_def\<close>)
qed

lemma init_visit_shape:
  assumes "init_visit c base i st = Inr st'" "database_shape c (iw_levels st)"
  shows "database_shape c (iw_levels st')"
proof -
  obtain level k where pos: "sstable_position c i = (level, k)" by fastforce
  from assms(1) obtain s where s: "sstable_at level k (iw_levels st) = Inr s"
      "st' = st \<or> (\<exists>s'. init_sstable c base i s = Inr s' \<and> sstable_put level k s' (iw_levels st) = Inr (iw_levels st'))"
    by (auto simp: init_visit_def pos rbind_eq_Inr split: if_splits)
  from sstable_at_shape [OF assms(2) s(1)] s(2) assms(2) show ?thesis
    by (auto dest: init_sstable_shape sstable_put_shape)
qed

definition shaped_level :: level_info where
  "shaped_level = idle_level\<lparr>li_sparse_index := new_sparse_index cmake_config\<rparr>"

lemma shaped_levels: "database_shape cmake_config (replicate 50 shaped_level)"
proof -
  have "sstable_shape cmake_config (new_sstable_info cmake_config (new_wait_queue 0 False) (\<lambda>_. 0) 0)"
    by (simp add: sstable_shape_def new_sstable_info_def)
  then have "level_shape cmake_config shaped_level"
    by (simp add: level_shape_def level_ok_def shaped_level_def idle_level_def sample_level_def si_invar_def new_sparse_index_def)
  then show ?thesis by (simp add: database_shape_def NUM_SSTABLE_LEVELS_def NUM_SSTABLES_def)
qed

text \<open>
  Initialization keeps the shape of the database, whatever the system answers: the numbers of
  levels, of SSTables, filters and buffer queues per level, and the lengths of every SSTable's
  keys, path and buffer array and of every level's sparse index.
\<close>

lemma init_pass_keeps_shape:
  assumes "init_pass c base arrived w st = Inr st'" "database_shape c (iw_levels st)"
  shows "database_shape c (iw_levels st')"
proof -
  have completed: "database_shape c (iw_levels t')"
    if "init_completed c i n t = Inr t'" "database_shape c (iw_levels t)" for i n t t'
    using that by (auto simp: init_completed_def split: list.splits prod.splits
        dest: init_reads_shape init_opened_shape)
  have turn: "database_shape c (iw_levels t')"
    if "init_turn c base arrived i t = Inr t'" "database_shape c (iw_levels t)" for i t t'
    using that by (auto simp: init_turn_def rbind_eq_Inr deliver_def split: option.splits
        dest!: completed dest: init_visit_shape)
  show ?thesis using assms unfolding init_pass_def
    by (rule rfold_invariant [where P = "\<lambda>t. database_shape c (iw_levels t)"]) (use turn in auto)
qed

lemma init_pass_keeps_shape_example:
  "\<exists>st'. init_pass cmake_config 0 (\<lambda>_. None) 0 (init_start (replicate 50 shaped_level)) = Inr st' \<and>
     database_shape cmake_config (iw_levels st')"
proof -
  let ?st = "init_start (replicate 50 shaped_level)" and ?s = "new_sstable_info cmake_config (new_wait_queue 0 False) (\<lambda>_. 0) 0"
  have ns: "worker_sstables cmake_config 0 = [0, 1]"
    by (simp add: worker_sstables_def WORKER_SSTABLE_BATCH_SIZE_def NUM_SSTABLES_def upt_rec)
  have at: "sstable_of cmake_config n ?st = Inr ?s" if "n < 2" for n
    using that by (simp add: sstable_of_def sstable_position_def sstable_at_def init_start_def shaped_level_def idle_level_def)
  have "\<exists>s. sstable_of cmake_config n ?st = Inr s \<and> fresh_sstable cmake_config n s" if "n \<in> set [0, 1 :: nat]" for n
    using that at [of n] new_sstable_fresh [of n] by auto
  from init_visits_fresh [where ns = "[0, 1]" and base = 0, OF _ this] obtain st' where "rfold (init_visit cmake_config 0) [0, 1] ?st = Inr st'" by auto
  moreover have "init_turn cmake_config 0 (\<lambda>_. None) = init_visit cmake_config 0" by (intro ext) (simp add: init_turn_silent)
  ultimately have run: "init_pass cmake_config 0 (\<lambda>_. None) 0 ?st = Inr st'" by (simp add: init_pass_def ns)
  have "database_shape cmake_config (iw_levels ?st)" by (simp add: init_start_def shaped_levels)
  with run init_pass_keeps_shape [of cmake_config 0 "\<lambda>_. None" 0 ?st st'] show ?thesis by blast
qed

end
