(* ===== verification/Worker.thy ===== *)
theory Worker
  imports Dispatch Worker_Init
begin

text \<open>
  The main loop of \<open>LSMTree::sstable_worker_thread\<close> in \<^verbatim>\<open>lsm_tree.hpp\<close>: what a worker does with
  the completed input and output of an SSTable, and what it does when it visits an SSTable: take
  the next batch from its wait queue and read, compact, pass on or give up, or exchange buffers
  when there is none. The end of \<open>try_sstable_tree_read_in_memory\<close>, which passes a finished batch on, is
  here too. The guard of a wait queue that is acquired in a loop is 1 afterwards, as in \<open>Guards\<close>.
  Computing the address of the queue above an SSTable of level 0, which is never used, is left out.
\<close>

section \<open>State\<close>

record worker_state =
  wk_levels :: "level_info list"
  wk_mem :: "byte list"
  wk_store :: batch_store
  wk_pages :: "buf \<Rightarrow> byte list"
  wk_reads :: "(buf \<times> usize) list"
  wk_writes :: "(nat \<times> nat \<times> nat) list"
  wk_sent :: "nat list"
  wk_is_practically_full :: bool

definition get_sstable :: "nat \<Rightarrow> nat \<Rightarrow> worker_state \<Rightarrow> sstable_info res" where
  "get_sstable level index_in_level st = sstable_at level index_in_level (wk_levels st)"

definition put_sstable :: "nat \<Rightarrow> nat \<Rightarrow> sstable_info \<Rightarrow> worker_state \<Rightarrow> worker_state res" where
  "put_sstable level index_in_level s st =
     rbind (sstable_put level index_in_level s (wk_levels st)) (\<lambda>lis. Inr (st\<lparr>wk_levels := lis\<rparr>))"

section \<open>Passing a batch on\<close>

text \<open>To the next level, or from the last level back to the network thread.\<close>

definition pass_on ::
    "config \<Rightarrow> (nat \<Rightarrow> nat \<Rightarrow> bool) \<Rightarrow> nat \<Rightarrow> nat \<Rightarrow> nat \<Rightarrow> worker_state \<Rightarrow> worker_state res option" where
  "pass_on c spurious level index_in_level a st =
     (if level < NUM_SSTABLE_LEVELS c - 1 then
        lbind (insert_into_wqs c (wk_mem st) spurious spurious (level + 1) index_in_level a (wk_levels st) (wk_store st)) (\<lambda>(lis, bs).
          Some (Inr (st\<lparr>wk_levels := lis, wk_store := bs\<rparr>)))
      else Some (Inr (st\<lparr>wk_sent := wk_sent st @ [a]\<rparr>)))"

text \<open>\<open>try_sstable_tree_read_in_memory\<close>: the traversal loop \<open>run\<close>, then the end of the function.\<close>

definition tree_read ::
    "config \<Rightarrow> (nat \<Rightarrow> nat \<Rightarrow> bool) \<Rightarrow> (read_state \<Rightarrow> read_state res option) \<Rightarrow> nat \<Rightarrow> nat \<Rightarrow> worker_state \<Rightarrow>
     worker_state res option" where
  "tree_read c spurious run level index_in_level st =
     lbind (Some (get_sstable level index_in_level st)) (\<lambda>s.
       lbind (run \<lparr>tr_sstable = s, tr_mem = wk_mem st, tr_store = wk_store st, tr_pages = wk_pages st,
                   tr_reads = wk_reads st\<rparr>) (\<lambda>rs.
         let s1 = tr_sstable rs;
             done = stack_empty (ss_stack s1);
             s2 = (if done then s1\<lparr>ss_waiting_on_io := False\<rparr> else s1)
         in lbind (Some (put_sstable level index_in_level s2
                     (st\<lparr>wk_mem := tr_mem rs, wk_store := tr_store rs, wk_reads := tr_reads rs\<rparr>))) (\<lambda>st1.
              if done then pass_on c spurious level index_in_level (ss_req_batch s2) st1
              else Some (Inr st1))))"

section \<open>Learning the network thread's ring\<close>

text \<open>
  Before its main loop, a worker waits for a message with the descriptor of the network thread's ring;
  \<open>arriving n\<close> are the messages that come in before the \<open>n\<close>-th look at the worker's own ring, \<open>q\<close> those
  that are there. The message is looked at but not removed.
\<close>

partial_function (option) wait_network_ringfd :: "(nat \<Rightarrow> usize list) \<Rightarrow> nat \<Rightarrow> usize list \<Rightarrow> (uint \<times> usize list) option" where
  "wait_network_ringfd arriving n q =
     (case q @ arriving n of
        [] \<Rightarrow> wait_network_ringfd arriving (Suc n) []
      | m # ms \<Rightarrow>
          if (ucast m :: uint) = -1 then wait_network_ringfd arriving (Suc n) (m # ms)
          else Some (ucast m, m # ms))"

section \<open>Completed input and output\<close>

text \<open>
  One completed read of a chunk: \<open>(left_boundary, res)\<close> is the user data and the result of the
  entry. The result is positive where it is compared with the unsigned buffer size.
\<close>

definition record_chunk :: "config \<Rightarrow> nat \<times> usize \<times> int \<Rightarrow> cache_helper \<Rightarrow> cache_helper res" where
  "record_chunk c chunk h =
     (let (j, left_boundary, cqe_res) = chunk;
          buffer_id = get_id_of_most_recently_selected_buffer h + 1 + of_nat j;
          right_boundary = left_boundary + word_of_int cqe_res
      in if cqe_res > 0 then
           rbind (map_buffer_to_offset_boundary buffer_id left_boundary right_boundary h) (\<lambda>h'.
             Inr (if cqe_res < int (fair_aligned_sstable_page_cache_buffer_size c)
                  then set_cur_min_invalid_offset (right_boundary + 1) h' else h'))
         else Inr (set_cur_min_invalid_offset left_boundary h))"

text \<open>No completion in the ring of the SSTable means that a flush is done.\<close>

definition io_completed ::
    "config \<Rightarrow> (nat \<Rightarrow> nat \<Rightarrow> bool) \<Rightarrow> nat \<Rightarrow> (usize \<times> int) list \<Rightarrow> worker_state \<Rightarrow> worker_state res option" where
  "io_completed c spurious sstable_num cqes st =
     (let (level, index_in_level) = sstable_position c sstable_num
      in lbind (Some (get_sstable level index_in_level st)) (\<lambda>s.
           if cqes = [] then
             Some (rbind (put_sstable level index_in_level (s\<lparr>ss_is_flushed_to := True\<rparr>) st) (\<lambda>st1.
               Inr (st1\<lparr>wk_is_practically_full := (level = NUM_SSTABLE_LEVELS c - 1)\<rparr>)))
           else
             lbind (Some (rbind (rfold (record_chunk c) (zip [0 ..< length cqes] cqes) (ss_cache_helper s)) (\<lambda>h.
                      put_sstable level index_in_level (s\<lparr>ss_cache_helper := h\<rparr>) st)))
               (tree_read c spurious (tree_read_loop c) level index_in_level)))"

section \<open>Visiting an SSTable\<close>

text \<open>\<open>readwrite_pool.present_in_level && is_flushed_to\<close>.\<close>

definition can_answer :: "request_batch \<Rightarrow> sstable_info \<Rightarrow> bool res" where
  "can_answer b s =
     rbind (batch_pool b) (\<lambda>p.
       case rw_present_in_level p of
         None \<Rightarrow> Inl Indeterminate
       | Some here \<Rightarrow> Inr (here \<and> ss_is_flushed_to s))"

definition read_batch ::
    "config \<Rightarrow> (nat \<Rightarrow> nat \<Rightarrow> bool) \<Rightarrow> nat \<Rightarrow> nat \<Rightarrow> sstable_info \<Rightarrow> worker_state \<Rightarrow> worker_state res option" where
  "read_batch c spurious level index_in_level s st =
     lbind (Some (rbind (rnth (wk_levels st) level) (\<lambda>li. rnth (li_buffer_queues li) index_in_level))) (\<lambda>q.
       lbind (try_add_buffers_nonblockingly (spurious 0 0) s q) (\<lambda>(s', q').
         lbind (Some (rbind (put_sstable level index_in_level s' st) (\<lambda>st1.
                  rbind (rnth (wk_levels st1) level) (\<lambda>li.
                    rbind (rupd (li_buffer_queues li) index_in_level q') (\<lambda>qs.
                      rbind (rupd (wk_levels st1) level (li\<lparr>li_buffer_queues := qs\<rparr>)) (\<lambda>lis.
                        Inr (st1\<lparr>wk_levels := lis\<rparr>))))))) (\<lambda>st2.
           tree_read c spurious (start_read c) level index_in_level st2)))"

text \<open>The bytes an \<open>io_uring_prep_write\<close> is asked to write for a segment.\<close>

definition flush_length :: "config \<Rightarrow> nat" where
  "flush_length c = MEMTABLE_SIZE c * MEMTABLE_ENTRY_LENGTH c"

text \<open>A batch has been taken from the wait queue: \<open>s\<close> is the SSTable, with the batch \<open>a\<close> as its own.\<close>

definition serve_batch ::
    "config \<Rightarrow> (nat \<Rightarrow> nat \<Rightarrow> bool) \<Rightarrow> nat \<Rightarrow> nat \<Rightarrow> nat \<Rightarrow> sstable_info \<Rightarrow> worker_state \<Rightarrow> worker_state res option" where
  "serve_batch c spurious sstable_num level index_in_level s st =
     (let a = ss_req_batch s
      in lbind (Some (batch_deref (wk_store st) a)) (\<lambda>b.
           if rb_req_type b = READ then
             lbind (Some (can_answer b s)) (\<lambda>here.
               if here then read_batch c spurious level index_in_level s st
               else pass_on c spurious level index_in_level a st)
           else if ss_is_flushed_to s \<and> level < NUM_SSTABLE_LEVELS c - 1 then
             pass_on c spurious level index_in_level a st
           else if \<not> ss_is_flushed_to s then
             Some (rbind (batch_segment b) (\<lambda>_.
               rbind (put_sstable level index_in_level (s\<lparr>ss_waiting_on_io := True\<rparr>) st) (\<lambda>st1.
                 Inr (st1\<lparr>wk_writes := wk_writes st1 @ [(sstable_num, a, flush_length c)]\<rparr>))))
           else Some (rbind (delete_request_batch b) (\<lambda>_. Inr (st\<lparr>wk_store := (wk_store st)[a - 1 := None]\<rparr>)))))"

text \<open>Nothing to do: the exchange of buffers with the SSTable above.\<close>

definition visit_idle ::
    "config \<Rightarrow> bool \<Rightarrow> nat \<Rightarrow> nat \<Rightarrow> sstable_info \<Rightarrow> worker_state \<Rightarrow> worker_state res" where
  "visit_idle c spurious level index_in_level s st =
     rbind (rnth (wk_levels st) level) (\<lambda>li.
       rbind (rnth (li_buffer_queues li) index_in_level) (\<lambda>q.
         rbind (if level = 0 then Inr q
                else rbind (rnth (wk_levels st) (level - 1)) (\<lambda>above. rnth (li_buffer_queues above) index_in_level)) (\<lambda>prev.
           rbind (worker_idle c spurious level s q prev) (\<lambda>(s', q', prev').
             rbind (put_sstable level index_in_level s' st) (\<lambda>st1.
               rbind (rnth (wk_levels st1) level) (\<lambda>li1.
                 rbind (rupd (li_buffer_queues li1) index_in_level q') (\<lambda>qs.
                   rbind (rupd (wk_levels st1) level (li1\<lparr>li_buffer_queues := qs\<rparr>)) (\<lambda>lis.
                     if level = 0 then Inr (st1\<lparr>wk_levels := lis\<rparr>)
                     else rbind (rnth lis (level - 1)) (\<lambda>above.
                            rbind (rupd (li_buffer_queues above) index_in_level prev') (\<lambda>qs'.
                              rbind (rupd lis (level - 1) (above\<lparr>li_buffer_queues := qs'\<rparr>)) (\<lambda>lis'.
                                Inr (st1\<lparr>wk_levels := lis'\<rparr>))))))))))))"

definition visit_sstable ::
    "config \<Rightarrow> (nat \<Rightarrow> nat \<Rightarrow> bool) \<Rightarrow> nat \<Rightarrow> worker_state \<Rightarrow> worker_state res option" where
  "visit_sstable c spurious sstable_num st =
     (let (level, index_in_level) = sstable_position c sstable_num
      in lbind (Some (get_sstable level index_in_level st)) (\<lambda>s.
           if ss_waiting_on_io s then Some (Inr st)
           else
             let wq = ss_req_batch_wq s;
                 wq1 = (if wq_is_single_thread wq then wq else wq\<lparr>wq_atomic_consumer_guard := 1\<rparr>)
             in lbind (Some (rbind (wq_pop_front wq1) (\<lambda>(popped, wq2).
                        let a = (case popped of None \<Rightarrow> 0 | Some a \<Rightarrow> a);
                            s1 = s\<lparr>ss_req_batch_wq := wq2, ss_req_batch := a\<rparr>
                        in rbind (put_sstable level index_in_level s1 st) (\<lambda>st1. Inr (s1, st1))))) (\<lambda>(s1, st1).
                  if ss_req_batch s1 \<noteq> 0 then serve_batch c spurious sstable_num level index_in_level s1 st1
                  else Some (visit_idle c (spurious 0 0) level index_in_level s1 st1))))"

text \<open>
  One pass of \<open>for (i = first_sstable_num; ...)\<close>; for every SSTable visited, \<open>arrived\<close> says which
  completed operation, if any, the scheduler ring holds at that moment.
\<close>

definition worker_pass ::
    "config \<Rightarrow> (nat \<Rightarrow> nat \<Rightarrow> bool) \<Rightarrow> (nat \<Rightarrow> (nat \<times> (usize \<times> int) list) option) \<Rightarrow> nat \<Rightarrow> worker_state \<Rightarrow>
     worker_state res option" where
  "worker_pass c spurious arrived worker_thread_num st =
     lfold (\<lambda>i st.
       lbind (case arrived i of
                None \<Rightarrow> Some (Inr st)
              | Some (sstable_num, cqes) \<Rightarrow> io_completed c spurious sstable_num cqes st)
         (visit_sstable c spurious i))
       (worker_sstables c worker_thread_num) st"

section \<open>The first message of the main loop\<close>

text \<open>
  The wait ends with the first message there is. Since the message stays in the ring, it is also the
  first one the main loop finds, which takes it for the number of an SSTable.
\<close>

lemma wait_network_ringfd_ends:
  assumes "\<forall>k < n. arriving k = []" "arriving n = m # ms" "(ucast m :: uint) \<noteq> -1"
  shows "wait_network_ringfd arriving 0 [] = Some (ucast m, m # ms)"
proof -
  have "wait_network_ringfd arriving k [] = Some (ucast m, m # ms)" if "k \<le> n" for k
    using that
  proof (induction k rule: inc_induct)
    case base
    then show ?case using assms(2,3) by (subst wait_network_ringfd.simps) simp
  next
    case (step k)
    then show ?case using assms(1) by (subst wait_network_ringfd.simps) simp
  qed
  then show ?thesis by simp
qed

section \<open>What a visit does\<close>

lemma put_sstable_ok:
  assumes "get_sstable level i st = Inr s"
  shows "\<exists>st'. put_sstable level i s' st = Inr st' \<and> get_sstable level i st' = Inr s' \<and>
    wk_mem st' = wk_mem st \<and> wk_store st' = wk_store st \<and> wk_reads st' = wk_reads st \<and>
    wk_writes st' = wk_writes st \<and> wk_sent st' = wk_sent st \<and>
    (\<forall>level' i'. (level', i') \<noteq> (level, i) \<longrightarrow> get_sstable level' i' st' = get_sstable level' i' st)"
proof -
  from sstable_put_ok [of level i "wk_levels st" s s'] assms obtain lis where
    "sstable_put level i s' (wk_levels st) = Inr lis" "sstable_at level i lis = Inr s'"
    "\<forall>level' i'. (level', i') \<noteq> (level, i) \<longrightarrow> sstable_at level' i' lis = sstable_at level' i' (wk_levels st)"
    by (auto simp: get_sstable_def)
  then show ?thesis by (auto simp: put_sstable_def get_sstable_def)
qed

text \<open>The next batch \<open>a\<close> of an SSTable whose wait queue belongs to one thread.\<close>

definition next_batch :: "sstable_info \<Rightarrow> nat \<Rightarrow> nat list \<Rightarrow> bool" where
  "next_batch s a rest \<longleftrightarrow> \<not> ss_waiting_on_io s \<and> wq_is_single_thread (ss_req_batch_wq s) \<and>
     wq_invar (ss_req_batch_wq s) \<and> wq_contents (ss_req_batch_wq s) = a # rest \<and> a \<noteq> 0"

lemma visit_takes_batch:
  assumes "sstable_position c n = (level, i)" "get_sstable level i st = Inr s" "next_batch s a rest"
  shows "\<exists>wq st1. let s1 = s\<lparr>ss_req_batch_wq := wq, ss_req_batch := a\<rparr> in
    visit_sstable c spurious n st = serve_batch c spurious n level i s1 st1 \<and>
    wq_contents wq = rest \<and> wq_invar wq \<and> get_sstable level i st1 = Inr s1 \<and>
    wk_mem st1 = wk_mem st \<and> wk_store st1 = wk_store st \<and> wk_writes st1 = wk_writes st \<and> wk_sent st1 = wk_sent st"
proof -
  let ?wq = "ss_req_batch_wq s"
  have nb: "\<not> ss_waiting_on_io s" "wq_is_single_thread ?wq" "wq_invar ?wq" "wq_contents ?wq = a # rest" "a \<noteq> 0"
    using assms(3) by (simp_all add: next_batch_def)
  from wq.deq_ok [OF nb(3)] nb(4) obtain wq where "wq_take ?wq = Inr (a, wq)" "wq_invar wq" "wq_contents wq = rest"
    by auto
  then have pop: "wq_pop_front ?wq = Inr (Some a, wq)" "wq_invar wq" "wq_contents wq = rest"
    by (auto simp: wq_take_def rbind_eq_Inr split: option.splits)
  let ?s1 = "s\<lparr>ss_req_batch_wq := wq, ss_req_batch := a\<rparr>"
  from put_sstable_ok [OF assms(2), of ?s1] obtain st1 where st1: "put_sstable level i ?s1 st = Inr st1"
      "get_sstable level i st1 = Inr ?s1" "wk_mem st1 = wk_mem st" "wk_store st1 = wk_store st"
      "wk_writes st1 = wk_writes st" "wk_sent st1 = wk_sent st" by blast
  have "visit_sstable c spurious n st = serve_batch c spurious n level i ?s1 st1"
    using assms(1,2) nb pop(1) st1(1) by (simp add: visit_sstable_def)
  then show ?thesis using pop(2,3) st1 by (intro exI [of _ wq] exI [of _ st1]) (simp add: Let_def)
qed


text \<open>
  C32. Flushing a compaction to an empty SSTable: the visit orders one write of the segment and marks
  the SSTable as waiting, and the completion of the write marks it as flushed to. But nothing ever
  clears the mark of waiting, so from then on every visit passes the SSTable by: the batches in
  its wait queue stay there.
\<close>

theorem flush_then_blocked:
  assumes "sstable_position c n = (level, i)" "get_sstable level i st = Inr s" "next_batch s a rest"
    and "batch_deref (wk_store st) a = Inr b" "rb_req_type b \<noteq> READ" "batch_segment b = Inr seg" "\<not> ss_is_flushed_to s"
  shows "\<exists>st1 st2 s2. visit_sstable c spurious n st = Some (Inr st1) \<and>
    wk_writes st1 = wk_writes st @ [(n, a, flush_length c)] \<and>
    io_completed c spurious' n [] st1 = Some (Inr st2) \<and> get_sstable level i st2 = Inr s2 \<and> ss_is_flushed_to s2 \<and>
    wq_contents (ss_req_batch_wq s2) = rest \<and> (\<forall>spurious''. visit_sstable c spurious'' n st2 = Some (Inr st2))"
proof -
  from visit_takes_batch [OF assms(1,2,3), of spurious] obtain wq st0 where
      v: "visit_sstable c spurious n st = serve_batch c spurious n level i (s\<lparr>ss_req_batch_wq := wq, ss_req_batch := a\<rparr>) st0"
        "wq_contents wq = rest" "get_sstable level i st0 = Inr (s\<lparr>ss_req_batch_wq := wq, ss_req_batch := a\<rparr>)"
        "wk_store st0 = wk_store st" "wk_writes st0 = wk_writes st"
    by (auto simp: Let_def)
  let ?s1 = "s\<lparr>ss_req_batch_wq := wq, ss_req_batch := a, ss_waiting_on_io := True\<rparr>"
  from put_sstable_ok [OF v(3), of ?s1] obtain st1 where st1: "put_sstable level i ?s1 st0 = Inr st1"
      "get_sstable level i st1 = Inr ?s1" "wk_writes st1 = wk_writes st0" by blast
  let ?st1 = "st1\<lparr>wk_writes := wk_writes st @ [(n, a, flush_length c)]\<rparr>"
  have first: "visit_sstable c spurious n st = Some (Inr ?st1)"
    using v st1 assms(4-7) by (simp add: serve_batch_def)
  let ?s2 = "?s1\<lparr>ss_is_flushed_to := True\<rparr>"
  have "get_sstable level i ?st1 = Inr ?s1" using st1(2) by (simp add: get_sstable_def)
  from put_sstable_ok [OF this, of ?s2] obtain st2 where st2: "put_sstable level i ?s2 ?st1 = Inr st2"
      "get_sstable level i st2 = Inr ?s2" by blast
  let ?st2 = "st2\<lparr>wk_is_practically_full := (level = NUM_SSTABLE_LEVELS c - 1)\<rparr>"
  have "io_completed c spurious' n [] ?st1 = Some (Inr ?st2)"
    using assms(1) st2(1) \<open>get_sstable level i ?st1 = Inr ?s1\<close> by (simp add: io_completed_def)
  moreover have at: "get_sstable level i ?st2 = Inr ?s2" using st2(2) by (simp add: get_sstable_def)
  moreover have "visit_sstable c sp n ?st2 = Some (Inr ?st2)" for sp
    using assms(1) at by (simp add: visit_sstable_def)
  ultimately show ?thesis using first v(2)
    by (intro exI [of _ ?st1] exI [of _ ?st2] exI [of _ ?s2]) simp
qed

text \<open>A level whose SSTables all have the batch at address 1 waiting.\<close>

definition waiting_queue :: "nat wait_queue" where
  "waiting_queue = start_list 1 (new_wait_queue 0 True)"

lemma waiting_queue_ok: "wq_invar waiting_queue" "wq_contents waiting_queue = [1]" "wq_is_single_thread waiting_queue"
proof -
  have "standard_push_back 1 (new_wait_queue 0 True) = Inr waiting_queue"
    by (simp add: standard_push_back_def waiting_queue_def start_list_def new_node_def new_wait_queue_def)
  moreover have "wq_invar (new_wait_queue 0 True :: nat wait_queue)" "wq_contents (new_wait_queue 0 True :: nat wait_queue) = []"
    by (rule new_wait_queue_invar)+
  ultimately show "wq_invar waiting_queue" "wq_contents waiting_queue = [1]"
    using wq.enq_ok [of "new_wait_queue 0 True" "1 :: nat"] by auto
  show "wq_is_single_thread waiting_queue"
    by (simp add: waiting_queue_def start_list_def new_node_def new_wait_queue_def)
qed

definition waiting_sstable :: sstable_info where
  "waiting_sstable = new_sstable_info cmake_config waiting_queue (\<lambda>_. 0) 0"

definition waiting_worker :: "request_batch \<Rightarrow> worker_state" where
  "waiting_worker b = \<lparr>wk_levels = replicate 50 (sample_level\<lparr>li_sstable_infos := replicate 10 waiting_sstable\<rparr>),
     wk_mem = [], wk_store = [Some b], wk_pages = (\<lambda>_. []), wk_reads = [], wk_writes = [], wk_sent = [],
     wk_is_practically_full = False\<rparr>"

lemma waiting_worker_ok:
  "sstable_position cmake_config 490 = (49, 0)" "NUM_SSTABLE_LEVELS cmake_config = 50"
  "get_sstable 49 0 (waiting_worker b) = Inr waiting_sstable" "next_batch waiting_sstable 1 []"
  "batch_deref (wk_store (waiting_worker b)) 1 = Inr b"
  by (simp_all add: sstable_position_def NUM_SSTABLE_LEVELS_def NUM_SSTABLES_def get_sstable_def
      sstable_at_def waiting_worker_def batch_deref_def)
    (simp add: next_batch_def waiting_sstable_def new_sstable_info_def waiting_queue_ok)


theorem flush_then_blocked_witness:
  "\<exists>st1 st2. visit_sstable cmake_config (\<lambda>_ _. False) 490 (waiting_worker \<lparr>rb_req_type = COMPACTION, rb_content =
        Segment (new_request_segment cmake_config)\<rparr>) = Some (Inr st1) \<and>
    io_completed cmake_config (\<lambda>_ _. False) 490 [] st1 = Some (Inr st2) \<and>
    visit_sstable cmake_config (\<lambda>_ _. False) 490 st2 = Some (Inr st2)"
proof -
  let ?b = "\<lparr>rb_req_type = COMPACTION, rb_content = Segment (new_request_segment cmake_config)\<rparr>"
  have "batch_segment ?b = Inr (new_request_segment cmake_config)" "\<not> ss_is_flushed_to waiting_sstable"
    by (simp_all add: batch_segment_def waiting_sstable_def new_sstable_info_def)
  from flush_then_blocked [OF waiting_worker_ok(1,3,4,5) _ this, of "\<lambda>_ _. False" "\<lambda>_ _. False"]
  show ?thesis by auto
qed

section \<open>A worker keeps to its SSTables\<close>

text \<open>All SSTables but the one at \<open>(level, i)\<close> are as before.\<close>

definition others_same :: "nat \<Rightarrow> nat \<Rightarrow> worker_state \<Rightarrow> worker_state \<Rightarrow> bool" where
  "others_same level i st st' \<longleftrightarrow>
     (\<forall>l k. (l, k) \<noteq> (level, i) \<longrightarrow> sstable_at l k (wk_levels st') = sstable_at l k (wk_levels st))"

lemma others_same_refl [simp]: "others_same level i st st"
  by (simp add: others_same_def)

lemma others_same_trans [trans]:
  "others_same level i st st' \<Longrightarrow> others_same level i st' st'' \<Longrightarrow> others_same level i st st''"
  by (simp add: others_same_def)

lemma others_same_levels: "wk_levels st' = wk_levels st \<Longrightarrow> others_same level i st st'"
  by (simp add: others_same_def)

lemma put_sstable_others:
  assumes "put_sstable level i s st = Inr st'"
  shows "others_same level i st st'"
proof -
  have "sstable_at l k lis' = sstable_at l k lis" if "sstable_put level i s lis = Inr lis'" "(l, k) \<noteq> (level, i)" for l k lis lis'
    using that by (cases "l = level")
      (auto simp: sstable_put_def with_level_def sstable_at_def rnth_def rupd_def rbind_eq_Inr split: if_splits)
  then show ?thesis using assms by (auto simp: put_sstable_def others_same_def rbind_eq_Inr)
qed

lemma buffer_queues_same:
  assumes "rnth lis level = Inr li" "rupd lis level (li\<lparr>li_buffer_queues := qs\<rparr>) = Inr lis'"
  shows "sstable_at l k lis' = sstable_at l k lis"
  using assms by (cases "l = level") (auto simp: sstable_at_def rnth_def rupd_def split: if_splits)

lemma pass_on_others:
  assumes "0 < LEVEL_FACTOR c" "pass_on c spurious level i a st = Some (Inr st')"
  shows "wk_levels st' = wk_levels st"
  using assms(2) insert_into_wqs_fails [OF assms(1), of "wk_mem st" spurious spurious "level + 1" i a "wk_levels st" "wk_store st"]
  by (auto simp: pass_on_def lbind_eq_Inr split: if_splits)

lemma tree_read_others:
  assumes "0 < LEVEL_FACTOR c" "tree_read c spurious run level i st = Some (Inr st')"
  shows "others_same level i st st'"
proof -
  from assms(2) obtain s st0 st1 where st1: "put_sstable level i s st0 = Inr st1" "wk_levels st0 = wk_levels st"
      "wk_levels st' = wk_levels st1"
    by (fastforce simp: tree_read_def Let_def lbind_eq_Inr split: if_splits dest: pass_on_others [OF assms(1)])
  have "others_same level i st st0" using st1(2) by (rule others_same_levels)
  also have "others_same level i st0 st1" using st1(1) by (rule put_sstable_others)
  also have "others_same level i st1 st'" using st1(3) by (rule others_same_levels)
  finally show ?thesis .
qed

lemma io_completed_others:
  assumes "0 < LEVEL_FACTOR c" "sstable_position c n = (level, i)" "io_completed c spurious n cqes st = Some (Inr st')"
  shows "others_same level i st st'"
proof (cases "cqes = []")
  case True
  then obtain s st1 where "put_sstable level i s st = Inr st1" "wk_levels st' = wk_levels st1"
    using assms(2,3) by (auto simp: io_completed_def lbind_eq_Inr rbind_eq_Inr)
  then show ?thesis by (auto dest!: put_sstable_others simp: others_same_def)
next
  case False
  then obtain s st1 where "put_sstable level i s st = Inr st1" "tree_read c spurious (tree_read_loop c) level i st1 = Some (Inr st')"
    using assms(2,3) by (auto simp: io_completed_def lbind_eq_Inr rbind_eq_Inr)
  then show ?thesis using put_sstable_others tree_read_others [OF assms(1)] others_same_trans by blast
qed

lemma read_batch_others:
  assumes "0 < LEVEL_FACTOR c" "read_batch c spurious level i s st = Some (Inr st')"
  shows "others_same level i st st'"
proof -
  from assms(2) obtain s' st1 li qs lis where st1: "put_sstable level i s' st = Inr st1" "rnth (wk_levels st1) level = Inr li"
      "rupd (wk_levels st1) level (li\<lparr>li_buffer_queues := qs\<rparr>) = Inr lis"
      "tree_read c spurious (start_read c) level i (st1\<lparr>wk_levels := lis\<rparr>) = Some (Inr st')"
    by (auto simp: read_batch_def lbind_eq_Inr rbind_eq_Inr)
  have "others_same level i st st1" using st1(1) by (rule put_sstable_others)
  also have "others_same level i st1 (st1\<lparr>wk_levels := lis\<rparr>)"
    using buffer_queues_same [OF st1(2,3)] by (simp add: others_same_def)
  also have "others_same level i (st1\<lparr>wk_levels := lis\<rparr>) st'" using assms(1) st1(4) by (rule tree_read_others)
  finally show ?thesis .
qed

lemma visit_idle_others:
  assumes "visit_idle c spurious level i s st = Inr st'"
  shows "others_same level i st st'"
proof -
  from assms obtain s' st1 li1 qs lis prev where st1: "put_sstable level i s' st = Inr st1" "rnth (wk_levels st1) level = Inr li1"
      "rupd (wk_levels st1) level (li1\<lparr>li_buffer_queues := qs\<rparr>) = Inr lis"
    and st': "(if level = 0 then Inr (st1\<lparr>wk_levels := lis\<rparr>)
      else rbind (rnth lis (level - 1)) (\<lambda>above.
             rbind (rupd (li_buffer_queues above) i prev) (\<lambda>qs'.
               rbind (rupd lis (level - 1) (above\<lparr>li_buffer_queues := qs'\<rparr>)) (\<lambda>lis'. Inr (st1\<lparr>wk_levels := lis'\<rparr>))))) = Inr st'"
    unfolding visit_idle_def rbind_eq_Inr by (auto simp: rbind_eq_Inr split del: if_split)
  have "sstable_at l k (wk_levels st') = sstable_at l k lis" for l k
    using st' by (auto simp: rbind_eq_Inr buffer_queues_same split: if_splits)
  then have "others_same level i st1 st'" using buffer_queues_same [OF st1(2,3)] by (simp add: others_same_def)
  with put_sstable_others [OF st1(1)] show ?thesis by (rule others_same_trans)
qed

lemma serve_batch_others:
  assumes "0 < LEVEL_FACTOR c" "serve_batch c spurious n level i s st = Some (Inr st')"
  shows "others_same level i st st'"
proof -
  have "read_batch c spurious level i s st = Some (Inr st') \<or> pass_on c spurious level i (ss_req_batch s) st = Some (Inr st') \<or>
      wk_levels st' = wk_levels st \<or> (\<exists>s1 st1. put_sstable level i s1 st = Inr st1 \<and> wk_levels st' = wk_levels st1)"
    using assms(2) by (auto simp: serve_batch_def Let_def lbind_eq_Inr rbind_eq_Inr split: if_splits) blast
  then show ?thesis
  proof (elim disjE exE conjE)
    assume "pass_on c spurious level i (ss_req_batch s) st = Some (Inr st')"
    then show ?thesis by (intro others_same_levels pass_on_others [OF assms(1)])
  next
    fix s1 st1 assume "put_sstable level i s1 st = Inr st1" "wk_levels st' = wk_levels st1"
    then show ?thesis by (meson put_sstable_others others_same_levels others_same_trans)
  qed (simp_all add: others_same_levels read_batch_others [OF assms(1)])
qed

lemma visit_sstable_others:
  assumes "0 < LEVEL_FACTOR c" "sstable_position c n = (level, i)" "visit_sstable c spurious n st = Some (Inr st')"
  shows "others_same level i st st'"
proof -
  have "st' = st \<or> (\<exists>s1 st1. put_sstable level i s1 st = Inr st1 \<and>
      (serve_batch c spurious n level i s1 st1 = Some (Inr st') \<or> visit_idle c (spurious 0 0) level i s1 st1 = Inr st'))"
    using assms(2,3) by (auto simp: visit_sstable_def Let_def lbind_eq_Inr rbind_eq_Inr split: if_splits prod.splits)
  then show ?thesis
  proof (elim disjE exE conjE)
    fix s1 st1 assume "put_sstable level i s1 st = Inr st1" "serve_batch c spurious n level i s1 st1 = Some (Inr st')"
    then show ?thesis by (meson put_sstable_others serve_batch_others [OF assms(1)] others_same_trans)
  next
    fix s1 st1 assume "put_sstable level i s1 st = Inr st1" "visit_idle c (spurious 0 0) level i s1 st1 = Inr st'"
    then show ?thesis by (meson put_sstable_others visit_idle_others others_same_trans)
  qed simp
qed


definition busy_worker :: worker_state where
  "busy_worker = (waiting_worker \<lparr>rb_req_type = READ, rb_content = Pool new_readwrite_pool\<rparr>)\<lparr>wk_levels :=
     replicate 50 (sample_level\<lparr>li_sstable_infos := replicate 10 (waiting_sstable\<lparr>ss_waiting_on_io := True\<rparr>)\<rparr>)\<rparr>"


end
