(* ===== verification/RingDB_System.thy ===== *)
theory RingDB_System
  imports Shapes Worker
begin

text \<open>
  The threads of \<open>LSMTree\<close> in \<^verbatim>\<open>lsm_tree.hpp\<close> together: the network thread handles a completion,
  the main thread a batch, a worker visits an SSTable or takes in its completed input and output.
  Such turns follow each other in any order, and each leaves the memory the threads share, that is
  the socket buffers, the batches, the levels and the flag \<open>is_practically_full\<close>, to the others.
\<close>

section \<open>State\<close>

record system =
  sy_network :: network_state
  sy_main :: main_state
  sy_worker :: worker_state

text \<open>After a turn, the other threads see what it has written.\<close>

definition share_memory :: "byte list \<Rightarrow> batch_store \<Rightarrow> system \<Rightarrow> system" where
  "share_memory mem bs sy =
     sy\<lparr>sy_network := (sy_network sy)\<lparr>nw_mem := mem, nw_store := bs\<rparr>,
        sy_main := (sy_main sy)\<lparr>mn_mem := mem, mn_store := bs\<rparr>,
        sy_worker := (sy_worker sy)\<lparr>wk_mem := mem, wk_store := bs\<rparr>\<rparr>"

definition share_levels :: "level_info list \<Rightarrow> bool \<Rightarrow> system \<Rightarrow> system" where
  "share_levels lis full sy =
     sy\<lparr>sy_main := (sy_main sy)\<lparr>mn_levels := lis, mn_is_practically_full := full\<rparr>,
        sy_worker := (sy_worker sy)\<lparr>wk_levels := lis, wk_is_practically_full := full\<rparr>\<rparr>"

definition network_turn :: "config \<Rightarrow> int \<Rightarrow> bool \<Rightarrow> user_data \<Rightarrow> system \<Rightarrow> system res" where
  "network_turn c cqe_res flag_more u sy =
     rbind (handle_cqe c cqe_res flag_more u (sy_network sy)) (\<lambda>n.
       Inr (share_memory (nw_mem n) (nw_store n) (sy\<lparr>sy_network := n\<rparr>)))"

text \<open>The network thread goes round its loop: it waits, and takes a new submission entry.\<close>

definition network_wait :: "system \<Rightarrow> system" where
  "network_wait sy = sy\<lparr>sy_network := get_sqe (sy_network sy)\<rparr>"

definition main_turn :: "config \<Rightarrow> (nat \<Rightarrow> nat \<Rightarrow> bool) \<Rightarrow> nat \<Rightarrow> system \<Rightarrow> system res option" where
  "main_turn c spurious a sy =
     lbind (main_round c spurious a (sy_main sy)) (\<lambda>m.
       Some (Inr (share_memory (mn_mem m) (mn_store m)
         (share_levels (mn_levels m) (mn_is_practically_full m) (sy\<lparr>sy_main := m\<rparr>)))))"

definition after_worker :: "worker_state \<Rightarrow> system \<Rightarrow> system" where
  "after_worker w sy =
     share_memory (wk_mem w) (wk_store w) (share_levels (wk_levels w) (wk_is_practically_full w) (sy\<lparr>sy_worker := w\<rparr>))"

definition visit_turn :: "config \<Rightarrow> (nat \<Rightarrow> nat \<Rightarrow> bool) \<Rightarrow> nat \<Rightarrow> system \<Rightarrow> system res option" where
  "visit_turn c spurious sstable_num sy =
     lbind (visit_sstable c spurious sstable_num (sy_worker sy)) (\<lambda>w. Some (Inr (after_worker w sy)))"

definition io_turn :: "config \<Rightarrow> (nat \<Rightarrow> nat \<Rightarrow> bool) \<Rightarrow> nat \<Rightarrow> (usize \<times> int) list \<Rightarrow> system \<Rightarrow> system res option" where
  "io_turn c spurious sstable_num cqes sy =
     lbind (io_completed c spurious sstable_num cqes (sy_worker sy)) (\<lambda>w. Some (Inr (after_worker w sy)))"

text \<open>Any completion, message and batch address may come; nothing is assumed of the clients or the kernel.\<close>

inductive system_step :: "config \<Rightarrow> system \<Rightarrow> system \<Rightarrow> bool" for c where
  network: "network_turn c cqe_res flag_more u sy = Inr sy' \<Longrightarrow> system_step c sy sy'"
| wait: "system_step c sy (network_wait sy)"
| main: "main_turn c spurious a sy = Some (Inr sy') \<Longrightarrow> system_step c sy sy'"
| visit: "visit_turn c spurious n sy = Some (Inr sy') \<Longrightarrow> system_step c sy sy'"
| io: "io_turn c spurious n cqes sy = Some (Inr sy') \<Longrightarrow> system_step c sy sy'"

section \<open>Levels at rest\<close>

text \<open>Nothing waits for the SSTable, and nothing has ever been pushed on its traversal stack.\<close>

definition sstable_quiet :: "sstable_info \<Rightarrow> bool" where
  "sstable_quiet s \<longleftrightarrow> wq_front (ss_req_batch_wq s) = 0 \<and> set (st_data (ss_stack s)) \<subseteq> {None}"

definition resting :: "config \<Rightarrow> level_info list \<Rightarrow> bool" where
  "resting c lis \<longleftrightarrow> database_shape c lis \<and> (\<forall>li \<in> set lis. \<forall>s \<in> set (li_sstable_infos li). sstable_quiet s)"

lemma resting_at:
  assumes "resting c lis" "sstable_at l i lis = Inr s"
  shows "sstable_quiet s" "sstable_shape c s"
proof -
  show "sstable_shape c s" using assms sstable_at_shape by (auto simp: resting_def)
  show "sstable_quiet s" using assms by (auto simp: resting_def sstable_at_def rbind_eq_Inr dest!: rnth_set)
qed

lemma resting_put:
  assumes "sstable_put l i s lis = Inr lis'" "resting c lis" "sstable_quiet s" "sstable_shape c s"
  shows "resting c lis'"
proof -
  from assms(1) obtain li ss where "rnth lis l = Inr li" "rupd (li_sstable_infos li) i s = Inr ss"
      "rupd lis l (li\<lparr>li_sstable_infos := ss\<rparr>) = Inr lis'"
    by (auto simp: sstable_put_def with_level_def rbind_eq_Inr)
  then have "li \<in> set lis" "set ss \<subseteq> insert s (set (li_sstable_infos li))" "set lis' \<subseteq> insert (li\<lparr>li_sstable_infos := ss\<rparr>) (set lis)"
    by (auto dest: rnth_set rupd_set)
  moreover from this assms(2,3) have "sstable_quiet x" if "lj \<in> set lis'" "x \<in> set (li_sstable_infos lj)" for lj x
    using that by (cases "lj = li\<lparr>li_sstable_infos := ss\<rparr>") (auto simp: resting_def)
  ultimately show ?thesis using assms sstable_put_shape [OF assms(1)] by (auto simp: resting_def)
qed

lemma resting_buffer_queues:
  assumes "resting c lis" "rnth lis l = Inr li" "rupd (li_buffer_queues li) i q = Inr qs"
    and "rupd lis l (li\<lparr>li_buffer_queues := qs\<rparr>) = Inr lis'"
  shows "resting c lis'"
proof -
  have "level_shape c li" using assms(1,2) database_shape_level by (auto simp: resting_def)
  then have "level_shape c (li\<lparr>li_buffer_queues := qs\<rparr>)" using rupd_length [OF assms(3)] by (simp add: level_shape_def level_ok_def)
  then have "database_shape c lis'" using assms(1,4) database_shape_update by (auto simp: resting_def)
  moreover have "li \<in> set lis" "set lis' \<subseteq> insert (li\<lparr>li_buffer_queues := qs\<rparr>) (set lis)"
    using assms(2,4) by (auto dest: rnth_set rupd_set)
  ultimately show ?thesis using assms(1) by (auto simp: resting_def)
qed

text \<open>A traversal cannot start on an untouched stack.\<close>

lemma stack_top_unwritten:
  assumes "set (st_data s) \<subseteq> {None}"
  shows "\<exists>e. stack_top s = Inl e"
proof (cases "unat (st_back s) < length (st_data s)")
  case True
  then have "st_data s ! unat (st_back s) = None" using assms nth_mem by blast
  then show ?thesis using True by (simp add: stack_top_def cell_def)
qed (simp add: stack_top_def cell_def)

lemma tree_read_loop_unwritten:
  assumes "set (st_data (ss_stack (tr_sstable st))) \<subseteq> {None}"
  shows "\<exists>e. tree_read_loop c st = Some (Inl e)"
proof -
  from stack_top_unwritten [OF assms] obtain e where "stack_top (ss_stack (tr_sstable st)) = Inl e" ..
  then have "read_step c st = Inl e" by (simp add: read_step_def move_down_to_children_def Let_def)
  then show ?thesis by (subst tree_read_loop.simps) simp
qed

lemma tree_read_quiet:
  assumes "get_sstable l i st = Inr s" "sstable_quiet s"
  shows "tree_read c spurious (tree_read_loop c) l i st \<noteq> Some (Inr st')"
proof
  assume "tree_read c spurious (tree_read_loop c) l i st = Some (Inr st')"
  then obtain rs where "tree_read_loop c \<lparr>tr_sstable = s, tr_mem = wk_mem st, tr_store = wk_store st,
      tr_pages = wk_pages st, tr_reads = wk_reads st\<rparr> = Some (Inr rs)"
    using assms(1) by (auto simp: tree_read_def lbind_eq_Inr)
  moreover have "\<exists>e. tree_read_loop c \<lparr>tr_sstable = s, tr_mem = wk_mem st, tr_store = wk_store st,
      tr_pages = wk_pages st, tr_reads = wk_reads st\<rparr> = Some (Inl e)"
    using assms(2) by (intro tree_read_loop_unwritten) (simp add: sstable_quiet_def)
  ultimately show False by auto
qed

section \<open>Workers at rest\<close>

text \<open>What a worker's turn leaves alone while the levels rest.\<close>

definition worker_same :: "worker_state \<Rightarrow> worker_state \<Rightarrow> bool" where
  "worker_same st st' \<longleftrightarrow> wk_mem st' = wk_mem st \<and> wk_store st' = wk_store st \<and> wk_reads st' = wk_reads st \<and>
     wk_writes st' = wk_writes st \<and> wk_sent st' = wk_sent st"

lemma worker_same_trans [trans]: "worker_same st st' \<Longrightarrow> worker_same st' st'' \<Longrightarrow> worker_same st st''"
  by (simp add: worker_same_def)

lemma put_sstable_resting:
  assumes "put_sstable l i s st = Inr st'" "resting c (wk_levels st)" "sstable_quiet s" "sstable_shape c s"
  shows "resting c (wk_levels st') \<and> worker_same st st'"
  using assms resting_put by (auto simp: put_sstable_def rbind_eq_Inr worker_same_def)

lemma io_completed_resting:
  assumes "io_completed c spurious n cqes st = Some (Inr st')" "resting c (wk_levels st)"
  shows "resting c (wk_levels st') \<and> worker_same st st'"
proof -
  obtain l i where pos: "sstable_position c n = (l, i)" by fastforce
  from assms(1) obtain s where s: "get_sstable l i st = Inr s" by (auto simp: io_completed_def pos lbind_eq_Inr)
  then have q: "sstable_quiet s" "sstable_shape c s" using resting_at [OF assms(2)] by (auto simp: get_sstable_def)
  show ?thesis
  proof (cases "cqes = []")
    case True
    then obtain st1 where st1: "put_sstable l i (s\<lparr>ss_is_flushed_to := True\<rparr>) st = Inr st1"
        "st' = st1\<lparr>wk_is_practically_full := (l = NUM_SSTABLE_LEVELS c - 1)\<rparr>"
      using assms(1) s by (auto simp: io_completed_def pos rbind_eq_Inr)
    have "resting c (wk_levels st1) \<and> worker_same st st1"
      using st1(1) assms(2) by (rule put_sstable_resting) (use q in \<open>simp_all add: sstable_quiet_def sstable_shape_def\<close>)
    then show ?thesis by (simp add: st1(2) worker_same_def)
  next
    case False
    then obtain h st1 where st1: "put_sstable l i (s\<lparr>ss_cache_helper := h\<rparr>) st = Inr st1"
        "tree_read c spurious (tree_read_loop c) l i st1 = Some (Inr st')"
      using assms(1) s by (auto simp: io_completed_def pos lbind_eq_Inr rbind_eq_Inr)
    have "get_sstable l i st1 = Inr (s\<lparr>ss_cache_helper := h\<rparr>)"
      using put_sstable_ok [OF s, of "s\<lparr>ss_cache_helper := h\<rparr>"] st1(1) by auto
    then show ?thesis using tree_read_quiet st1(2) q(1) by (auto simp: sstable_quiet_def)
  qed
qed

lemma give_from_stock_quiet:
  "give_from_stock n s prev = Inr (s', prev') \<Longrightarrow> sstable_quiet s \<Longrightarrow> sstable_shape c s \<Longrightarrow> sstable_quiet s' \<and> sstable_shape c s'"
proof (induction n arbitrary: s prev)
  case (Suc n)
  let ?s = "s\<lparr>ss_insert_buffers_from := ss_insert_buffers_from s - 1\<rparr>"
  from Suc.prems(1) obtain prev1 where "give_from_stock n ?s prev1 = Inr (s', prev')" by (auto simp: Let_def rbind_eq_Inr)
  moreover have "sstable_quiet ?s" "sstable_shape c ?s" using Suc.prems(2,3) by (simp_all add: sstable_quiet_def sstable_shape_def)
  ultimately show ?case by (rule Suc.IH)
qed simp

lemma worker_idle_quiet:
  assumes "worker_idle c spurious l s q prev = Inr (s', q', prev')" "sstable_quiet s" "sstable_shape c s"
  shows "sstable_quiet s' \<and> sstable_shape c s'"
proof -
  have give: "sstable_quiet t' \<and> sstable_shape c t'" if "give_stock_up c t r prev = Inr (t', r', prev')" "sstable_quiet t" "sstable_shape c t" for t r t' r'
    using that give_from_stock_quiet [of _ t prev _ _ c]
    by (fastforce simp: give_stock_up_def Let_def rbind_eq_Inr sstable_quiet_def sstable_shape_def split: if_splits)
  have w: "sstable_quiet (s\<lparr>ss_already_waited := b\<rparr>)" "sstable_shape c (s\<lparr>ss_already_waited := b\<rparr>)" for b
    using assms(2,3) by (simp_all add: sstable_quiet_def sstable_shape_def)
  show ?thesis using assms w give
    by (auto simp: worker_idle_def Let_def rbind_eq_Inr split: if_splits prod.splits)
qed

lemma visit_idle_resting:
  assumes "visit_idle c spurious l i s st = Inr st'" "resting c (wk_levels st)" "sstable_quiet s" "sstable_shape c s"
  shows "resting c (wk_levels st') \<and> worker_same st st'"
proof -
  from assms(1) obtain q prev s' q' prev' st1 li1 qs lis where idle: "worker_idle c spurious l s q prev = Inr (s', q', prev')"
    and st1: "put_sstable l i s' st = Inr st1" "rnth (wk_levels st1) l = Inr li1" "rupd (li_buffer_queues li1) i q' = Inr qs"
      "rupd (wk_levels st1) l (li1\<lparr>li_buffer_queues := qs\<rparr>) = Inr lis"
    and st': "(if l = 0 then Inr (st1\<lparr>wk_levels := lis\<rparr>)
      else rbind (rnth lis (l - 1)) (\<lambda>above.
             rbind (rupd (li_buffer_queues above) i prev') (\<lambda>qs'.
               rbind (rupd lis (l - 1) (above\<lparr>li_buffer_queues := qs'\<rparr>)) (\<lambda>lis'. Inr (st1\<lparr>wk_levels := lis'\<rparr>))))) = Inr st'"
    unfolding visit_idle_def rbind_eq_Inr by (auto simp: rbind_eq_Inr split del: if_split)
  have put: "resting c (wk_levels st1) \<and> worker_same st st1"
    using st1(1) assms(2) by (rule put_sstable_resting) (use worker_idle_quiet [OF idle assms(3,4)] in simp_all)
  then have lis: "resting c lis" using resting_buffer_queues [OF _ st1(2-4)] by blast
  have "\<exists>lis'. resting c lis' \<and> st' = st1\<lparr>wk_levels := lis'\<rparr>"
    using st' lis resting_buffer_queues [OF lis] by (fastforce simp: rbind_eq_Inr split: if_splits)
  then show ?thesis using put by (auto simp: worker_same_def)
qed

lemma visit_sstable_resting:
  assumes "visit_sstable c spurious n st = Some (Inr st')" "resting c (wk_levels st)"
  shows "resting c (wk_levels st') \<and> worker_same st st'"
proof -
  obtain l i where pos: "sstable_position c n = (l, i)" by fastforce
  from assms(1) obtain s where s: "get_sstable l i st = Inr s" by (auto simp: visit_sstable_def pos lbind_eq_Inr)
  then have q: "sstable_quiet s" "sstable_shape c s" using resting_at [OF assms(2)] by (auto simp: get_sstable_def)
  show ?thesis
  proof (cases "ss_waiting_on_io s")
    case True
    then show ?thesis using assms s by (simp add: visit_sstable_def pos worker_same_def)
  next
    case False
    let ?wq = "ss_req_batch_wq s"
    have front: "wq_front ?wq = 0" using q(1) by (simp add: sstable_quiet_def)
    have single: "wq_is_single_thread ?wq"
      using assms(1) False front s by (auto simp: visit_sstable_def pos Let_def wq_pop_front_empty split: if_splits)
    let ?s1 = "s\<lparr>ss_req_batch := 0\<rparr>"
    from single obtain st1 where st1: "put_sstable l i ?s1 st = Inr st1"
        "visit_idle c (spurious 0 0) l i ?s1 st1 = Inr st'"
      using assms(1) False front s by (auto simp: visit_sstable_def pos Let_def wq_pop_front_empty lbind_eq_Inr rbind_eq_Inr)
    have q1: "sstable_quiet ?s1" "sstable_shape c ?s1" using q by (simp_all add: sstable_quiet_def sstable_shape_def)
    from put_sstable_resting [OF st1(1) assms(2) q1] visit_idle_resting [OF st1(2) _ q1] show ?thesis
      by (auto intro: worker_same_trans)
  qed
qed

section \<open>Reachable states\<close>

text \<open>The threads see the same memory.\<close>

definition views_agree :: "system \<Rightarrow> bool" where
  "views_agree sy \<longleftrightarrow>
     nw_mem (sy_network sy) = mn_mem (sy_main sy) \<and> nw_store (sy_network sy) = mn_store (sy_main sy) \<and>
     wk_mem (sy_worker sy) = mn_mem (sy_main sy) \<and> wk_store (sy_worker sy) = mn_store (sy_main sy) \<and>
     wk_levels (sy_worker sy) = mn_levels (sy_main sy) \<and>
     wk_is_practically_full (sy_worker sy) = mn_is_practically_full (sy_main sy)"

text \<open>
  The invariant: \<open>n\<close> connections and \<open>m\<close> bytes of socket buffers. Its last part is what is left of the
  SSTables' work.
\<close>

definition system_ok :: "config \<Rightarrow> nat \<Rightarrow> nat \<Rightarrow> system \<Rightarrow> bool" where
  "system_ok c n m sy \<longleftrightarrow> views_agree sy \<and> network_shape c n m (sy_network sy) \<and> main_shape c m (sy_main sy) \<and>
     resting c (wk_levels (sy_worker sy))"

definition disk_untouched :: "system \<Rightarrow> system \<Rightarrow> bool" where
  "disk_untouched sy sy' \<longleftrightarrow> wk_reads (sy_worker sy') = wk_reads (sy_worker sy) \<and>
     wk_writes (sy_worker sy') = wk_writes (sy_worker sy) \<and> wk_sent (sy_worker sy') = wk_sent (sy_worker sy)"

lemmas system_defs = system_ok_def views_agree_def disk_untouched_def network_shape_def main_shape_def
  share_memory_def share_levels_def

lemma worker_turn_ok:
  assumes "resting c (wk_levels w) \<and> worker_same (sy_worker sy) w" "system_ok c n m sy"
  shows "system_ok c n m (after_worker w sy) \<and> disk_untouched sy (after_worker w sy)"
  using assms by (simp add: after_worker_def system_defs worker_same_def)

lemma system_step_ok:
  assumes "system_step c sy sy'" "0 < LEVEL_FACTOR c" "system_ok c n m sy"
  shows "system_ok c n m sy' \<and> disk_untouched sy sy'"
  using assms(1)
proof cases
  case (network r flag_more u)
  then obtain nst where nst: "handle_cqe c r flag_more u (sy_network sy) = Inr nst"
      "sy' = share_memory (nw_mem nst) (nw_store nst) (sy\<lparr>sy_network := nst\<rparr>)"
    by (auto simp: network_turn_def rbind_eq_Inr)
  have "network_shape c n m nst" using nst(1) by (rule handle_cqe_shape) (use assms(3) in \<open>simp add: system_ok_def\<close>)
  then show ?thesis using assms(3) by (auto simp: nst(2) system_defs)
next
  case wait
  have "network_shape c n m (get_sqe (sy_network sy))" using assms(3) by (simp add: system_ok_def)
  moreover have "nw_mem (get_sqe (sy_network sy)) = nw_mem (sy_network sy)" "nw_store (get_sqe (sy_network sy)) = nw_store (sy_network sy)"
    by (simp_all add: get_sqe_def)
  ultimately show ?thesis using assms(3)
    unfolding wait network_wait_def system_ok_def views_agree_def disk_untouched_def by simp metis
next
  case (main spurious a)
  then obtain mst where mst: "main_round c spurious a (sy_main sy) = Some (Inr mst)"
      "sy' = share_memory (mn_mem mst) (mn_store mst) (share_levels (mn_levels mst) (mn_is_practically_full mst) (sy\<lparr>sy_main := mst\<rparr>))"
    by (auto simp: main_turn_def lbind_eq_Inr)
  have "main_shape c m mst" using assms(2) mst(1) by (rule main_round_shape) (use assms(3) in \<open>simp add: system_ok_def\<close>)
  moreover have "mn_levels mst = mn_levels (sy_main sy)" using assms(2) mst(1) by (rule main_round_levels)
  ultimately show ?thesis using assms(3) by (auto simp: mst(2) system_defs)
next
  case (visit spurious k)
  then show ?thesis using worker_turn_ok [OF _ assms(3)] visit_sstable_resting assms(3)
    by (fastforce simp: visit_turn_def lbind_eq_Inr system_ok_def)
next
  case (io spurious k cqes)
  then show ?thesis using worker_turn_ok [OF _ assms(3)] io_completed_resting assms(3)
    by (fastforce simp: io_turn_def lbind_eq_Inr system_ok_def)
qed

lemma system_reachable_ok:
  assumes "(system_step c)\<^sup>*\<^sup>* sy sy'" "0 < LEVEL_FACTOR c" "system_ok c n m sy"
  shows "system_ok c n m sy' \<and> disk_untouched sy sy'"
  using assms(1)
proof (induction rule: rtranclp_induct)
  case base
  then show ?case using assms(3) by (simp add: disk_untouched_def)
next
  case (step sy1 sy2)
  then show ?case using system_step_ok [OF step(2) assms(2)] by (auto simp: disk_untouched_def)
qed


text \<open>Nothing ever gets to the SSTables.\<close>

lemma nothing_reaches_the_sstables:
  assumes "system_ok c n m sy" "0 < LEVEL_FACTOR c" "(system_step c)\<^sup>*\<^sup>* sy sy'"
  shows "(\<forall>l i s. sstable_at l i (mn_levels (sy_main sy')) = Inr s \<longrightarrow> wq_contents (ss_req_batch_wq s) = []) \<and>
    wk_reads (sy_worker sy') = wk_reads (sy_worker sy) \<and> wk_writes (sy_worker sy') = wk_writes (sy_worker sy) \<and>
    wk_sent (sy_worker sy') = wk_sent (sy_worker sy)"
proof -
  have ok: "system_ok c n m sy'" "disk_untouched sy sy'" using system_reachable_ok [OF assms(3,2,1)] by simp_all
  have "wq_contents (ss_req_batch_wq s) = []" if "sstable_at l i (mn_levels (sy_main sy')) = Inr s" for l i s
  proof -
    have "wq_front (ss_req_batch_wq s) = 0"
      using ok(1) that resting_at(1) by (fastforce simp: system_ok_def views_agree_def sstable_quiet_def)
    then show ?thesis by (cases "wq_alloc (ss_req_batch_wq s)") (simp_all add: wq_contents_def wq_nodes_def)
  qed
  then show ?thesis using ok(2) by (auto simp: disk_untouched_def)
qed

subsection \<open>A database after start-up\<close>

definition quiet_levels :: "level_info list" where
  "quiet_levels = replicate 50 (shaped_level\<lparr>li_sstable_infos :=
     replicate 10 (new_sstable_info cmake_config (new_wait_queue 0 True) (\<lambda>_. 0) 0)\<rparr>)"

definition started_system :: system where
  "started_system =
     \<lparr>sy_network = \<lparr>nw_mem = replicate 64 0, nw_connection_pool = new_connection_pool 4 0,
        nw_store = [Some (new_request_batch READ)], nw_batch = 1, nw_ring = [Some (Prep_multishot_accept Accept_batch), None], nw_sqe = 1\<rparr>,
      sy_main = \<lparr>mn_mem = replicate 64 0, mn_memtables = replicate 10 (new_memtable cmake_config),
        mn_sparse_index = new_sparse_index cmake_config, mn_levels = quiet_levels, mn_store = [Some (new_request_batch READ)],
        mn_read_batch = 0, mn_compaction_batch = 0, mn_is_practically_full = False, mn_sent = []\<rparr>,
      sy_worker = \<lparr>wk_levels = quiet_levels, wk_mem = replicate 64 0, wk_store = [Some (new_request_batch READ)],
        wk_pages = (\<lambda>_. []), wk_reads = [], wk_writes = [], wk_sent = [], wk_is_practically_full = False\<rparr>\<rparr>"

lemma quiet_levels_resting: "resting cmake_config quiet_levels"
proof -
  let ?s = "new_sstable_info cmake_config (new_wait_queue 0 True) (\<lambda>_. 0) 0"
  have "level_shape cmake_config shaped_level" using shaped_levels by (simp add: database_shape_def)
  moreover have "sstable_shape cmake_config ?s" "sstable_quiet ?s"
    by (auto simp: sstable_shape_def sstable_quiet_def new_sstable_info_def new_wait_queue_def new_stack_def)
  ultimately show ?thesis
    by (simp add: resting_def quiet_levels_def database_shape_def level_shape_def level_ok_def NUM_SSTABLE_LEVELS_def NUM_SSTABLES_def)
qed

lemma started_system_ok: "system_ok cmake_config 4 64 started_system"
  using quiet_levels_resting
  by (auto simp: system_ok_def views_agree_def started_system_def network_shape_def main_shape_def slots_shape_def
      new_connection_pool_def store_shape_def new_request_batch_def memtable_shape_def new_memtable_def si_invar_def
      new_sparse_index_def)

lemma started_system_waits: "(system_step cmake_config)\<^sup>*\<^sup>* started_system (network_wait started_system)"
  by (intro r_into_rtranclp wait)


end
