(* ===== verification/Network_Start.thy ===== *)
theory Network_Start
  imports Worker Shapes
begin

text \<open>
  What \<open>LSMTree::network_thread_routine\<close> in \<^verbatim>\<open>lsm_tree.hpp\<close> does before its event loop: it puts the
  server socket into the table \<open>fixed_file_fds\<close>, registers an entry of that table as direct
  descriptor 0 of its ring, prepares the request that accepts connections, and sends the
  descriptor of its ring to the workers. And what becomes of requests when the kernel completes
  nothing but what has been submitted.
\<close>

section \<open>The table of descriptors\<close>

text \<open>\<open>new int[...]\<close>: cells are \<open>None\<close> until they are written.\<close>

definition new_fixed_file_fds :: "config \<Rightarrow> uint option list" where
  "new_fixed_file_fds c =
     replicate (NUM_SSTABLE_WORKER_THREADS c + NUM_FILE_FDS c + MAX_SIMULTANEOUS_CONNECTIONS c) None"

record network_start =
  ns_fixed_file_fds :: "uint option list"
  ns_server_file :: "uint option"
  ns_network :: network_state

text \<open>The entry stored and the entry registered; the latter is \<open>None\<close> when it has never been written.\<close>

definition register_server :: "config \<Rightarrow> uint \<Rightarrow> uint option list \<Rightarrow> (uint option list \<times> uint option) res" where
  "register_server c server_sock_fd fds =
     rbind (rupd fds (NUM_FILE_FDS c - 1) (Some server_sock_fd)) (\<lambda>fds'.
       rbind (rnth fds' (NUM_SSTABLE_WORKER_THREADS c + NUM_FILE_FDS c - 1)) (\<lambda>f. Inr (fds', f)))"

text \<open>One turn of the loop that tells the workers the descriptor of the network thread's ring.\<close>

definition tell_worker :: "uint \<Rightarrow> uint option list \<Rightarrow> nat \<Rightarrow> network_state \<Rightarrow> network_state res" where
  "tell_worker ring_fd fds i st =
     rbind (cell fds i) (\<lambda>fd. prep (Prep_msg_ring fd (scast ring_fd)) (get_sqe st))"

text \<open>\<open>mem\<close> is the memory of the socket buffers, which start at \<open>socket_buffers\<close>; the shared batches are \<open>bs\<close>.\<close>

definition network_prologue ::
    "config \<Rightarrow> uint \<Rightarrow> uint \<Rightarrow> byte list \<Rightarrow> nat \<Rightarrow> uint option list \<Rightarrow> batch_store \<Rightarrow> network_start res" where
  "network_prologue c ring_fd server_sock_fd mem socket_buffers fds bs =
     rbind (register_server c server_sock_fd fds) (\<lambda>(fds', server_file).
       let (a, bs') = batch_new READ bs;
           st = \<lparr>nw_mem = mem, nw_connection_pool = new_connection_pool (MAX_SIMULTANEOUS_CONNECTIONS c) socket_buffers,
                 nw_store = bs', nw_batch = a, nw_ring = [], nw_sqe = 0\<rparr>
       in rbind (prep (Prep_multishot_accept Accept_batch) (get_sqe st)) (\<lambda>st1.
            rbind (rfold (tell_worker ring_fd fds') [0 ..< NUM_SSTABLE_WORKER_THREADS c] st1) (\<lambda>st2.
              Inr \<lparr>ns_fixed_file_fds = fds', ns_server_file = server_file, ns_network = st2\<rparr>)))"

section \<open>What the prologue does\<close>

lemma tell_workers:
  assumes "\<forall>i < k. cell fds i = Inr (f i)"
  shows "\<exists>s. rfold (tell_worker ring_fd fds) [0 ..< k] st =
    Inr (st\<lparr>nw_ring := nw_ring st @ map (\<lambda>i. Some (Prep_msg_ring (f i) (scast ring_fd))) [0 ..< k], nw_sqe := s\<rparr>) \<and>
    (k = 0 \<longrightarrow> s = nw_sqe st) \<and> (0 < k \<longrightarrow> s = length (nw_ring st) + k - 1)"
  using assms
proof (induction k)
  case 0
  then show ?case by (intro exI [of _ "nw_sqe st"]) simp
next
  case (Suc k)
  then obtain s where s: "rfold (tell_worker ring_fd fds) [0 ..< k] st =
      Inr (st\<lparr>nw_ring := nw_ring st @ map (\<lambda>i. Some (Prep_msg_ring (f i) (scast ring_fd))) [0 ..< k], nw_sqe := s\<rparr>)" by auto
  let ?ring = "nw_ring st @ map (\<lambda>i. Some (Prep_msg_ring (f i) (scast ring_fd))) [0 ..< k]"
  have "cell fds k = Inr (f k)" using Suc.prems by simp
  then have "tell_worker ring_fd fds k (st\<lparr>nw_ring := ?ring, nw_sqe := s\<rparr>) =
      Inr (st\<lparr>nw_ring := ?ring @ [Some (Prep_msg_ring (f k) (scast ring_fd))], nw_sqe := length (nw_ring st) + k\<rparr>)"
    by (simp add: tell_worker_def get_sqe_def prep_def list_update_append)
  then show ?case by (simp add: rfold_append s)
qed

lemma network_prologue_ok:
  assumes "length fds = NUM_SSTABLE_WORKER_THREADS c + NUM_FILE_FDS c + MAX_SIMULTANEOUS_CONNECTIONS c"
    and "0 < NUM_SSTABLE_WORKER_THREADS c" "0 < MAX_SIMULTANEOUS_CONNECTIONS c" "NUM_SSTABLE_WORKER_THREADS c \<le> NUM_SSTABLES c"
    and "\<forall>i < NUM_SSTABLES c. cell fds i = Inr (file i)" "\<forall>i. NUM_SSTABLES c \<le> i \<and> i < length fds \<longrightarrow> fds ! i = None"
    and "store_shape c bs"
  shows "\<exists>ns. network_prologue c ring_fd server_sock_fd mem socket_buffers fds bs = Inr ns \<and>
    network_shape c (MAX_SIMULTANEOUS_CONNECTIONS c) (length mem) (ns_network ns) \<and>
    nw_ring (ns_network ns) = Some (Prep_multishot_accept Accept_batch) #
      map (\<lambda>i. Some (Prep_msg_ring (file i) (scast ring_fd))) [0 ..< NUM_SSTABLE_WORKER_THREADS c] \<and>
    nw_store (ns_network ns) = bs @ [Some (new_request_batch READ)] \<and> nw_batch (ns_network ns) = length bs + 1 \<and>
    ns_fixed_file_fds ns ! NUM_SSTABLES c = Some server_sock_fd \<and> ns_server_file ns = None"
proof -
  let ?w = "NUM_SSTABLE_WORKER_THREADS c" and ?n = "NUM_SSTABLES c"
  let ?fds = "fds[?n := Some server_sock_fd]"
  have n: "NUM_FILE_FDS c = Suc ?n" by (simp add: NUM_FILE_FDS_def)
  have reg: "register_server c server_sock_fd fds = Inr (?fds, None)"
    using assms(1-3,6) by (simp add: register_server_def n)
  have files: "\<forall>i < ?w. cell ?fds i = Inr (file i)"
    using assms(1,4,5) by (auto simp: cell_def rnth_def n)
  let ?st = "\<lparr>nw_mem = mem, nw_connection_pool = new_connection_pool (MAX_SIMULTANEOUS_CONNECTIONS c) socket_buffers,
      nw_store = bs @ [Some (new_request_batch READ)], nw_batch = length bs + 1,
      nw_ring = [Some (Prep_multishot_accept Accept_batch)], nw_sqe = 0\<rparr>"
  from tell_workers [OF files, of ring_fd ?st] assms(2) have
      tell: "rfold (tell_worker ring_fd ?fds) [0 ..< ?w] ?st = Inr (?st\<lparr>nw_ring := nw_ring ?st @
        map (\<lambda>i. Some (Prep_msg_ring (file i) (scast ring_fd))) [0 ..< ?w], nw_sqe := ?w\<rparr>)" by auto
  have "slots_shape (MAX_SIMULTANEOUS_CONNECTIONS c) (new_connection_pool (MAX_SIMULTANEOUS_CONNECTIONS c) socket_buffers)"
    by (auto simp: slots_shape_def new_connection_pool_def)
  moreover have "store_shape c (bs @ [Some (new_request_batch READ)])" using assms(7) by (auto simp: store_shape_def new_request_batch_def)
  ultimately show ?thesis using reg tell assms(1)
    by (simp add: network_prologue_def batch_new_def get_sqe_def prep_def network_shape_def n)
qed

text \<open>
  The prologue, run when the workers have opened their files: the event loop starts with one request
  that accepts connections, no connection and an empty batch, as the threads need it. But the file the
  request accepts from is not the server socket, which is stored in another entry of the table than
  the registered one, and the messages for the workers go to the descriptors of the first
  SSTables' files.
\<close>

lemma network_prologue_result:
  assumes "length fds = NUM_SSTABLE_WORKER_THREADS c + NUM_FILE_FDS c + MAX_SIMULTANEOUS_CONNECTIONS c"
    and "0 < NUM_SSTABLE_WORKER_THREADS c" "0 < MAX_SIMULTANEOUS_CONNECTIONS c" "NUM_SSTABLE_WORKER_THREADS c \<le> NUM_SSTABLES c"
    and "\<forall>i < NUM_SSTABLES c. cell fds i = Inr (file i)" "\<forall>i. NUM_SSTABLES c \<le> i \<and> i < length fds \<longrightarrow> fds ! i = None"
    and "store_shape c bs"
  shows "\<exists>ns. network_prologue c ring_fd server_sock_fd mem socket_buffers fds bs = Inr ns \<and>
    network_shape c (MAX_SIMULTANEOUS_CONNECTIONS c) (length mem) (ns_network ns) \<and>
    nw_ring (ns_network ns) = Some (Prep_multishot_accept Accept_batch) #
      map (\<lambda>i. Some (Prep_msg_ring (file i) (scast ring_fd))) [0 ..< NUM_SSTABLE_WORKER_THREADS c] \<and>
    nw_store (ns_network ns) = bs @ [Some (new_request_batch READ)] \<and> nw_batch (ns_network ns) = length bs + 1 \<and>
    ns_fixed_file_fds ns ! NUM_SSTABLES c = Some server_sock_fd \<and> ns_server_file ns = None"
  using assms by (rule network_prologue_ok)

text \<open>The table with the files of all SSTables opened.\<close>

definition opened_files :: "uint option list" where
  "opened_files = replicate 500 (Some 9) @ replicate 301 None"

lemma opened_files_ok:
  "length opened_files = 801" "\<forall>i < 500. cell opened_files i = Inr 9" "\<forall>i. 500 \<le> i \<and> i < 801 \<longrightarrow> opened_files ! i = None"
  by (auto simp: opened_files_def cell_def nth_append)

lemma network_prologue_result_example:
  "\<exists>ns. network_prologue cmake_config 5 6 [] 0 opened_files [] = Inr ns \<and> ns_server_file ns = None \<and>
     hd (nw_ring (ns_network ns)) = Some (Prep_multishot_accept Accept_batch)"
proof -
  have "NUM_SSTABLES cmake_config = 500" "NUM_FILE_FDS cmake_config = 501" by (simp_all add: NUM_SSTABLES_def NUM_FILE_FDS_def)
  then show ?thesis
    using network_prologue_result [of opened_files cmake_config "\<lambda>_. 9" "[]" 5 6 "[]" 0] opened_files_ok
    by (auto simp: store_shape_def)
qed

section \<open>Requests\<close>

text \<open>The user data with which the kernel reports an entry; messages and closings succeed silently.\<close>

definition reported :: "sqe \<Rightarrow> user_data option" where
  "reported e =
     (case e of
        Prep_recv _ _ _ u \<Rightarrow> Some u
      | Prep_multishot_accept u \<Rightarrow> Some u
      | Prep_send_zc _ _ _ u \<Rightarrow> Some u
      | _ \<Rightarrow> None)"

text \<open>The network thread on its own, with a kernel that reports what was submitted.\<close>

inductive network_step :: "config \<Rightarrow> network_state \<Rightarrow> network_state \<Rightarrow> bool" for c where
  report: "Some e \<in> set (nw_ring st) \<Longrightarrow> reported e = Some u \<Longrightarrow> handle_cqe c cqe_res flag_more u st = Inr st' \<Longrightarrow>
    network_step c st st'"
| next_round: "network_step c st (get_sqe st)"

text \<open>What can be in the ring before any request has been received.\<close>

definition deaf :: "network_state \<Rightarrow> bool" where
  "deaf st \<longleftrightarrow> (\<forall>e. Some e \<in> set (nw_ring st) \<longrightarrow>
     (case e of Prep_recv _ _ _ u \<Rightarrow> u = Not_a_pointer | Prep_multishot_accept u \<Rightarrow> u = Accept_batch
      | Prep_msg_ring _ _ \<Rightarrow> True | _ \<Rightarrow> False))"

lemma prep_deaf:
  assumes "prep e st = Inr st'" "deaf st" "deaf (st\<lparr>nw_ring := [Some e]\<rparr>)"
  shows "deaf st'"
  using assms by (auto simp: prep_def rbind_eq_Inr deaf_def dest!: rupd_set)

lemma get_sqe_deaf [simp]: "deaf (get_sqe st) = deaf st"
  by (auto simp: deaf_def get_sqe_def)

lemma handle_accept_deaf:
  assumes "handle_accept c fd flag_more st = Inr st'" "deaf st"
  shows "deaf st' \<and> nw_store st' = nw_store st \<and> nw_batch st' = nw_batch st \<and> nw_mem st' = nw_mem st"
proof (cases "fd > 0")
  case True
  then obtain pool b l st1 where st1: "prep (Prep_recv fd b l Not_a_pointer) (st\<lparr>nw_connection_pool := pool\<rparr>) = Inr st1"
      "st' = st1 \<or> (\<exists>st2. prep (Prep_multishot_accept Accept_batch) (get_sqe st1) = Inr st2 \<and> st' = st2\<lparr>nw_sqe := nw_sqe st1\<rparr>)"
    using assms(1) by (fastforce simp: handle_accept_def rbind_eq_Inr split: if_splits)
  have "deaf (st\<lparr>nw_connection_pool := pool\<rparr>)" using assms(2) by (simp add: deaf_def)
  then have d1: "deaf st1" by (rule prep_deaf [OF st1(1)]) (simp add: deaf_def)
  have d2: "deaf st2" if "prep (Prep_multishot_accept Accept_batch) (get_sqe st1) = Inr st2" for st2
    by (rule prep_deaf [OF that]) (use d1 in simp, simp add: deaf_def)
  show ?thesis using st1 d1 d2 by (auto simp: prep_def get_sqe_def rbind_eq_Inr deaf_def)
qed (use assms in \<open>simp add: handle_accept_def\<close>)

lemma network_step_deaf:
  assumes "network_step c st st'" "deaf st"
  shows "deaf st' \<and> nw_store st' = nw_store st \<and> nw_batch st' = nw_batch st \<and> nw_mem st' = nw_mem st"
  using assms(1)
proof cases
  case (report e u r flag_more)
  then have "u = Accept_batch \<or> u = Not_a_pointer"
    using assms(2) by (cases e) (auto simp: deaf_def reported_def)
  then show ?thesis using report(3) handle_accept_deaf [OF _ assms(2)] by (auto simp: handle_cqe_def base_req_type_def)
next
  case next_round
  then show ?thesis using assms(2) by (simp add: get_sqe_def deaf_def)
qed


definition listening :: network_state where
  "listening = \<lparr>nw_mem = replicate 64 0, nw_connection_pool = new_connection_pool 4 0,
     nw_store = [Some (new_request_batch READ)], nw_batch = 1,
     nw_ring = [Some (Prep_multishot_accept Accept_batch), None], nw_sqe = 1\<rparr>"


section \<open>Workers wait for the message\<close>

text \<open>A worker that no message reaches waits for ever.\<close>

lemma wait_network_ringfd_silent:
  assumes "\<forall>n. arriving n = []"
  shows "wait_network_ringfd arriving n [] = None"
proof (rule ccontr)
  assume "wait_network_ringfd arriving n [] \<noteq> None"
  then obtain r where ret: "wait_network_ringfd arriving n [] = Some r" by blast
  have "(\<forall>n. arriving n = []) \<and> ([] :: usize list) = [] \<longrightarrow> False"
  proof (rule wait_network_ringfd.raw_induct [where P = "\<lambda>arriving n q r. (\<forall>n. arriving n = []) \<and> q = [] \<longrightarrow> False", OF _ ret], rule impI)
    fix f :: "(nat \<Rightarrow> usize list) \<Rightarrow> nat \<Rightarrow> usize list \<Rightarrow> (uint \<times> usize list) option" and arriving n q r
    assume IH: "\<And>arriving n q r. f arriving n q = Some r \<Longrightarrow> (\<forall>n. arriving n = []) \<and> q = [] \<longrightarrow> False"
      and eq: "(case q @ arriving n of [] \<Rightarrow> f arriving (Suc n) []
        | m # ms \<Rightarrow> if (ucast m :: uint) = -1 then f arriving (Suc n) (m # ms) else Some (ucast m, m # ms)) = Some r"
      and I: "(\<forall>n. arriving n = []) \<and> q = []"
    from eq I have "f arriving (Suc n) [] = Some r" by simp
    with IH I show False by blast
  qed
  with assms show False by blast
qed

end
