(* ===== verification/Program_Start.thy ===== *)
theory Program_Start
  imports RingDB_System Network_Start
begin

text \<open>
  \<open>main\<close> and \<open>LSMTree::initialize\<close>: the levels are marked, the workers initialize their SSTables while
  the main thread waits for the counter \<open>num_read\<close>, then \<open>start_ringdb\<close> allocates its batches and starts
  the network thread. The passes the workers make until the counter is full are an argument, in any
  order, each with what the system answers.
\<close>

section \<open>The start of the threads\<close>

definition workers_start :: "config \<Rightarrow> level_info list \<Rightarrow> (buf \<Rightarrow> byte list) \<Rightarrow> init_worker" where
  "workers_start c lis pages =
     \<lparr>iw_levels = lis, iw_pages = pages, iw_fixed_file_fds = new_fixed_file_fds c, iw_files = [],
      iw_cqs = (\<lambda>_. []), iw_ring = [], iw_num_read = 0, iw_num_initialized_read = 0\<rparr>"

text \<open>The head of \<open>start_ringdb\<close>, and the memtables \<open>initialize\<close> has allocated.\<close>

definition main_start :: "config \<Rightarrow> byte list \<Rightarrow> level_info list \<Rightarrow> batch_store \<Rightarrow> main_state" where
  "main_start c mem lis bs =
     (let (read_batch, bs1) = batch_new READ bs;
          (compaction_batch, bs2) = batch_new COMPACTION bs1
      in \<lparr>mn_mem = mem, mn_memtables = replicate (LEVEL_FACTOR c) (new_memtable c), mn_sparse_index = new_sparse_index c,
          mn_levels = lis, mn_store = bs2, mn_read_batch = read_batch, mn_compaction_batch = compaction_batch,
          mn_is_practically_full = False, mn_sent = []\<rparr>)"

definition system_start ::
    "config \<Rightarrow> uint \<Rightarrow> uint \<Rightarrow> byte list \<Rightarrow> nat \<Rightarrow> init_worker \<Rightarrow> system res" where
  "system_start c ring_fd server_sock_fd mem socket_buffers iw =
     (let m = main_start c mem (iw_levels iw) []
      in rbind (network_prologue c ring_fd server_sock_fd mem socket_buffers (iw_fixed_file_fds iw) (mn_store m)) (\<lambda>ns.
           Inr \<lparr>sy_network = ns_network ns, sy_main = m\<lparr>mn_store := nw_store (ns_network ns)\<rparr>,
                sy_worker = \<lparr>wk_levels = iw_levels iw, wk_mem = mem, wk_store = nw_store (ns_network ns), wk_pages = iw_pages iw,
                  wk_reads = [], wk_writes = [], wk_sent = [], wk_is_practically_full = False\<rparr>\<rparr>))"

type_synonym init_event = "nat \<times> (nat \<Rightarrow> (nat \<times> (usize \<times> int) list) option) \<times> nat"

definition worker_passes :: "config \<Rightarrow> init_event list \<Rightarrow> init_worker \<Rightarrow> init_worker res" where
  "worker_passes c = rfold (\<lambda>(base, arrived, w). init_pass c base arrived w)"

text \<open>\<open>while (num_read < NUM_SSTABLES)\<close>: the main thread goes on only when the counter is full.\<close>

definition initialize ::
    "config \<Rightarrow> (buf \<Rightarrow> byte list) \<Rightarrow> init_event list \<Rightarrow> uint \<Rightarrow> uint \<Rightarrow> byte list \<Rightarrow> nat \<Rightarrow> level_info list \<Rightarrow> system res option" where
  "initialize c pages passes ring_fd server_sock_fd mem socket_buffers lis =
     lbind (Some (rbind (init_levels c lis) (\<lambda>lis'. worker_passes c passes (workers_start c lis' pages)))) (\<lambda>iw.
       if iw_num_read iw < NUM_SSTABLES c then None
       else Some (system_start c ring_fd server_sock_fd mem socket_buffers iw))"

section \<open>The program\<close>

text \<open>What the members of a new SSTable and its buffer queue hold that have no initialiser.\<close>

record uninitialised =
  un_back :: nat
  un_bytes :: "nat \<Rightarrow> byte"
  un_req_batch :: nat
  un_slots :: "nat \<Rightarrow> buf"
  un_wq_single :: bool
  un_bq_single :: bool

text \<open>The template argument of \<open>Filter\<close>.\<close>

definition filter_elements :: "config \<Rightarrow> nat" where
  "filter_elements c = MEMTABLE_SIZE c div (KEY_LENGTH c + VALUE_LENGTH c)"

text \<open>\<open>new LevelInfo\<close> with filters of \<open>k\<close> hashes and \<open>m\<close> bits, the values of the compile-time logarithms.\<close>

definition new_level_info :: "config \<Rightarrow> uint \<Rightarrow> usize \<Rightarrow> (nat \<Rightarrow> uninitialised) \<Rightarrow> level_info" where
  "new_level_info c k m g =
     \<lparr>li_atomic_guard = 1, li_is_single_thread = None,
      li_filters = replicate (LEVEL_FACTOR c) (new_bloom_filter c (of_nat (filter_elements c)) k m),
      li_sparse_index = new_sparse_index c,
      li_buffer_queues = map (\<lambda>j. new_buffer_queue c (map (un_slots (g j)) [0 ..< max_buffer_set_size c]) (un_bq_single (g j)))
        [0 ..< LEVEL_FACTOR c],
      li_sstable_infos = map (\<lambda>j. new_sstable_info c (new_wait_queue (un_back (g j)) (un_wq_single (g j))) (un_bytes (g j)) (un_req_batch (g j)))
        [0 ..< LEVEL_FACTOR c]\<rparr>"

definition new_levels :: "config \<Rightarrow> uint \<Rightarrow> usize \<Rightarrow> (nat \<Rightarrow> nat \<Rightarrow> uninitialised) \<Rightarrow> level_info list" where
  "new_levels c k m g = map (\<lambda>level. new_level_info c k m (g level)) [0 ..< NUM_SSTABLE_LEVELS c]"

text \<open>\<open>main\<close>: the classes with their template arguments, and the call of \<open>initialize\<close>.\<close>

definition ringdb ::
    "config \<Rightarrow> uint \<Rightarrow> usize \<Rightarrow> (nat \<Rightarrow> nat \<Rightarrow> uninitialised) \<Rightarrow> (buf \<Rightarrow> byte list) \<Rightarrow> init_event list \<Rightarrow> uint \<Rightarrow> uint \<Rightarrow>
     byte list \<Rightarrow> nat \<Rightarrow> system res option" where
  "ringdb c k m g pages passes ring_fd server_sock_fd mem socket_buffers =
     initialize c pages passes ring_fd server_sock_fd mem socket_buffers (new_levels c k m g)"

section \<open>Start-up leaves the levels at rest\<close>

lemma resting_update:
  assumes "resting c lis" "rupd lis l li = Inr lis'" "level_shape c li" "\<forall>s \<in> set (li_sstable_infos li). sstable_quiet s"
  shows "resting c lis'"
  using assms database_shape_update [OF _ assms(3,2)] rupd_set [OF assms(2)] by (auto simp: resting_def)

lemma resting_level: "resting c lis \<Longrightarrow> rnth lis l = Inr li \<Longrightarrow> level_shape c li \<and> (\<forall>s \<in> set (li_sstable_infos li). sstable_quiet s)"
  using database_shape_level [of c lis l li] by (auto simp: resting_def dest: rnth_set)

text \<open>What a level is like when it is at rest.\<close>

definition level_quiet :: "config \<Rightarrow> level_info \<Rightarrow> bool" where
  "level_quiet c li \<longleftrightarrow> level_shape c li \<and> (\<forall>s \<in> set (li_sstable_infos li). sstable_quiet s)"

lemma set_wq_single_quiet:
  assumes "set_wq_single j v li = Inr li'" "level_quiet c li"
  shows "level_quiet c li'"
proof -
  from assms(1) obtain s ss where s: "rnth (li_sstable_infos li) j = Inr s"
      "rupd (li_sstable_infos li) j (s\<lparr>ss_req_batch_wq := (ss_req_batch_wq s)\<lparr>wq_is_single_thread := v\<rparr>\<rparr>) = Inr ss"
      "li' = li\<lparr>li_sstable_infos := ss\<rparr>" by (auto simp: set_wq_single_def rbind_eq_Inr)
  have "sstable_shape c s" "sstable_quiet s" using assms(2) rnth_set [OF s(1)] by (auto simp: level_quiet_def level_shape_def)
  then have "sstable_shape c (s\<lparr>ss_req_batch_wq := (ss_req_batch_wq s)\<lparr>wq_is_single_thread := v\<rparr>\<rparr>)"
      "sstable_quiet (s\<lparr>ss_req_batch_wq := (ss_req_batch_wq s)\<lparr>wq_is_single_thread := v\<rparr>\<rparr>)"
    by (simp_all add: sstable_shape_def sstable_quiet_def)
  then show ?thesis using assms(2) s(3) rupd_set [OF s(2)] rupd_length [OF s(2)]
    by (auto simp: level_quiet_def level_shape_def level_ok_def)
qed

lemma set_is_single_thread_quiet:
  assumes "set_is_single_thread c b li = Inr li'" "level_quiet c li"
  shows "level_quiet c li'"
proof -
  from assms(1) obtain qs where qs: "rfold (\<lambda>i qs. rbind (rnth qs i) (\<lambda>q. rupd qs i (q\<lparr>bq_is_single_thread := b\<rparr>)))
      [0 ..< LEVEL_FACTOR c] (li_buffer_queues li) = Inr qs" "li' = li\<lparr>li_buffer_queues := qs\<rparr>"
    by (auto simp: set_is_single_thread_def rbind_eq_Inr)
  have "length qs = length (li_buffer_queues li)"
    using qs(1) by (rule rfold_invariant) (auto simp: rbind_eq_Inr dest: rupd_length)
  then show ?thesis using assms(2) qs(2) by (simp add: level_quiet_def level_shape_def level_ok_def)
qed

lemma rfold_wq_single_quiet:
  "rfold (\<lambda>j. set_wq_single j v) js li = Inr li' \<Longrightarrow> level_quiet c li \<Longrightarrow> level_quiet c li'"
  by (erule rfold_invariant) (auto intro: set_wq_single_quiet)

lemma init_level_quiet:
  assumes "init_outer_level c li = Inr li' \<or> init_inner_level c l li = Inr li'" "level_quiet c li"
  shows "level_quiet c li'"
  using assms
  by (auto simp: init_outer_level_def init_inner_level_def Let_def rbind_eq_Inr split: if_splits
      dest!: set_is_single_thread_quiet rfold_wq_single_quiet set_wq_single_quiet)

lemma with_level_resting:
  assumes "with_level l f lis = Inr lis'" "resting c lis" "\<And>li li'. f li = Inr li' \<Longrightarrow> level_quiet c li \<Longrightarrow> level_quiet c li'"
  shows "resting c lis'"
proof -
  from assms(1) obtain li li' where li: "rnth lis l = Inr li" "f li = Inr li'" "rupd lis l li' = Inr lis'"
    by (auto simp: with_level_def rbind_eq_Inr)
  have "level_quiet c li'" using li(2) by (rule assms(3)) (use resting_level [OF assms(2) li(1)] in \<open>simp add: level_quiet_def\<close>)
  then show ?thesis using resting_update [OF assms(2) li(3)] by (simp add: level_quiet_def)
qed

lemma init_levels_resting:
  assumes "init_levels c lis = Inr lis'" "resting c lis"
  shows "resting c lis'"
proof -
  have outer: "resting c ms'" if "with_level l (init_outer_level c) ms = Inr ms'" "resting c ms" for l ms ms'
    using that by (rule with_level_resting) (use init_level_quiet in blast)
  from assms(1) obtain l1 l2 where l: "with_level 0 (init_outer_level c) lis = Inr l1"
      "rfold (\<lambda>level. with_level level (init_inner_level c level)) [1 ..< NUM_SSTABLE_LEVELS c - 1] l1 = Inr l2"
      "with_level (NUM_SSTABLE_LEVELS c - 1) (init_outer_level c) l2 = Inr lis'"
    by (auto simp: init_levels_def rbind_eq_Inr)
  have "resting c l1" using l(1) assms(2) by (rule outer)
  with l(2) have "resting c l2"
  proof (rule rfold_invariant)
    fix level ms ms' assume "with_level level (init_inner_level c level) ms = Inr ms'" "resting c ms"
    then show "resting c ms'" by (rule with_level_resting) (use init_level_quiet in blast)
  qed
  with l(3) show ?thesis by (rule outer)
qed

lemma init_sstable_quiet:
  assumes "init_sstable c base n s = Inr s'" "sstable_quiet s"
  shows "sstable_quiet s'"
proof -
  have bufs: "sstable_quiet t" if "rfold (init_page_cache_buffer c base n) ms s1 = Inr t" "sstable_quiet s1" for ms s1 t
    using that by (rule rfold_invariant) (auto simp: init_page_cache_buffer_def rbind_eq_Inr sstable_quiet_def)
  show ?thesis
  proof (cases "ss_desired_sstable_offset s = -2")
    case True
    then obtain p where "rfold (init_page_cache_buffer c base n) [0 ..< max_sstable_height c]
           (s\<lparr>ss_min_key := replicate (KEY_LENGTH c) 255, ss_max_key := replicate (KEY_LENGTH c) 0,
              ss_req_batch_wq := (ss_req_batch_wq s)\<lparr>wq_atomic_consumer_guard := 47\<rparr>,
              ss_file_path := p, ss_desired_sstable_offset := 0,
              ss_insert_buffers_from := of_nat (max_sstable_height c)\<rparr>) = Inr s'"
      using assms(1) by (auto simp: init_sstable_def Let_def rbind_eq_Inr split: prod.splits)
    then show ?thesis by (rule bufs) (use assms(2) in \<open>simp add: sstable_quiet_def\<close>)
  qed (use assms in \<open>simp add: init_sstable_def\<close>)
qed

lemma init_chunk_quiet:
  assumes "init_chunk c i n t j r st = Inr st'" "sstable_quiet (in_sstable st)"
  shows "sstable_quiet (in_sstable st')"
proof -
  from assms(1) obtain st1 where st1: "init_chunk_entries c i j r st = Inr st1" "init_chunk_end c n t j r st1 = Inr st'"
    by (auto simp: init_chunk_def rbind_eq_Inr)
  have "ss_req_batch_wq (in_sstable st1) = ss_req_batch_wq (in_sstable st) \<and> ss_stack (in_sstable st1) = ss_stack (in_sstable st)"
    using st1(1) by (auto simp: init_chunk_entries_def Let_def rbind_eq_Inr split: if_splits)
  moreover have "ss_req_batch_wq (in_sstable st') = ss_req_batch_wq (in_sstable st1) \<and> ss_stack (in_sstable st') = ss_stack (in_sstable st1)"
    using st1(2) by (auto simp: init_chunk_end_def Let_def rbind_eq_Inr split: if_splits)
  ultimately show ?thesis using assms(2) by (simp add: sstable_quiet_def)
qed

lemma init_reads_resting:
  assumes "init_reads c i n r0 r1 st = Inr st'" "resting c (iw_levels st)"
  shows "resting c (iw_levels st')"
proof -
  have shape: "database_shape c (iw_levels st')" using assms init_reads_shape by (auto simp: resting_def)
  obtain level k where pos: "sstable_position c n = (level, k)" by fastforce
  from assms(1) obtain li s flt r lis where
      li: "rnth (iw_levels st) level = Inr li" "rnth (li_sstable_infos li) k = Inr s"
      and r: "init_completion c i n k r0 r1 \<lparr>in_sstable = s, in_pages = iw_pages st, in_filter = flt,
          in_sparse_index = li_sparse_index li, in_num_read = 0, in_ring = iw_ring st\<rparr> = Inr r"
      and lis: "rupd (iw_levels st) level (li\<lparr>li_sstable_infos := (li_sstable_infos li)[k := in_sstable r],
          li_filters := (li_filters li)[k := in_filter r], li_sparse_index := in_sparse_index r\<rparr>) = Inr lis"
      "iw_levels st' = lis"
    by (auto simp: init_reads_def pos rbind_eq_Inr)
  have quiet: "\<forall>s \<in> set (li_sstable_infos li). sstable_quiet s" using resting_level [OF assms(2) li(1)] by simp
  then have "sstable_quiet s" using rnth_set [OF li(2)] by blast
  then have "sstable_quiet (in_sstable r)" using r by (fastforce simp: init_completion_def rbind_eq_Inr dest!: init_chunk_quiet)
  then have "\<forall>s \<in> set ((li_sstable_infos li)[k := in_sstable r]). sstable_quiet s"
    using quiet by (auto dest!: set_update_subset_insert [THEN subsetD])
  then show ?thesis using shape assms(2) rupd_set [OF lis(1)] lis(2) by (auto simp: resting_def)
qed

lemma init_opened_resting:
  assumes "init_opened c n u st = Inr st'" "resting c (iw_levels st)"
  shows "resting c (iw_levels st')"
proof -
  obtain level k where pos: "sstable_position c n = (level, k)" by fastforce
  from assms(1) obtain s where s: "sstable_at level k (iw_levels st) = Inr s"
      "sstable_put level k (s\<lparr>ss_desired_sstable_offset := 0\<rparr>) (iw_levels st) = Inr (iw_levels st')"
    by (auto simp: init_opened_def pos Let_def rbind_eq_Inr)
  from s(2) assms(2) show ?thesis
    by (rule resting_put) (use resting_at [OF assms(2) s(1)] in \<open>simp_all add: sstable_shape_def sstable_quiet_def\<close>)
qed

lemma init_visit_resting:
  assumes "init_visit c base i st = Inr st'" "resting c (iw_levels st)"
  shows "resting c (iw_levels st')"
proof -
  obtain level k where pos: "sstable_position c i = (level, k)" by fastforce
  from assms(1) obtain s where s: "sstable_at level k (iw_levels st) = Inr s"
      "st' = st \<or> (\<exists>s'. init_sstable c base i s = Inr s' \<and> sstable_put level k s' (iw_levels st) = Inr (iw_levels st'))"
    by (auto simp: init_visit_def pos rbind_eq_Inr split: if_splits)
  from resting_at [OF assms(2) s(1)] s(2) assms(2) show ?thesis
    by (auto dest: init_sstable_shape init_sstable_quiet resting_put)
qed

lemma init_pass_resting:
  assumes "init_pass c base arrived w st = Inr st'" "resting c (iw_levels st)"
  shows "resting c (iw_levels st')"
proof -
  have completed: "resting c (iw_levels t')" if "init_completed c i n t = Inr t'" "resting c (iw_levels t)" for i n t t'
    using that by (auto simp: init_completed_def split: list.splits prod.splits dest: init_reads_resting init_opened_resting)
  have turn: "resting c (iw_levels t')" if "init_turn c base arrived i t = Inr t'" "resting c (iw_levels t)" for i t t'
    using that by (auto simp: init_turn_def rbind_eq_Inr deliver_def split: option.splits
        dest!: completed dest: init_visit_resting)
  show ?thesis using assms unfolding init_pass_def
    by (rule rfold_invariant [where P = "\<lambda>t. resting c (iw_levels t)"]) (use turn in auto)
qed

section \<open>A started database\<close>

lemma network_prologue_shape:
  assumes "network_prologue c ring_fd server_sock_fd mem socket_buffers fds bs = Inr ns" "store_shape c bs"
  shows "network_shape c (MAX_SIMULTANEOUS_CONNECTIONS c) (length mem) (ns_network ns) \<and> nw_mem (ns_network ns) = mem"
proof -
  let ?st = "\<lparr>nw_mem = mem, nw_connection_pool = new_connection_pool (MAX_SIMULTANEOUS_CONNECTIONS c) socket_buffers,
      nw_store = bs @ [Some (new_request_batch READ)], nw_batch = length bs + 1, nw_ring = [], nw_sqe = 0\<rparr>"
  let ?ok = "\<lambda>st. network_shape c (MAX_SIMULTANEOUS_CONNECTIONS c) (length mem) st \<and> nw_mem st = mem"
  from assms(1) obtain fds' st1 where st1: "prep (Prep_multishot_accept Accept_batch) (get_sqe ?st) = Inr st1"
      "rfold (tell_worker ring_fd fds') [0 ..< NUM_SSTABLE_WORKER_THREADS c] st1 = Inr (ns_network ns)"
    by (auto simp: network_prologue_def batch_new_def rbind_eq_Inr)
  have "?ok (get_sqe ?st)"
    using assms(2) by (auto simp: network_shape_def get_sqe_def slots_shape_def new_connection_pool_def store_shape_def new_request_batch_def)
  then have "?ok st1" using prep_shape [OF st1(1)] st1(1) by (auto simp: prep_def rbind_eq_Inr)
  with st1(2) show ?thesis
  proof (rule rfold_invariant)
    fix i st st' assume t: "tell_worker ring_fd fds' i st = Inr st'" and ok: "?ok st"
    then obtain e where e: "prep e (get_sqe st) = Inr st'" by (auto simp: tell_worker_def rbind_eq_Inr)
    then show "?ok st'" using prep_shape [OF e get_sqe_shape] ok by (auto simp: prep_def get_sqe_def rbind_eq_Inr)
  qed
qed

lemma system_start_ok:
  assumes "system_start c ring_fd server_sock_fd mem socket_buffers iw = Inr sy" "resting c (iw_levels iw)"
  shows "system_ok c (MAX_SIMULTANEOUS_CONNECTIONS c) (length mem) sy \<and>
    wk_reads (sy_worker sy) = [] \<and> wk_writes (sy_worker sy) = [] \<and> wk_sent (sy_worker sy) = []"
proof -
  let ?m = "main_start c mem (iw_levels iw) []"
  from assms(1) obtain ns where ns: "network_prologue c ring_fd server_sock_fd mem socket_buffers (iw_fixed_file_fds iw) (mn_store ?m) = Inr ns"
      "sy = \<lparr>sy_network = ns_network ns, sy_main = ?m\<lparr>mn_store := nw_store (ns_network ns)\<rparr>,
         sy_worker = \<lparr>wk_levels = iw_levels iw, wk_mem = mem, wk_store = nw_store (ns_network ns), wk_pages = iw_pages iw,
           wk_reads = [], wk_writes = [], wk_sent = [], wk_is_practically_full = False\<rparr>\<rparr>"
    by (auto simp: system_start_def Let_def rbind_eq_Inr)
  have "store_shape c (mn_store ?m)" by (auto simp: main_start_def batch_new_def store_shape_def new_request_batch_def)
  from network_prologue_shape [OF ns(1) this] show ?thesis using assms(2)
    by (auto simp: ns(2) system_ok_def views_agree_def main_shape_def main_start_def batch_new_def memtable_shape_def
        new_memtable_def si_invar_def new_sparse_index_def network_shape_def)
qed

lemma initialize_ok:
  assumes "initialize c pages passes ring_fd server_sock_fd mem socket_buffers lis = Some (Inr sy)" "resting c lis"
  shows "system_ok c (MAX_SIMULTANEOUS_CONNECTIONS c) (length mem) sy \<and>
    wk_reads (sy_worker sy) = [] \<and> wk_writes (sy_worker sy) = [] \<and> wk_sent (sy_worker sy) = []"
proof -
  from assms(1) obtain lis' iw where iw: "init_levels c lis = Inr lis'" "worker_passes c passes (workers_start c lis' pages) = Inr iw"
      "system_start c ring_fd server_sock_fd mem socket_buffers iw = Inr sy"
    by (auto simp: initialize_def lbind_eq_Inr rbind_eq_Inr split: if_splits)
  have "resting c (iw_levels (workers_start c lis' pages))"
    using init_levels_resting [OF iw(1) assms(2)] by (simp add: workers_start_def)
  with iw(2) have "resting c (iw_levels iw)" unfolding worker_passes_def
    by (rule rfold_invariant [where P = "\<lambda>t. resting c (iw_levels t)"]) (auto dest: init_pass_resting)
  with iw(3) show ?thesis by (rule system_start_ok)
qed

lemma new_levels_resting: "resting c (new_levels c k m g)"
proof -
  have "sstable_shape c (new_sstable_info c (new_wait_queue b single) junk r)"
      "sstable_quiet (new_sstable_info c (new_wait_queue b single) junk r)" for b single junk r
    by (auto simp: sstable_shape_def sstable_quiet_def new_sstable_info_def new_wait_queue_def new_stack_def)
  then show ?thesis
    by (auto simp: resting_def database_shape_def level_shape_def level_ok_def new_levels_def new_level_info_def si_invar_def new_sparse_index_def)
qed


subsection \<open>The smallest database\<close>

text \<open>One level with one SSTable, one worker and one connection; the file of the SSTable is empty.\<close>

definition tiny_config :: config where
  "tiny_config = cmake_config\<lparr>TOTAL_SSTABLE_STORAGE_SPACE_MB := 2, LEVEL_FACTOR := 1, NUM_SSTABLE_WORKER_THREADS := 1,
     VALUE_LENGTH := 15, MAX_SIMULTANEOUS_CONNECTIONS := 1, TOTAL_SSTABLE_PAGE_CACHE_SIZE := 20\<rparr>"

definition tiny_level :: level_info where
  "tiny_level = new_level_info tiny_config 3 16 (\<lambda>_.
     \<lparr>un_back = 0, un_bytes = (\<lambda>_. 0), un_req_batch = 0, un_slots = (\<lambda>_. 0), un_wq_single = True, un_bq_single = True\<rparr>)"

definition tiny_passes :: "init_event list" where
  "tiny_passes = [(0, (\<lambda>_. None), 0), (0, (\<lambda>_. Some (0, [(0, 0)])), 0), (0, (\<lambda>_. Some (0, [(0, 0), (0, 0)])), 0)]"

lemma tiny_config_simps [simp]:
  "LEVEL_FACTOR tiny_config = 1" "NUM_SSTABLE_WORKER_THREADS tiny_config = 1" "KEY_LENGTH tiny_config = 1"
  "MAX_SIMULTANEOUS_CONNECTIONS tiny_config = 1" "NUM_SSTABLES tiny_config = 1" "NUM_SSTABLE_LEVELS tiny_config = 1"
  "NUM_FILE_FDS tiny_config = 2" "WORKER_SSTABLE_BATCH_SIZE tiny_config = 1" "max_sstable_height tiny_config = 20"
  "max_buffer_set_size tiny_config = 20"
  by (simp_all add: tiny_config_def NUM_SSTABLES_def NUM_SSTABLE_LEVELS_def NUM_FILE_FDS_def WORKER_SSTABLE_BATCH_SIZE_def
      max_sstable_height_def max_buffer_set_size_def)

lemma tiny_level_eq:
  "tiny_level = \<lparr>li_atomic_guard = 1, li_is_single_thread = None,
     li_filters = [new_bloom_filter tiny_config (of_nat (filter_elements tiny_config)) 3 16],
     li_sparse_index = [0, 0], li_buffer_queues = [new_buffer_queue tiny_config (replicate 20 0) True],
     li_sstable_infos = [new_sstable_info tiny_config (new_wait_queue 0 True) (\<lambda>_. 0) 0]\<rparr>"
proof -
  have "map (\<lambda>_. 0 :: buf) [0 ..< 20] = replicate 20 0" by (simp add: map_replicate_const)
  then show ?thesis by (simp add: tiny_level_def new_level_info_def new_sparse_index_def numeral_2_eq_2 del: upt_conv_Cons)
qed

lemma tiny_buffer_size: "fair_aligned_sstable_page_cache_buffer_size tiny_config = 4096"
proof -
  have "lcm 16 4096 = (4096 :: nat)" by (simp add: lcm_proj2_if_dvd)
  then show ?thesis
    by (simp add: fair_aligned_sstable_page_cache_buffer_size_def fair_sstable_page_cache_size_def)
      (simp add: tiny_config_def)
qed

lemma tiny_positions: "worker_sstables tiny_config 0 = [0]" "sstable_position tiny_config 0 = (0, 0)"
  by (simp_all add: worker_sstables_def sstable_position_def)

lemma tiny_pass: "init_pass tiny_config 0 arrived 0 = init_turn tiny_config 0 arrived 0"
proof
  show "init_pass tiny_config 0 arrived 0 st = init_turn tiny_config 0 arrived 0 st" for st
    by (cases "init_turn tiny_config 0 arrived 0 st") (simp_all add: init_pass_def tiny_positions)
qed

lemma tiny_passes_run:
  "\<exists>iw. rbind (init_levels tiny_config [tiny_level]) (\<lambda>lis.
       worker_passes tiny_config tiny_passes (workers_start tiny_config lis (\<lambda>_. []))) = Inr iw \<and>
     iw_num_read iw = 2 \<and> iw_fixed_file_fds iw = [Some 0, None, None, None]"
proof -
  let ?s0 = "new_sstable_info tiny_config (new_wait_queue 0 True) (\<lambda>_. 0) 0"
  let ?st0 = "workers_start tiny_config [tiny_level] (\<lambda>_. [])"
  have levels: "init_levels tiny_config [tiny_level] = Inr [tiny_level]"
    by (simp add: init_levels_def with_level_def init_outer_level_def set_is_single_thread_def set_wq_single_def
        tiny_level_eq new_buffer_queue_def new_sstable_info_def new_wait_queue_def)
  have "fresh_sstable tiny_config 0 ?s0" by (simp add: fresh_sstable_def new_sstable_info_def)
  from init_sstable_ok [OF this, of 0] obtain s1 where s1: "init_sstable tiny_config 0 0 ?s0 = Inr s1"
      "ss_desired_sstable_offset s1 = 0" "ss_min_key s1 = [255]" "ss_max_key s1 = [0]"
      "take 20 (ss_page_cache_buffers s1) = map (\<lambda>m. Some (4096 * m)) [0 ..< 20]"
    by (auto simp: tiny_buffer_size)
  have bufs: "cell (ss_page_cache_buffers s1) 0 = Inr 0" "cell (ss_page_cache_buffers s1) 1 = Inr 4096"
  proof -
    have "i < length (ss_page_cache_buffers s1)" "ss_page_cache_buffers s1 ! i = Some (4096 * i)" if "i < 20" for i
    proof -
      have "length (take 20 (ss_page_cache_buffers s1)) = 20" using s1(5) by (simp only: length_map length_upt)
      then show "i < length (ss_page_cache_buffers s1)" using that by simp
      have "take 20 (ss_page_cache_buffers s1) ! i = Some (4096 * i)" using s1(5) that by (simp only: nth_map_upt) simp
      then show "ss_page_cache_buffers s1 ! i = Some (4096 * i)" using that by simp
    qed
    from this [of 0] this [of 1] show "cell (ss_page_cache_buffers s1) 0 = Inr 0" "cell (ss_page_cache_buffers s1) 1 = Inr 4096"
      by simp_all
  qed
  let ?li = "\<lambda>s. tiny_level\<lparr>li_sstable_infos := [s]\<rparr>"
  have fds: "new_fixed_file_fds tiny_config = [None, None, None, None]" by (simp add: new_fixed_file_fds_def numeral_eq_Suc)
  have "ss_desired_sstable_offset ?s0 = -2" by (simp add: new_sstable_info_def)
  moreover have "sstable_at 0 0 (iw_levels ?st0) = Inr ?s0" by (simp add: sstable_at_def workers_start_def tiny_level_eq)
  moreover have "sstable_put 0 0 s1 (iw_levels ?st0) = Inr [?li s1]"
    by (simp add: sstable_put_def with_level_def workers_start_def tiny_level_eq)
  ultimately obtain st1 where st1: "init_pass tiny_config 0 (\<lambda>_. None) 0 ?st0 = Inr st1" "iw_levels st1 = [?li s1]"
      "iw_cqs st1 0 = []" "iw_fixed_file_fds st1 = [None, None, None, None]" "iw_num_read st1 = 0"
    using s1(1) by (simp add: tiny_pass init_turn_silent init_visit_def tiny_positions) (simp add: workers_start_def fds)
  let ?s2 = "s1\<lparr>ss_desired_sstable_offset := 0\<rparr>"
  note step2 = init_completed_open [OF st1(3) tiny_positions(2) _ _ _ _ bufs refl, of 0 0 0]
  obtain st2 where st2: "init_completed tiny_config 0 0 (deliver 0 [(0, 0)] st1) = Inr st2" "iw_levels st2 = [?li ?s2]"
      "iw_fixed_file_fds st2 = [Some 0, None, None, None]" "iw_cqs st2 0 = [(0, 0)]" "iw_num_read st2 = 0"
    by (rule that [OF step2]) (use st1(2,4,5) in \<open>simp_all add: with_sstable_def\<close>)
  then have pass2: "init_pass tiny_config 0 (\<lambda>_. Some (0, [(0, 0)])) 0 st1 = Inr st2"
    by (simp add: tiny_pass init_turn_def init_visit_def tiny_positions sstable_at_def)
  let ?st = "deliver 0 [(0, 0), (0, 0)] st2"
  have st: "iw_levels ?st = [?li ?s2]" "iw_fixed_file_fds ?st = [Some 0, None, None, None]" "iw_num_read ?st = 0"
    using st2 by (simp_all add: deliver_def)
  let ?in = "\<lparr>in_sstable = ?s2, in_pages = iw_pages ?st, in_filter = hd (li_filters tiny_level),
      in_sparse_index = [0, 0], in_num_read = 0, in_ring = iw_ring ?st\<rparr>"
  have "\<exists>ring. schedule_initialization_read tiny_config 0 (in_sstable ?in) (in_ring ?in) = Inr ring"
    using bufs by (simp add: schedule_initialization_read_def Let_def)
  then obtain ring where "schedule_initialization_read tiny_config 0 (in_sstable ?in) (in_ring ?in) = Inr ring" ..
  from init_completion_empty_file [OF _ _ _ _ this, of 0 0] s1(3,4)
  obtain r where r: "init_completion tiny_config 0 0 0 0 0 ?in = Inr r" "in_num_read r = 2"
      "ss_desired_sstable_offset (in_sstable r) = -1"
    by (auto simp: tiny_buffer_size si_invar_def)
  have "init_completed tiny_config 0 0 ?st = init_reads tiny_config 0 0 0 0 ?st"
    using init_completed_later [OF st2(4), of tiny_config 0 0 0 "[(0, 0)]"] by simp
  moreover have "\<exists>iw. init_reads tiny_config 0 0 0 0 ?st = Inr iw \<and> iw_num_read iw = 2 \<and>
      iw_fixed_file_fds iw = [Some 0, None, None, None] \<and> sstable_at 0 0 (iw_levels iw) = Inr (in_sstable r)"
    using r(1,2) st by (simp add: init_reads_def tiny_positions sstable_at_def tiny_level_eq)
  ultimately obtain iw where iw: "init_completed tiny_config 0 0 ?st = Inr iw" "iw_num_read iw = 2"
      "iw_fixed_file_fds iw = [Some 0, None, None, None]" "sstable_at 0 0 (iw_levels iw) = Inr (in_sstable r)" by auto
  then have "init_pass tiny_config 0 (\<lambda>_. Some (0, [(0, 0), (0, 0)])) 0 st2 = Inr iw"
    using r(3) by (simp add: tiny_pass init_turn_def init_visit_def tiny_positions)
  then show ?thesis using levels st1(1) pass2 iw(2,3) by (simp add: worker_passes_def tiny_passes_def)
qed

definition tiny_ringdb :: "system res option" where
  "tiny_ringdb = ringdb tiny_config 3 16 (\<lambda>_ _. \<lparr>un_back = 0, un_bytes = (\<lambda>_. 0), un_req_batch = 0, un_slots = (\<lambda>_. 0),
     un_wq_single = True, un_bq_single = True\<rparr>) (\<lambda>_. []) tiny_passes 5 6 (replicate 64 0) 0"

lemma tiny_runs: "\<exists>sy. tiny_ringdb = Some (Inr sy)"
proof -
  from tiny_passes_run obtain iw where iw: "rbind (init_levels tiny_config [tiny_level]) (\<lambda>lis.
      worker_passes tiny_config tiny_passes (workers_start tiny_config lis (\<lambda>_. []))) = Inr iw"
      "iw_num_read iw = 2" "iw_fixed_file_fds iw = [Some 0, None, None, None]" by blast
  have "\<exists>sy. system_start tiny_config 5 6 (replicate 64 0) 0 iw = Inr sy"
    by (simp add: system_start_def Let_def network_prologue_def register_server_def iw(3) batch_new_def get_sqe_def prep_def
        tell_worker_def cell_def)
  then show ?thesis using iw(1,2) by (simp add: tiny_ringdb_def ringdb_def new_levels_def initialize_def flip: tiny_level_def)
qed


section \<open>The wait for the workers\<close>

text \<open>
  Where the number of workers does not divide the number of SSTables, some SSTables belong to no worker;
  unless some are counted twice, the main thread waits for ever.
\<close>

lemma initialize_waits:
  assumes "rbind (init_levels c lis) (\<lambda>lis'. worker_passes c passes (workers_start c lis' pages)) = Inr iw"
    and "iw_num_read iw \<le> length (concat (map (worker_sstables c) [0 ..< NUM_SSTABLE_WORKER_THREADS c]))"
    and "\<not> NUM_SSTABLE_WORKER_THREADS c dvd NUM_SSTABLES c"
  shows "initialize c pages passes ring_fd server_sock_fd mem socket_buffers lis = None"
proof -
  have "length (concat (map (worker_sstables c) [0 ..< NUM_SSTABLE_WORKER_THREADS c])) =
      NUM_SSTABLES c - NUM_SSTABLES c mod NUM_SSTABLE_WORKER_THREADS c"
    using worker_sstables_cover [of c] by (metis length_upt diff_zero)
  moreover have "0 < NUM_SSTABLES c mod NUM_SSTABLE_WORKER_THREADS c" using assms(3) by (simp add: dvd_eq_mod_eq_0)
  moreover have "NUM_SSTABLES c mod NUM_SSTABLE_WORKER_THREADS c \<le> NUM_SSTABLES c" by simp
  ultimately have "iw_num_read iw < NUM_SSTABLES c" using assms(2) by linarith
  then show ?thesis using assms(1) by (simp add: initialize_def)
qed

end
