(* ===== verification/Wait_Queue_Steps.thy ===== *)
theory Wait_Queue_Steps
  imports Wait_Queue
begin

text \<open>
  The wait queue of an SSTable that two threads share, one access to shared memory at a time: the
  steps of the uncontended branch of \<open>try_push_back\<close> and those of \<open>pop_front\<close> in
  \<^verbatim>\<open>request_batch_wait_queue.hpp\<close>, and their interleavings under sequential consistency. Run without
  interference, the steps are the two functions of \<open>Wait_Queue\<close>.
\<close>

section \<open>The steps\<close>

text \<open>
  Where the producer is: before the load of the size, before the load of the consumer's guard (with the
  size 1 or 0), before linking a new node (and moving \<open>back\<close> to it or not), before each of the stores
  of \<open>front = back = new Node\<close>, before counting, or at the end.
\<close>

datatype producer =
    P_load
  | P_check bool
  | P_link bool
  | P_move nat
  | P_start_list
  | P_front nat
  | P_add
  | P_done bool

definition producer_step :: "'b \<Rightarrow> producer \<Rightarrow> 'b wait_queue \<Rightarrow> (producer \<times> 'b wait_queue) res" where
  "producer_step b pc q =
     (case pc of
        P_load \<Rightarrow>
          let size_var = sint (wq_size q)
          in Inr (if 1 < size_var then P_link True else if size_var = 0 then P_check False
                  else if size_var = 1 then P_check True else P_start_list, q)
      | P_check one \<Rightarrow>
          Inr (if wq_atomic_consumer_guard q = 0 then P_done False else if one then P_link False else P_start_list, q)
      | P_link move \<Rightarrow>
          let (p, q1) = new_node b q
          in rbind (deref (wq_heap q1) (wq_back q1)) (\<lambda>n.
               Inr (if move then P_move p else P_add, q1\<lparr>wq_heap := (wq_heap q1)(wq_back q1 \<mapsto> n\<lparr>nd_next := p\<rparr>)\<rparr>))
      | P_move p \<Rightarrow> Inr (P_add, q\<lparr>wq_back := p\<rparr>)
      | P_start_list \<Rightarrow> let (p, q1) = new_node b q in Inr (P_front p, q1\<lparr>wq_back := p\<rparr>)
      | P_front p \<Rightarrow> Inr (P_add, q\<lparr>wq_front := p\<rparr>)
      | P_add \<Rightarrow> Inr (P_done True, add_size 1 q)
      | P_done r \<Rightarrow> Inr (P_done r, q))"

text \<open>
  Where the consumer is; it has acquired its guard before. It carries what it has read: the batch, the
  node and the node behind it.
\<close>

datatype 'b consumer =
    C_sub
  | C_batch
  | C_next 'b
  | C_move 'b nat nat
  | C_release 'b nat
  | C_delete 'b nat
  | C_undo
  | C_give_up
  | C_done "'b option"

definition consumer_step :: "'b consumer \<Rightarrow> 'b wait_queue \<Rightarrow> ('b consumer \<times> 'b wait_queue) res" where
  "consumer_step pc q =
     (case pc of
        C_sub \<Rightarrow> Inr (if 0 \<le> wq_size q - 1 then C_batch else C_undo, add_size (- 1) q)
      | C_batch \<Rightarrow> rbind (deref (wq_heap q) (wq_front q)) (\<lambda>n. Inr (C_next (nd_req_batch n), q))
      | C_next x \<Rightarrow> rbind (deref (wq_heap q) (wq_front q)) (\<lambda>n. Inr (C_move x (wq_front q) (nd_next n), q))
      | C_move x p n \<Rightarrow> Inr (C_release x p, q\<lparr>wq_front := n\<rparr>)
      | C_release x p \<Rightarrow> Inr (C_delete x p, q\<lparr>wq_atomic_consumer_guard := 1\<rparr>)
      | C_delete x p \<Rightarrow> Inr (C_done (Some x), q\<lparr>wq_heap := (wq_heap q)(p := None)\<rparr>)
      | C_undo \<Rightarrow> Inr (C_give_up, add_size 1 q)
      | C_give_up \<Rightarrow> Inr (C_done None, q\<lparr>wq_atomic_consumer_guard := 1\<rparr>)
      | C_done r \<Rightarrow> Inr (C_done r, q))"

section \<open>Without interference\<close>

fun run_producer :: "nat \<Rightarrow> 'b \<Rightarrow> producer \<Rightarrow> 'b wait_queue \<Rightarrow> (producer \<times> 'b wait_queue) res" where
  "run_producer 0 b pc q = Inr (pc, q)"
| "run_producer (Suc n) b pc q = rbind (producer_step b pc q) (\<lambda>(pc', q'). run_producer n b pc' q')"

fun run_consumer :: "nat \<Rightarrow> 'b consumer \<Rightarrow> 'b wait_queue \<Rightarrow> ('b consumer \<times> 'b wait_queue) res" where
  "run_consumer 0 pc q = Inr (pc, q)"
| "run_consumer (Suc n) pc q = rbind (consumer_step pc q) (\<lambda>(pc', q'). run_consumer n pc' q')"



section \<open>Interleavings\<close>

inductive wq_step :: "'b \<Rightarrow> producer \<times> 'b consumer \<times> 'b wait_queue \<Rightarrow> producer \<times> 'b consumer \<times> 'b wait_queue \<Rightarrow> bool"
  for b where
  produce: "producer_step b pp q = Inr (pp', q') \<Longrightarrow> wq_step b (pp, cp, q) (pp', cp, q')"
| consume: "consumer_step cp q = Inr (cp', q') \<Longrightarrow> wq_step b (pp, cp, q) (pp, cp', q')"

lemma run_consumer_steps:
  "run_consumer n cp q = Inr (cp', q') \<Longrightarrow> (wq_step b)\<^sup>*\<^sup>* (pp, cp, q) (pp, cp', q')"
proof (induction n arbitrary: cp q)
  case (Suc n)
  then obtain c1 q1 where s: "consumer_step cp q = Inr (c1, q1)" "run_consumer n c1 q1 = Inr (cp', q')"
    by (auto simp: rbind_eq_Inr)
  from consume [OF s(1)] Suc.IH [OF s(2)] show ?case by (rule converse_rtranclp_into_rtranclp)
qed simp

text \<open>A race: some thread's next step is undefined.\<close>

definition wq_race :: "'b \<Rightarrow> producer \<times> 'b consumer \<times> 'b wait_queue \<Rightarrow> bool" where
  "wq_race b s \<longleftrightarrow> (case s of (pp, cp, q) \<Rightarrow>
     (\<exists>e. producer_step b pp q = Inl e) \<or> (\<exists>e. consumer_step cp q = Inl e))"

text \<open>
  What holds while a batch \<open>b\<close> is appended to a queue with the nodes \<open>(a0, b0) # (a1, b1) # ms\<close> and
  one is taken: the producer works on the last node and the new one at \<open>a\<close>, the consumer on the first,
  and the nodes between belong to neither.
\<close>

definition after_link :: "producer \<Rightarrow> bool" where
  "after_link pp \<longleftrightarrow> pp \<notin> {P_load, P_link True}"

definition after_sub :: "'b consumer \<Rightarrow> bool" where
  "after_sub cp \<longleftrightarrow> cp \<noteq> C_sub"

definition producer_view :: "nat \<Rightarrow> nat \<Rightarrow> producer \<Rightarrow> 'b wait_queue \<Rightarrow> bool" where
  "producer_view a l pp q \<longleftrightarrow>
     pp \<in> {P_load, P_link True, P_move a, P_add, P_done True} \<and>
     wq_back q = (if pp \<in> {P_load, P_link True, P_move a} then l else a) \<and>
     wq_alloc q = (if after_link pp then Suc a else a)"

definition consumer_view :: "nat \<Rightarrow> 'b \<Rightarrow> nat \<Rightarrow> 'b consumer \<Rightarrow> 'b wait_queue \<Rightarrow> bool" where
  "consumer_view a0 b0 a1 cp q \<longleftrightarrow>
     cp \<in> {C_sub, C_batch, C_next b0, C_move b0 a0 a1, C_release b0 a0, C_delete b0 a0, C_done (Some b0)} \<and>
     wq_front q = (if cp \<in> {C_sub, C_batch, C_next b0, C_move b0 a0 a1} then a0 else a1) \<and>
     wq_heap q a0 = (if cp = C_done (Some b0) then None else Some \<lparr>nd_req_batch = b0, nd_next = a1\<rparr>)"

definition sharing :: "'b \<Rightarrow> nat \<Rightarrow> 'b \<Rightarrow> (nat \<times> 'b) list \<Rightarrow> nat \<Rightarrow> producer \<times> 'b consumer \<times> 'b wait_queue \<Rightarrow> bool" where
  "sharing b a0 b0 ms a s \<longleftrightarrow> (case s of (pp, cp, q) \<Rightarrow>
     producer_view a (fst (last ms)) pp q \<and> consumer_view a0 b0 (fst (hd ms)) cp q \<and>
     lseg (wq_heap q) (fst (hd ms)) (if after_link pp then ms @ [(a, b)] else ms) \<and>
     wq_size q = of_nat (Suc (length ms)) + (if pp = P_done True then 1 else 0) - (if after_sub cp then 1 else 0) \<and>
     \<not> wq_is_single_thread q)"

lemmas sharing_defs = sharing_def producer_view_def consumer_view_def after_link_def after_sub_def

definition apart :: "nat \<Rightarrow> (nat \<times> 'b) list \<Rightarrow> nat \<Rightarrow> bool" where
  "apart a0 ms a \<longleftrightarrow> 2 \<le> length ms \<and> length ms < 2 ^ 31 - 1 \<and> a0 \<noteq> 0 \<and> a \<noteq> 0 \<and> distinct (map fst ms) \<and>
     a0 \<notin> fst ` set ms \<and> a \<notin> fst ` set ms \<and> a \<noteq> a0"

lemma size_above_one:
  assumes "2 \<le> n" "n < 2 ^ 31 - 1"
  shows "1 < sint (of_nat n :: uint)" "1 < sint (of_nat (Suc n) :: uint)"
proof -
  have "sint (of_nat m :: uint) = int m" if "m < 2 ^ 31" for m
    using that by (simp add: signed_of_nat signed_take_bit_int_eq_self)
  from this [of n] this [of "Suc n"] assms show "1 < sint (of_nat n :: uint)" "1 < sint (of_nat (Suc n) :: uint)"
    by simp_all
qed

lemma producer_keeps:
  assumes "sharing b a0 b0 ms a (pp, cp, q)" "apart a0 ms a" "producer_step b pp q = Inr (pp', q')"
  shows "sharing b a0 b0 ms a (pp', cp, q')"
proof -
  let ?l = "fst (last ms)"
  have ms: "ms \<noteq> []" using assms(2) by (auto simp: apart_def)
  then have l: "?l \<in> fst ` set ms" by simp
  consider "pp = P_load" | "pp = P_link True" | "pp = P_move a" | "pp = P_add" | "pp = P_done True"
    using assms(1) by (auto simp: sharing_defs)
  then show ?thesis
  proof cases
    case 1
    have "1 < sint (wq_size q)"
      using assms(1,2) size_above_one [of "length ms"] by (auto simp: sharing_defs apart_def 1)
    then show ?thesis using assms(1,3) by (auto simp: producer_step_def 1 Let_def sharing_defs)
  next
    case 2
    have seg: "lseg (wq_heap q) (fst (hd ms)) ms" "wq_back q = ?l" "wq_alloc q = a"
      using assms(1) by (simp_all add: sharing_defs 2)
    have lneq: "?l \<noteq> 0" "?l \<noteq> a" "?l \<noteq> a0"
      using l lseg_nonzero [OF seg(1)] assms(2) by (auto simp: apart_def)
    from lseg_snoc [OF seg(1) _ ms, of a b] assms(2) obtain n where n: "wq_heap q ?l = Some n"
        "lseg ((wq_heap q)(a \<mapsto> \<lparr>nd_req_batch = b, nd_next = 0\<rparr>, ?l \<mapsto> n\<lparr>nd_next := a\<rparr>)) (fst (hd ms)) (ms @ [(a, b)])"
      by (auto simp: apart_def)
    have "pp' = P_move a" "q' = q\<lparr>wq_heap := (wq_heap q)(a \<mapsto> \<lparr>nd_req_batch = b, nd_next = 0\<rparr>, ?l \<mapsto> n\<lparr>nd_next := a\<rparr>),
        wq_alloc := Suc a\<rparr>"
      using assms(3) n(1) lneq seg(2,3) by (auto simp: producer_step_def 2 new_node_def deref_def)
    then show ?thesis using assms(1,2) n(2) lneq by (auto simp: sharing_defs 2 apart_def)
  qed (use assms(1,3) in \<open>auto simp: producer_step_def add_size_def sharing_defs\<close>)
qed

lemma consumer_keeps:
  assumes "sharing b a0 b0 ms a (pp, cp, q)" "apart a0 ms a" "consumer_step cp q = Inr (cp', q')"
  shows "sharing b a0 b0 ms a (pp, cp', q')"
proof -
  consider "cp = C_sub" | "cp = C_batch" | "cp = C_next b0" | "cp = C_move b0 a0 (fst (hd ms))"
    | "cp = C_release b0 a0" | "cp = C_delete b0 a0" | "cp = C_done (Some b0)"
    using assms(1) by (auto simp: sharing_defs)
  then show ?thesis
    using assms by cases (auto simp: consumer_step_def deref_def add_size_def sharing_defs apart_def)
qed

lemma sharing_no_race:
  assumes "sharing b a0 b0 ms a s" "apart a0 ms a"
  shows "\<not> wq_race b s"
proof -
  obtain pp cp q where s: "s = (pp, cp, q)" by (cases s)
  have ms: "ms \<noteq> []" "distinct (map fst ms)" "a \<noteq> 0" "a \<notin> fst ` set ms" using assms(2) by (auto simp: apart_def)
  have "\<exists>r. producer_step b pp q = Inr r"
  proof (cases "pp = P_link True")
    case True
    then have seg: "lseg (wq_heap q) (fst (hd ms)) ms" "wq_back q = fst (last ms)" "wq_alloc q = a"
      using assms(1) by (simp_all add: sharing_defs s)
    from lseg_snoc [OF seg(1) ms(2,1,3,4), of b] obtain n where "wq_heap q (fst (last ms)) = Some n" by blast
    moreover have "fst (last ms) \<noteq> 0" "fst (last ms) \<noteq> a"
      using lseg_nonzero [OF seg(1), of "fst (last ms)"] ms(1,4) by auto
    ultimately show ?thesis using seg by (simp add: True producer_step_def new_node_def deref_def)
  next
    case False
    then show ?thesis using assms(1) by (auto simp: sharing_defs s producer_step_def Let_def)
  qed
  moreover have "\<exists>r. consumer_step cp q = Inr r"
    using assms by (auto simp: sharing_defs s consumer_step_def deref_def apart_def)
  ultimately show ?thesis by (auto simp: wq_race_def s)
qed

lemma sharing_reachable:
  assumes "(wq_step b)\<^sup>*\<^sup>* s t" "sharing b a0 b0 ms a s" "apart a0 ms a"
  shows "sharing b a0 b0 ms a t"
  using assms(1,2)
proof (induction rule: rtranclp_induct)
  case (step u v)
  from step(2) step.IH [OF step.prems] show ?case
    by cases (auto intro: producer_keeps [OF _ assms(3)] consumer_keeps [OF _ assms(3)])
qed

lemma sharing_start:
  assumes "wq_rep q ((a0, b0) # ms)" "\<not> wq_is_single_thread q" "2 \<le> length ms" "length ms < 2 ^ 31 - 1"
  shows "sharing b a0 b0 ms (wq_alloc q) (P_load, C_sub, q)" "apart a0 ms (wq_alloc q)"
proof -
  obtain a1 b1 ks where ms: "ms = (a1, b1) # ks" using assms(3) by (cases ms) auto
  show "sharing b a0 b0 ms (wq_alloc q) (P_load, C_sub, q)"
    using assms(1,2) by (auto simp: sharing_defs wq_rep_def ms)
  show "apart a0 ms (wq_alloc q)"
    using assms by (auto simp: apart_def wq_rep_def)
qed

lemma sharing_end:
  assumes "sharing b a0 b0 ms a (P_done r, C_done x, q)" "apart a0 ms a" "\<forall>c \<in> fst ` set ms. c < a"
  shows "r \<and> x = Some b0 \<and> wq_rep q (ms @ [(a, b)])"
proof -
  have "wq_front q = fst (hd ms)" "lseg (wq_heap q) (fst (hd ms)) (ms @ [(a, b)])" "wq_back q = a" "wq_alloc q = Suc a"
      "wq_size q = of_nat (length (ms @ [(a, b)]))" "r" "x = Some b0"
    using assms(1) by (auto simp: sharing_defs)
  with assms(2,3) show ?thesis by (auto simp: wq_rep_def apart_def less_Suc_eq)
qed

text \<open>
  C6. Three or more batches in the queue keep the producer and the consumer apart: whatever the order in
  which the steps of one push and one pop are taken, no step touches a null or deleted node, and when
  both are done the push has succeeded, the pop has returned the first batch, and the queue holds
  the others with the new one behind them.
\<close>

theorem push_and_pop_linearize:
  assumes "wq_rep q ((a0, b0) # ms)" "\<not> wq_is_single_thread q" "2 \<le> length ms" "length ms < 2 ^ 31 - 1"
    and "(wq_step b)\<^sup>*\<^sup>* (P_load, C_sub, q) (pp, cp, q')"
  shows "\<not> wq_race b (pp, cp, q') \<and>
    (\<forall>r x. pp = P_done r \<and> cp = C_done x \<longrightarrow> r \<and> x = Some b0 \<and> wq_rep q' (ms @ [(wq_alloc q, b)]))"
proof -
  note start = sharing_start [OF assms(1-4)]
  have inv: "sharing b a0 b0 ms (wq_alloc q) (pp, cp, q')"
    by (rule sharing_reachable [OF assms(5) start])
  have "\<forall>c \<in> fst ` set ms. c < wq_alloc q" using assms(1) by (simp add: wq_rep_def)
  then show ?thesis
    using sharing_no_race [OF inv start(2)] sharing_end [OF _ start(2)] inv by blast
qed

text \<open>Three batches pushed one after the other with \<open>standard_push_back\<close>.\<close>

definition three_batches :: "nat wait_queue" where
  "three_batches = \<lparr>wq_front = 1, wq_back = 3, wq_size = 3, wq_atomic_consumer_guard = 0,
     wq_atomic_producer_guard = 0, wq_is_single_thread = False,
     wq_heap = [1 \<mapsto> \<lparr>nd_req_batch = 10, nd_next = 2\<rparr>, 2 \<mapsto> \<lparr>nd_req_batch = 20, nd_next = 3\<rparr>,
       3 \<mapsto> \<lparr>nd_req_batch = 30, nd_next = 0\<rparr>], wq_alloc = 4\<rparr>"

theorem push_and_pop_linearize_witness:
  "\<not> wq_race 40 (P_load, C_batch, add_size (- 1) three_batches)"
proof -
  have "wq_rep three_batches ((1, 10) # [(2, 20), (3, 30)])" "\<not> wq_is_single_thread three_batches"
    by (simp_all add: wq_rep_def three_batches_def)
  moreover have "(wq_step 40)\<^sup>*\<^sup>* (P_load, C_sub, three_batches) (P_load, C_batch, add_size (- 1) three_batches)"
    by (intro r_into_rtranclp consume) (simp add: consumer_step_def)
  ultimately show ?thesis
    using push_and_pop_linearize [of three_batches 1 10 "[(2, 20), (3, 30)]" 40] by simp
qed

text \<open>
  C11. One batch in the queue does not: when the producer has read the size 1 and the consumer then takes
  the batch, the guard the producer looks at is free again and the producer links the new node behind
  the deleted one.
\<close>

theorem push_races_with_last_pop:
  assumes "wq_rep q [(a0, b0)]" "\<not> wq_is_single_thread q"
  shows "\<exists>s. (wq_step b)\<^sup>*\<^sup>* (P_load, C_sub, q) s \<and> wq_race b s"
proof -
  let ?q1 = "add_size (- 1) q" and ?n = "\<lparr>nd_req_batch = b0, nd_next = 0\<rparr>"
  let ?q2 = "?q1\<lparr>wq_front := 0\<rparr>" let ?q3 = "?q2\<lparr>wq_atomic_consumer_guard := 1\<rparr>"
  let ?q4 = "?q3\<lparr>wq_heap := (wq_heap q)(a0 := None)\<rparr>"
  have q: "wq_front q = a0" "wq_back q = a0" "a0 \<noteq> 0" "wq_heap q a0 = Some ?n" "wq_size q = 1" "a0 < wq_alloc q"
    using assms by (auto simp: wq_rep_def)
  have "producer_step b P_load q = Inr (P_check True, q)" using q by (simp add: producer_step_def)
  then have "wq_step b (P_load, C_sub, q) (P_check True, C_sub, q)" by (rule produce)
  moreover have "run_consumer 6 C_sub q = Inr (C_done (Some b0), ?q4)"
    using q by (simp add: eval_nat_numeral consumer_step_def add_size_def deref_def)
  then have "(wq_step b)\<^sup>*\<^sup>* (P_check True, C_sub, q) (P_check True, C_done (Some b0), ?q4)" by (rule run_consumer_steps)
  moreover have "producer_step b (P_check True) ?q4 = Inr (P_link False, ?q4)" by (simp add: producer_step_def)
  then have "wq_step b (P_check True, C_done (Some b0), ?q4) (P_link False, C_done (Some b0), ?q4)" by (rule produce)
  moreover have "wq_race b (P_link False, C_done (Some b0), ?q4)"
    using q by (simp add: wq_race_def producer_step_def new_node_def add_size_def deref_def)
  ultimately show ?thesis
    by (meson converse_rtranclp_into_rtranclp rtranclp.rtrancl_into_rtrancl)
qed

theorem push_races_with_last_pop_witness:
  "\<exists>q s. wq_contents q = [10 :: nat] \<and> (wq_step 20)\<^sup>*\<^sup>* (P_load, C_sub, q) s \<and> wq_race 20 s"
proof -
  let ?q = "\<lparr>wq_front = 1, wq_back = 1, wq_size = 1, wq_atomic_consumer_guard = 0,
     wq_atomic_producer_guard = 0, wq_is_single_thread = False,
     wq_heap = [1 \<mapsto> \<lparr>nd_req_batch = 10, nd_next = 0\<rparr>], wq_alloc = 2\<rparr> :: nat wait_queue"
  have r: "wq_rep ?q [(1, 10)]" by (simp add: wq_rep_def)
  moreover have "\<not> wq_is_single_thread ?q" by simp
  ultimately have "\<exists>s. (wq_step 20)\<^sup>*\<^sup>* (P_load, C_sub, ?q) s \<and> wq_race 20 s" by (rule push_races_with_last_pop)
  moreover have "wq_contents ?q = [10]" using wq_repI [OF r] by simp
  ultimately show ?thesis by blast
qed

end
