(* ===== verification/Test_Client.thy ===== *)
theory Test_Client
  imports Network
begin

text \<open>
  \<^verbatim>\<open>test_ringdb.hpp\<close>: the client that the network thread starts in test builds. It writes one key,
  reads it back and compares the answer; the format of requests is the one the server decodes in
  \<open>network_thread_routine\<close>.
\<close>

section \<open>The client\<close>

text \<open>A request is its five-byte type, the key and the value.\<close>

definition encode :: "byte list \<Rightarrow> key \<Rightarrow> byte list \<Rightarrow> byte list" where
  "encode tag k v = tag @ k @ v"

definition write_tag :: "byte list" where
  "write_tag = [119, 114, 105, 116, 101]"

text \<open>\<open>buffer\<close> starts out as an allocated array with any bytes in it.\<close>

definition test_write_request :: "config \<Rightarrow> byte list \<Rightarrow> byte list res" where
  "test_write_request c buffer =
     rbind (rblit buffer 0 write_tag) (\<lambda>b1.
       rbind (rfill b1 5 (5 + KEY_LENGTH c) 97) (\<lambda>b2.
         rfill b2 (5 + KEY_LENGTH c) (SOCKET_BUFFER_LENGTH c) 98))"

definition test_read_request :: "byte list \<Rightarrow> byte list res" where
  "test_read_request buffer = rblit buffer 0 read_tag"

definition test_outcome :: "config \<Rightarrow> byte list \<Rightarrow> bool res" where
  "test_outcome c answer =
     rbind (rslice answer (5 + KEY_LENGTH c) (VALUE_LENGTH c)) (\<lambda>v.
       Inr (memcmp v (replicate (VALUE_LENGTH c) 98) = 0))"

text \<open>
  One turn: \<open>answer\<close> says what the server returns for the bytes of a request. The result are the bytes
  of the two requests and whether the test passed.
\<close>

definition test_turn :: "config \<Rightarrow> (byte list \<Rightarrow> byte list) \<Rightarrow> byte list \<Rightarrow> (byte list \<times> byte list \<times> bool) res" where
  "test_turn c answer buffer =
     rbind (test_write_request c buffer) (\<lambda>w.
       rbind (test_read_request w) (\<lambda>r.
         rbind (test_outcome c (answer r)) (\<lambda>passed. Inr (w, r, passed))))"

text \<open>The loop; \<open>num_recv\<close> is never increased.\<close>

partial_function (option) test_loop ::
    "config \<Rightarrow> (nat \<Rightarrow> byte list \<Rightarrow> byte list) \<Rightarrow> (nat \<Rightarrow> byte list) \<Rightarrow> nat \<Rightarrow> nat \<Rightarrow> bool list \<Rightarrow> bool list res option" where
  "test_loop c answer buffer n num_recv results =
     (if num_recv < BATCH_NUM_REQUESTS c
      then case test_turn c (answer n) (buffer n) of
             Inl e \<Rightarrow> Some (Inl e)
           | Inr (w, r, passed) \<Rightarrow> test_loop c answer buffer (Suc n) num_recv (results @ [passed])
      else Some (Inr results))"

section \<open>What the client sends\<close>

lemma tag_lengths [simp]: "length write_tag = 5" "length read_tag = 5"
  by (simp_all add: write_tag_def read_tag_def)

lemma test_requests:
  assumes "length buffer = SOCKET_BUFFER_LENGTH c"
  shows "test_write_request c buffer = Inr (encode write_tag (replicate (KEY_LENGTH c) 97) (replicate (VALUE_LENGTH c) 98))"
    and "test_read_request (encode write_tag k v) = Inr (encode read_tag k v)"
proof -
  have len: "length buffer = 5 + KEY_LENGTH c + VALUE_LENGTH c" using assms by (simp add: SOCKET_BUFFER_LENGTH_def)
  let ?b1 = "write_tag @ drop 5 buffer"
  have 1: "rblit buffer 0 write_tag = Inr ?b1" using len by (simp add: blit_def)
  let ?b2 = "write_tag @ replicate (KEY_LENGTH c) 97 @ drop (5 + KEY_LENGTH c) buffer"
  have 2: "rfill ?b1 5 (5 + KEY_LENGTH c) 97 = Inr ?b2"
    using len by (simp add: rfill_def blit_def add.commute)
  have "rfill ?b2 (5 + KEY_LENGTH c) (SOCKET_BUFFER_LENGTH c) 98 =
      Inr (encode write_tag (replicate (KEY_LENGTH c) 97) (replicate (VALUE_LENGTH c) 98))"
    using len by (simp add: rfill_def blit_def SOCKET_BUFFER_LENGTH_def encode_def)
  with 1 2 show "test_write_request c buffer = Inr (encode write_tag (replicate (KEY_LENGTH c) 97) (replicate (VALUE_LENGTH c) 98))"
    by (simp add: test_write_request_def)
  show "test_read_request (encode write_tag k v) = Inr (encode read_tag k v)"
    by (simp add: test_read_request_def encode_def blit_def)
qed

text \<open>The test passes exactly when the value comes back as it was sent.\<close>

lemma test_outcome_iff:
  assumes "length tag = 5" "length k = KEY_LENGTH c" "length v = VALUE_LENGTH c"
  shows "test_outcome c (encode tag k v) = Inr (v = replicate (VALUE_LENGTH c) 98)"
proof -
  have "rslice (encode tag k v) (5 + KEY_LENGTH c) (VALUE_LENGTH c) = Inr v"
    using assms by (simp add: encode_def block_def)
  then show ?thesis using assms(3) by (simp add: test_outcome_def memcmp_eq)
qed

section \<open>What the server makes of it\<close>

lemma block_split: "block xs i (m + n) = block xs i m @ block xs (i + m) n"
  by (simp add: block_def take_add add.commute)

lemma encode_blocks:
  assumes "block mem buf (SOCKET_BUFFER_LENGTH c) = encode tag k v"
    and "length tag = 5" "length k = KEY_LENGTH c" "length v = VALUE_LENGTH c"
  shows "block mem buf 5 = tag" "block mem (buf + 5) (KEY_LENGTH c) = k"
    "block mem (buf + 5 + KEY_LENGTH c) (VALUE_LENGTH c) = v" "buf + SOCKET_BUFFER_LENGTH c \<le> length mem"
proof -
  let ?n = "SOCKET_BUFFER_LENGTH c"
  have n: "?n = 5 + (KEY_LENGTH c + VALUE_LENGTH c)" by (simp add: SOCKET_BUFFER_LENGTH_def)
  have "length (block mem buf ?n) = ?n" using assms by (simp add: encode_def n)
  then show len: "buf + ?n \<le> length mem" using assms(2) n by (simp add: min_def split: if_splits)
  have "block mem buf 5 @ block mem (buf + 5) (KEY_LENGTH c) @ block mem (buf + 5 + KEY_LENGTH c) (VALUE_LENGTH c) = tag @ k @ v"
    using assms(1) by (simp add: n block_split encode_def)
  moreover have "length (block mem buf 5) = 5" "length (block mem (buf + 5) (KEY_LENGTH c)) = KEY_LENGTH c"
    using len by (simp_all add: n)
  ultimately show "block mem buf 5 = tag" "block mem (buf + 5) (KEY_LENGTH c) = k"
      "block mem (buf + 5 + KEY_LENGTH c) (VALUE_LENGTH c) = v"
    using assms(2,3) by (simp_all add: append_eq_append_conv)
qed



section \<open>The test does not end\<close>

lemma test_loop_endless:
  assumes "0 < BATCH_NUM_REQUESTS c"
  shows "test_loop c answer buffer n 0 results \<noteq> Some (Inr rs)"
proof
  assume ret: "test_loop c answer buffer n 0 results = Some (Inr rs)"
  have "0 < BATCH_NUM_REQUESTS c \<and> (0 :: nat) = 0 \<longrightarrow> (\<forall>rs'. (Inr rs :: bool list res) \<noteq> Inr rs')"
  proof (rule test_loop.raw_induct [where P = "\<lambda>c answer buffer n k results r. 0 < BATCH_NUM_REQUESTS c \<and> k = 0 \<longrightarrow> (\<forall>rs. r \<noteq> Inr rs)", OF _ ret], rule impI)
    fix f :: "config \<Rightarrow> (nat \<Rightarrow> byte list \<Rightarrow> byte list) \<Rightarrow> (nat \<Rightarrow> byte list) \<Rightarrow> nat \<Rightarrow> nat \<Rightarrow> bool list \<Rightarrow> bool list res option"
      and c answer buffer n k results r
    assume IH: "\<And>c answer buffer n k results r. f c answer buffer n k results = Some r \<Longrightarrow>
        0 < BATCH_NUM_REQUESTS c \<and> k = 0 \<longrightarrow> (\<forall>rs. r \<noteq> Inr rs)"
      and eq: "(if k < BATCH_NUM_REQUESTS c then case test_turn c (answer n) (buffer n) of Inl e \<Rightarrow> Some (Inl e)
          | Inr (w, r, passed) \<Rightarrow> f c answer buffer (Suc n) k (results @ [passed]) else Some (Inr results)) = Some r"
      and I: "0 < BATCH_NUM_REQUESTS c \<and> k = 0"
    from eq I show "\<forall>rs. r \<noteq> Inr rs" by (auto split: sum.splits prod.splits dest!: IH)
  qed
  with assms show False by simp
qed

end
