(* ===== verification/Bloom_Measures.thy ===== *)
theory Bloom_Measures
  imports Bloom_Filter
begin

text \<open>
  The functions of \<^verbatim>\<open>bloom_filter.hpp\<close> that compute with floating-point numbers: the sizes of a filter, the
  false-positive rate, the Jaccard index of two filters and the estimated number of elements. A
  floating-point number is the real number it denotes, and \<open>rnd\<close> is the
  rounding after each operation; all that is used of it is that it is monotone and keeps 0 and 1
  (and, for the sizes, signs). The functions of the library \<open>gcem\<close> are arguments.
\<close>

section \<open>Operations\<close>

text \<open>
  \<open>int num = number_hashes * elements_added\<close>: the low 32 bits of the product, read as signed. (The
  negation of the smallest \<open>int\<close> is not treated separately.)
\<close>

definition rate_num :: "bloom_filter \<Rightarrow> int" where
  "rate_num bf = sint (ucast (ucast (number_hashes bf) * elements_added bf) :: uint)"

definition bloom_filter_current_false_positive_rate :: "(real \<Rightarrow> real) \<Rightarrow> bloom_filter \<Rightarrow> real" where
  "bloom_filter_current_false_positive_rate rnd bf =
     (let d = rnd (rnd (- real_of_int (rate_num bf)) / rnd (real (unat (number_bits bf))));
          e = rnd (exp d)
      in rnd (rnd (1 - e) ^ unat (number_hashes bf)))"

definition bloom_filter_jaccard_index :: "(real \<Rightarrow> real) \<Rightarrow> bloom_filter \<Rightarrow> bloom_filter \<Rightarrow> real res" where
  "bloom_filter_jaccard_index rnd bf1 bf2 =
     (if check_if_union_or_intersection_ok bf1 bf1 bf2 = BLOOM_FAILURE then Inr (real_of_int BLOOM_FAILURE)
      else rbind (bloom_filter_count_union_bits_set bf1 bf2) (\<lambda>nu.
             let set_union_bits = rnd (real (unat nu))
             in if set_union_bits = 0 then Inr 1
                else rbind (bloom_filter_count_intersection_bits_set bf1 bf2) (\<lambda>ni.
                       Inr (rnd (rnd (real (unat ni)) / set_union_bits)))))"

section \<open>Sizes\<close>

definition LOG_TWO_SQUARED :: real where "LOG_TWO_SQUARED = 0.480453013918201388143813800"

definition LOG_TWO :: real where "LOG_TWO = 0.693147180559945286226764000"

text \<open>
  \<open>rf\<close> and \<open>rd\<close> round to \<open>float\<close> and to \<open>double\<close>, \<open>rl\<close> to \<open>long double\<close>. The conversion of the negated
  count to \<open>int64_t\<close> reads it as signed. The compile-time functions are \<open>consteval\<close>: where the conversion
  is undefined, the program does not compile.
\<close>

definition compile_time_num_bits ::
    "(real \<Rightarrow> real) \<Rightarrow> (real \<Rightarrow> real) \<Rightarrow> (real \<Rightarrow> real) \<Rightarrow> (real \<Rightarrow> real) \<Rightarrow> usize \<Rightarrow> real \<Rightarrow> usize res" where
  "compile_time_num_bits gcem_log gcem_ceil rf rd num_elems p =
     to_uint64 (gcem_ceil (rd (rf (rf (real_of_int (sint (- num_elems))) * gcem_log p) / LOG_TWO_SQUARED)))"

definition to_uint32 :: "real \<Rightarrow> uint res" where
  "to_uint32 v = (if - 1 < v \<and> v < 2 ^ 32 then Inr (of_nat (nat \<lfloor>v\<rfloor>)) else Inl FloatRange)"

definition num_hashes :: "(real \<Rightarrow> real) \<Rightarrow> (real \<Rightarrow> real) \<Rightarrow> usize \<Rightarrow> real \<Rightarrow> uint res" where
  "num_hashes round_fun rd m n =
     (if n = 0 then Inl FloatRange else to_uint32 (round_fun (rd (rd (LOG_TWO * rd (real (unat m))) / rd n))))"

definition compile_time_num_hashes ::
    "(real \<Rightarrow> real) \<Rightarrow> (real \<Rightarrow> real) \<Rightarrow> (real \<Rightarrow> real) \<Rightarrow> (real \<Rightarrow> real) \<Rightarrow> (real \<Rightarrow> real) \<Rightarrow> usize \<Rightarrow> real \<Rightarrow> uint res" where
  "compile_time_num_hashes gcem_log gcem_ceil gcem_round rf rd num_elems p =
     rbind (compile_time_num_bits gcem_log gcem_ceil rf rd num_elems p) (\<lambda>m.
       num_hashes gcem_round rd m (real (unat num_elems)))"

text \<open>\<open>round\<close> of the standard library: half-way cases go away from zero.\<close>

definition c_round :: "real \<Rightarrow> real" where
  "c_round x = (if 0 \<le> x then real_of_int \<lfloor>x + 1 / 2\<rfloor> else real_of_int \<lceil>x - 1 / 2\<rceil>)"

definition c_ceil :: "real \<Rightarrow> real" where
  "c_ceil x = real_of_int \<lceil>x\<rceil>"

text \<open>
  The same sizes at run time, from the template parameter \<open>p\<close>; the element count is a \<open>long\<close>. Nothing
  calls this function.
\<close>

definition calculate_optimal_hashes ::
    "config \<Rightarrow> (real \<Rightarrow> real) \<Rightarrow> (real \<Rightarrow> real) \<Rightarrow> real \<Rightarrow> bloom_filter \<Rightarrow> bloom_filter res" where
  "calculate_optimal_hashes c rd rl p bf =
     (let n = sint (estimated_elements bf)
      in rbind (to_uint64 (c_ceil (rl (rl (real_of_int (- n) * rl (ln p)) / LOG_TWO_SQUARED)))) (\<lambda>m.
           rbind (num_hashes c_round rd m (real_of_int n)) (\<lambda>k.
             let num_pos = nat \<lceil>rd (rd (real (unat m)) / real (KEY_LENGTH c))\<rceil>
             in Inr (bf\<lparr>number_hashes := k, number_bits := m, bloom_length := num_pos\<rparr>))))"

section \<open>Bounds\<close>

lemma count_ge_one: "(n :: usize) \<noteq> 0 \<Longrightarrow> 1 \<le> real (unat n)"
  by (metis Suc_leI of_nat_1 of_nat_le_iff One_nat_def unat_gt_0)

lemma sint_neg_count:
  assumes "(n :: usize) \<noteq> 0" "unat n < 2 ^ 63"
  shows "sint (- n) = - int (unat n)"
proof -
  have "- n = word_of_int (- int (unat n))" by simp
  then have "sint (- n) = signed_take_bit 63 (- int (unat n))" by (simp only: sint_sbintrunc') simp
  moreover have "int (unat n) < 2 ^ 63" using assms(2) by (metis of_nat_less_iff of_nat_numeral of_nat_power)
  then have "signed_take_bit 63 (- int (unat n)) = - int (unat n)" by (intro signed_take_bit_int_eq_self) linarith+
  ultimately show ?thesis by (rule trans)
qed

lemma sint_count: "unat (n :: usize) < 2 ^ 63 \<Longrightarrow> sint n = int (unat n)"
proof -
  assume "unat n < 2 ^ 63"
  then have "int (unat n) < 2 ^ 63" by (metis of_nat_less_iff of_nat_numeral of_nat_power)
  then have "signed_take_bit 63 (int (unat n)) = int (unat n)" by (intro signed_take_bit_int_eq_self) linarith+
  moreover have "sint (word_of_int (int (unat n)) :: usize) = signed_take_bit 63 (int (unat n))"
    unfolding sint_sbintrunc' by simp
  ultimately show "sint n = int (unat n)" by simp
qed

lemma ceil_quotient:
  assumes "0 < (d :: nat)"
  shows "nat \<lceil>real a / real d\<rceil> = (a + d - 1) div d"
proof -
  let ?z = "(a + d - 1) div d"
  have "a + d - 1 < d + ?z * d" using assms by (rule dividend_less_div_times)
  moreover have "?z * d \<le> a + d - 1" by simp
  ultimately have "?z * d < a + d" "a \<le> ?z * d" using assms by linarith+
  then have "real ?z * real d < real a + real d" "real a \<le> real ?z * real d"
    by (simp_all only: of_nat_add [symmetric] of_nat_mult [symmetric] of_nat_less_iff of_nat_le_iff)
  then have "real ?z - 1 < real a / real d" "real a / real d \<le> real ?z"
    using assms by (simp_all add: pos_less_divide_eq pos_divide_le_eq left_diff_distrib)
  then have "\<lceil>real a / real d\<rceil> = int ?z" by (intro ceiling_unique) simp_all
  then show ?thesis by simp
qed

lemma unat_of_nat_usize: "n < 2 ^ 64 \<Longrightarrow> unat (of_nat n :: usize) = n"
  by (simp add: unat_of_nat)

lemma nat_below_2_64: "z < 2 ^ 64 \<Longrightarrow> nat z < 2 ^ 64"
  by (cases "0 \<le> z") (simp_all add: nat_less_iff)

lemma sum_bits_set_char_le: "sum_bits_set_char b \<le> 8"
  using length_filter_le [of "bit b" "[0 ..< 8]"] by (simp add: sum_bits_set_char_bits)

lemma sum_bits_bound: "(\<Sum>i \<leftarrow> [0 ..< n]. sum_bits_set_char (f i)) \<le> 8 * n"
proof -
  have "(\<Sum>i \<leftarrow> [0 ..< n]. sum_bits_set_char (f i)) \<le> (\<Sum>i \<leftarrow> [0 ..< n]. 8)"
    by (intro sum_list_mono sum_bits_set_char_le)
  then show ?thesis by (simp add: sum_list_triv)
qed

lemma and_count_le: "sum_bits_set_char (a AND b) \<le> sum_bits_set_char (a OR b)"
proof -
  have "filter (bit (a AND b)) [0 ..< 8] = filter (bit (a AND b)) (filter (bit (a OR b)) [0 ..< 8])"
    by (simp add: bit_or_iff bit_and_iff filter_filter conj_commute) (metis (no_types, lifting) bit_and_iff)
  then show ?thesis unfolding sum_bits_set_char_bits by (metis length_filter_le)
qed

definition rounding :: "(real \<Rightarrow> real) \<Rightarrow> bool" where
  "rounding rnd \<longleftrightarrow> mono rnd \<and> rnd 0 = 0 \<and> rnd 1 = 1"

lemma rounding_nonneg: "rounding rnd \<Longrightarrow> 0 \<le> x \<Longrightarrow> 0 \<le> rnd x"
  by (metis monoD rounding_def)

lemma rounding_nonpos: "rounding rnd \<Longrightarrow> x \<le> 0 \<Longrightarrow> rnd x \<le> 0"
  by (metis monoD rounding_def)

lemma rounding_le_one: "rounding rnd \<Longrightarrow> x \<le> 1 \<Longrightarrow> rnd x \<le> 1"
  by (metis monoD rounding_def)

lemma rounding_ge_one: "rounding rnd \<Longrightarrow> 1 \<le> x \<Longrightarrow> 1 \<le> rnd x"
  by (metis monoD rounding_def)

lemma rounding_unit: "rounding rnd \<Longrightarrow> x \<in> {0 .. 1} \<Longrightarrow> rnd x \<in> {0 .. 1}"
  by (auto intro: rounding_nonneg rounding_le_one)

text \<open>
  The false-positive rate is a probability as long as the product of the numbers of hashes and of
  elements is not negative as an \<open>int\<close>. Where the product overflows to a negative number, the base
  of the power is not positive, and for an odd number of hashes neither is the reported rate.
\<close>

lemma false_positive_rate_bounds:
  assumes "rounding rnd" "number_bits bf \<noteq> 0"
  shows "(0 \<le> rate_num bf \<longrightarrow> bloom_filter_current_false_positive_rate rnd bf \<in> {0 .. 1}) \<and>
    (rate_num bf < 0 \<and> odd (unat (number_hashes bf)) \<longrightarrow> bloom_filter_current_false_positive_rate rnd bf \<le> 0)"
proof -
  let ?m = "rnd (real (unat (number_bits bf)))" and ?k = "unat (number_hashes bf)"
  let ?d = "rnd (rnd (- real_of_int (rate_num bf)) / ?m)"
  have m: "0 \<le> ?m" using assms(1) by (rule rounding_nonneg) (rule of_nat_0_le_iff)
  have "bloom_filter_current_false_positive_rate rnd bf \<in> {0 .. 1}" if "0 \<le> rate_num bf"
  proof -
    have "rnd (- real_of_int (rate_num bf)) \<le> 0" using assms(1) by (rule rounding_nonpos) (use that in simp)
    then have "rnd (- real_of_int (rate_num bf)) / ?m \<le> 0" using m by (rule divide_nonpos_nonneg)
    with assms(1) have "?d \<le> 0" by (rule rounding_nonpos)
    then have "exp ?d \<in> {0 .. 1}" by simp
    with assms(1) have "rnd (exp ?d) \<in> {0 .. 1}" by (rule rounding_unit)
    then have "1 - rnd (exp ?d) \<in> {0 .. 1}" by simp
    with assms(1) have "rnd (1 - rnd (exp ?d)) \<in> {0 .. 1}" by (rule rounding_unit)
    then have "rnd (1 - rnd (exp ?d)) ^ ?k \<in> {0 .. 1}" by (simp add: power_le_one)
    with assms(1) show ?thesis unfolding bloom_filter_current_false_positive_rate_def Let_def by (rule rounding_unit)
  qed
  moreover have "bloom_filter_current_false_positive_rate rnd bf \<le> 0" if "rate_num bf < 0" "odd ?k"
  proof -
    have "0 \<le> rnd (- real_of_int (rate_num bf))" using assms(1) by (rule rounding_nonneg) (use that in simp)
    then have "0 \<le> rnd (- real_of_int (rate_num bf)) / ?m" using m by (rule divide_nonneg_nonneg)
    with assms(1) have "0 \<le> ?d" by (rule rounding_nonneg)
    then have "1 \<le> exp ?d" by simp
    with assms(1) have "1 \<le> rnd (exp ?d)" by (rule rounding_ge_one)
    then have "1 - rnd (exp ?d) \<le> 0" by simp
    with assms(1) have "rnd (1 - rnd (exp ?d)) \<le> 0" by (rule rounding_nonpos)
    then have "rnd (1 - rnd (exp ?d)) ^ ?k \<le> 0" using that(2) by (simp add: power_le_zero_eq odd_pos)
    with assms(1) show ?thesis unfolding bloom_filter_current_false_positive_rate_def Let_def by (rule rounding_nonpos)
  qed
  ultimately show ?thesis by simp
qed

lemma rounding_id: "rounding id"
  by (simp add: rounding_def mono_def)

lemma false_positive_rate_bounds_example:
  "bloom_filter_current_false_positive_rate id (sample_filter\<lparr>number_hashes := 3, elements_added := 2 ^ 30\<rparr>) \<le> 0"
proof -
  let ?bf = "sample_filter\<lparr>number_hashes := 3, elements_added := 2 ^ 30\<rparr>"
  have "rate_num ?bf = - 1073741824" by (simp add: rate_num_def)
  moreover have "odd (unat (number_hashes ?bf))" by simp
  ultimately show ?thesis using false_positive_rate_bounds [OF rounding_id, of ?bf] by (simp add: sample_filter_eq)
qed

text \<open>
  C26. The Jaccard index of two compatible filters is between 0 and 1, and it is 1 when they have the same bits.
\<close>

theorem jaccard_index_bounds:
  assumes "rounding rnd" "check_if_union_or_intersection_ok bf1 bf1 bf2 = BLOOM_SUCCESS"
    and "length (bloom bf1) = bloom_length bf1" "length (bloom bf2) = bloom_length bf1" "8 * bloom_length bf1 < 2 ^ 64"
  shows "\<exists>j. bloom_filter_jaccard_index rnd bf1 bf2 = Inr j \<and> 0 \<le> j \<and> j \<le> 1 \<and> (bloom bf1 = bloom bf2 \<longrightarrow> j = 1)"
proof -
  let ?n = "bloom_length bf1" and ?a = "\<lambda>i. bloom bf1 ! i" and ?b = "\<lambda>i. bloom bf2 ! i"
  let ?u = "\<Sum>i \<leftarrow> [0 ..< ?n]. sum_bits_set_char (?a i OR ?b i)"
  let ?i = "\<Sum>i \<leftarrow> [0 ..< ?n]. sum_bits_set_char (?a i AND ?b i)"
  have "?u \<le> 8 * ?n" by (rule sum_bits_bound)
  then have u: "?u < 2 ^ 64" using assms(5) by simp
  have le: "?i \<le> ?u" by (intro sum_list_mono and_count_le)
  have cnt: "unat (of_nat ?u :: usize) = ?u" "unat (of_nat ?i :: usize) = ?i"
    using u le by (simp_all only: unat_of_nat) (simp_all add: mod_less)
  let ?x = "rnd (real ?u)" and ?y = "rnd (real ?i)"
  have "0 \<le> ?y" "?y \<le> ?x" using le assms(1) by (simp_all add: rounding_nonneg rounding_def monoD)
  moreover have "0 \<le> y / x \<and> y / x \<le> 1" if "0 \<le> y" "y \<le> x" for x y :: real
    using that by (auto simp: divide_le_eq_1)
  ultimately have "0 \<le> ?y / ?x" "?y / ?x \<le> 1" by blast+
  then have "rnd (?y / ?x) \<in> {0 .. 1}" using assms(1) by (intro rounding_unit [of rnd "?y / ?x"]) simp_all
  moreover have "rnd (?y / ?x) = 1" if "bloom bf1 = bloom bf2" "?x \<noteq> 0"
    using that assms(1) by (simp add: rounding_def)
  moreover have "check_if_union_or_intersection_ok bf1 bf1 bf2 \<noteq> BLOOM_FAILURE"
    using assms(2) by (simp add: BLOOM_SUCCESS_def BLOOM_FAILURE_def)
  then have "bloom_filter_jaccard_index rnd bf1 bf2 = Inr (if ?x = 0 then 1 else rnd (?y / ?x))"
    unfolding bloom_filter_jaccard_index_def pair_counts [OF assms(2-4)] Let_def
    by (simp only: if_False rbind_simps cnt if_distrib [of Inr])
  ultimately show ?thesis by (cases "?x = 0") auto
qed

theorem jaccard_index_bounds_witness:
  "bloom_filter_jaccard_index id (sample_filter\<lparr>bloom := [8, 18]\<rparr>) (sample_filter\<lparr>bloom := [8, 18]\<rparr>) = Inr 1"
proof -
  let ?f = "sample_filter\<lparr>bloom := [8, 18]\<rparr>"
  have "check_if_union_or_intersection_ok ?f ?f ?f = BLOOM_SUCCESS" "length (bloom ?f) = bloom_length ?f"
    unfolding sample_filter_eq by code_simp+
  moreover have "8 * bloom_length ?f < 2 ^ 64" by (simp add: sample_filter_eq)
  ultimately show ?thesis using jaccard_index_bounds [OF rounding_id, of ?f ?f] by auto
qed

section \<open>Estimates\<close>

lemma to_uint64_mono:
  assumes "to_uint64 w = Inr e" "0 \<le> v" "v \<le> w"
  shows "\<exists>d. to_uint64 v = Inr d \<and> d \<le> e"
proof -
  have w: "w < 2 ^ 64" "e = of_nat (nat \<lfloor>w\<rfloor>)" using assms(1) by (auto simp: to_uint64_def split: if_splits)
  have le: "nat \<lfloor>v\<rfloor> \<le> nat \<lfloor>w\<rfloor>" using assms(3) by (intro nat_mono floor_mono)
  have "\<lfloor>w\<rfloor> < 2 ^ 64" using w(1) by (simp add: floor_less_iff)
  then have "nat \<lfloor>w\<rfloor> < 2 ^ 64" by (rule nat_below_2_64)
  then have "(of_nat (nat \<lfloor>v\<rfloor>) :: usize) \<le> e"
    using le w(2) by (simp add: word_le_nat_alt unat_of_nat_usize)
  then show ?thesis using assms(2,3) w(1) by (simp add: to_uint64_def)
qed

lemma to_uint64_of_int:
  assumes "to_uint64 (real_of_int z) = Inr m"
  shows "unat m = nat z"
proof -
  have "real_of_int z < 2 ^ 64" "m = of_nat (nat z)" using assms by (auto simp: to_uint64_def split: if_splits)
  moreover from this(1) have "z < 2 ^ 64" by (metis of_int_less_iff of_int_numeral of_int_power)
  ultimately show ?thesis by (simp only: unat_of_nat_usize nat_below_2_64)
qed

lemma rounding_mono: "rounding rnd \<Longrightarrow> x \<le> y \<Longrightarrow> rnd x \<le> rnd y"
  by (simp add: rounding_def monoD)

lemma estimate_empty:
  assumes "rounding rnd" "m \<noteq> 0" "k \<noteq> 0"
  shows "bloom_filter_estimate_elements_by_values rnd m 0 k = Inr 0"
  using assms by (simp add: bloom_filter_estimate_elements_by_values_def rounding_def to_uint64_def)

lemma estimate_saturated:
  assumes "rounding rnd"
  shows "bloom_filter_estimate_elements_by_values rnd m m k = Inl FloatRange"
proof (cases "m = 0")
  case False
  then have "1 \<le> real (unat m)" by (rule count_ge_one)
  then have "1 \<le> rnd (real (unat m))" using assms by (rule rounding_ge_one [rotated])
  then show ?thesis using assms by (simp add: bloom_filter_estimate_elements_by_values_def rounding_def)
qed (simp add: bloom_filter_estimate_elements_by_values_def)

text \<open>
  More bits give a larger estimate, and an estimate that is defined for more bits is defined for fewer.
\<close>

lemma estimate_mono:
  assumes "rounding rnd" "0 < k" "x \<le> y"
    and "bloom_filter_estimate_elements_by_values rnd m y k = Inr e"
  shows "\<exists>d. bloom_filter_estimate_elements_by_values rnd m x k = Inr d \<and> d \<le> e"
proof -
  let ?m = "rnd (real (unat m))"
  define a where "a X = rnd (1 - rnd (rnd (real (unat X)) / ?m))" for X :: usize
  define c where "c = rnd (?m / rnd (real_of_int k))"
  define v where "v X = - rnd (c * rnd (ln (a X)))" for X
  have run: "bloom_filter_estimate_elements_by_values rnd m X k =
      (if m = 0 \<or> a X \<le> 0 then Inl FloatRange else to_uint64 (v X))" for X
    using assms(2) by (simp add: bloom_filter_estimate_elements_by_values_def a_def c_def v_def Let_def)
  have ok: "m \<noteq> 0" "0 < a y" "to_uint64 (v y) = Inr e" using assms(4) by (auto simp: run split: if_splits)
  have pos: "0 \<le> ?m" using assms(1) by (rule rounding_nonneg) (rule of_nat_0_le_iff)
  have "0 \<le> rnd (real_of_int k)" using assms(1,2) by (simp add: rounding_nonneg)
  then have c: "0 \<le> c" unfolding c_def using assms(1) pos by (simp add: rounding_nonneg)
  have "rnd (real (unat x)) / ?m \<le> rnd (real (unat y)) / ?m"
    using assms(3) unfolding word_le_nat_alt
    by (intro divide_right_mono [OF _ pos] rounding_mono [OF assms(1)]) (simp only: of_nat_le_iff)
  then have "rnd (rnd (real (unat x)) / ?m) \<le> rnd (rnd (real (unat y)) / ?m)" by (rule rounding_mono [OF assms(1)])
  then have "1 - rnd (rnd (real (unat y)) / ?m) \<le> 1 - rnd (rnd (real (unat x)) / ?m)" by (rule diff_left_mono)
  then have le: "a y \<le> a x" unfolding a_def by (rule rounding_mono [OF assms(1)])
  have "0 \<le> rnd (real (unat x))" using assms(1) by (rule rounding_nonneg) (rule of_nat_0_le_iff)
  then have "0 \<le> rnd (real (unat x)) / ?m" using pos by (rule divide_nonneg_nonneg)
  then have "0 \<le> rnd (rnd (real (unat x)) / ?m)" by (rule rounding_nonneg [OF assms(1)])
  then have "a x \<le> 1" unfolding a_def by (intro rounding_le_one [OF assms(1)]) simp
  then have "ln (a x) \<le> 0" using le ok(2) by simp
  then have "rnd (ln (a x)) \<le> 0" by (rule rounding_nonpos [OF assms(1)])
  then have "c * rnd (ln (a x)) \<le> 0" using c by (simp add: mult_nonneg_nonpos)
  then have "0 \<le> v x" unfolding v_def using rounding_nonpos [OF assms(1)] by simp
  moreover have "ln (a y) \<le> ln (a x)" using le ok(2) by simp
  then have "c * rnd (ln (a y)) \<le> c * rnd (ln (a x))" using c by (intro mult_left_mono rounding_mono [OF assms(1)])
  then have "v x \<le> v y" unfolding v_def by (intro le_imp_neg_le rounding_mono [OF assms(1)])
  ultimately show ?thesis using to_uint64_mono [OF ok(3)] le ok(1,2) by (simp add: run)
qed

text \<open>
  Union and intersection of compatible filters. When the estimate for the union is defined, both return
  the combined bits, the estimated count of the intersection is at most that of the union, and every
  element of one of the filters has its bits in the union.
\<close>

lemma combined_count_le: "combined_count (AND) bf1 bf2 \<le> combined_count (OR) bf1 bf2"
  unfolding combined_count_def by (intro sum_list_mono and_count_le)

lemma combined_count_bound: "combined_count f bf1 bf2 \<le> 8 * bloom_length bf1"
  unfolding combined_count_def by (rule sum_bits_bound)

lemma union_and_intersection:
  assumes "rounding rnd" "check_if_union_or_intersection_ok res bf1 bf2 = BLOOM_SUCCESS"
    and "length (bloom bf1) = bloom_length bf1" "length (bloom bf2) = bloom_length bf1"
    and "length (bloom res) = bloom_length bf1" "bloom_length res = bloom_length bf1"
    and "8 * bloom_length bf1 < 2 ^ 64" "0 < sint (number_hashes res)"
    and "bloom_filter_estimate_elements_by_values rnd (number_bits res) (of_nat (combined_count (OR) bf1 bf2))
           (sint (number_hashes res)) = Inr e"
  shows "\<exists>u i. bloom_filter_union rnd res bf1 bf2 = Inr (BLOOM_SUCCESS, u) \<and>
    bloom_filter_intersect rnd res bf1 bf2 = Inr (BLOOM_SUCCESS, i) \<and>
    elements_added i \<le> elements_added u \<and>
    (\<forall>j < 8 * bloom_length bf1.
       (bloom_bit (bloom u) j \<longleftrightarrow> bloom_bit (bloom bf1) j \<or> bloom_bit (bloom bf2) j) \<and>
       (bloom_bit (bloom i) j \<longleftrightarrow> bloom_bit (bloom bf1) j \<and> bloom_bit (bloom bf2) j)) \<and>
    (\<forall>hashes. has_slots hashes bf1 \<or> has_slots hashes bf2 \<longrightarrow> has_slots hashes u)"
proof -
  have "(of_nat (combined_count (AND) bf1 bf2) :: usize) \<le> of_nat (combined_count (OR) bf1 bf2)"
  proof -
    have "combined_count (OR) bf1 bf2 < 2 ^ 64"
      using combined_count_bound assms(7) by (rule le_less_trans)
    moreover from this have "combined_count (AND) bf1 bf2 < 2 ^ 64"
      by (rule le_less_trans [OF combined_count_le])
    ultimately show ?thesis
      unfolding word_le_nat_alt by (simp only: unat_of_nat_usize combined_count_le)
  qed
  from estimate_mono [OF assms(1,8) this assms(9)] obtain d where
    d: "bloom_filter_estimate_elements_by_values rnd (number_bits res) (of_nat (combined_count (AND) bf1 bf2))
      (sint (number_hashes res)) = Inr d" "d \<le> e" by blast
  let ?r = "\<lambda>f e. res\<lparr>bloom := combined f bf1 bf2, elements_added := e\<rparr>"
  have "bloom_filter_union rnd res bf1 bf2 = Inr (BLOOM_SUCCESS, ?r (OR) e)"
      "bloom_filter_intersect rnd res bf1 bf2 = Inr (BLOOM_SUCCESS, ?r (AND) d)"
    unfolding bloom_filter_union_def bloom_filter_intersect_def combine_result [OF assms(2-6)]
    by (simp_all add: assms(9) d(1))
  moreover have "has_slots hashes (?r (OR) e)" if "has_slots hashes bf1 \<or> has_slots hashes bf2" for hashes
    using that by (rule union_has_slots [OF assms(2-4)])
  ultimately show ?thesis using d(2) combined_bits [of _ bf1 bf2] by auto
qed

text \<open>The union of filters that together have all bits set runs into the logarithm of 0.\<close>

lemma union_saturated:
  assumes "rounding rnd" "check_if_union_or_intersection_ok res bf1 bf2 = BLOOM_SUCCESS"
    and "length (bloom bf1) = bloom_length bf1" "length (bloom bf2) = bloom_length bf1"
    and "length (bloom res) = bloom_length bf1" "bloom_length res = bloom_length bf1"
    and "number_bits res = of_nat (combined_count (OR) bf1 bf2)"
  shows "bloom_filter_union rnd res bf1 bf2 = Inl FloatRange"
  unfolding bloom_filter_union_def combine_result [OF assms(2-6)] assms(7) [symmetric]
  by (simp add: estimate_saturated [OF assms(1)])

lemma union_saturated_example:
  "bloom_filter_union id sample_filter (sample_filter\<lparr>bloom := [255, 15]\<rparr>) (sample_filter\<lparr>bloom := [0, 240]\<rparr>) = Inl FloatRange"
proof -
  let ?f = "sample_filter\<lparr>bloom := [255, 15]\<rparr>" and ?g = "sample_filter\<lparr>bloom := [0, 240]\<rparr>"
  have "check_if_union_or_intersection_ok sample_filter ?f ?g = BLOOM_SUCCESS"
      "length (bloom ?f) = bloom_length ?f" "length (bloom ?g) = bloom_length ?f"
      "length (bloom sample_filter) = bloom_length ?f" "bloom_length sample_filter = bloom_length ?f"
      "number_bits sample_filter = of_nat (combined_count (OR) ?f ?g)"
    unfolding sample_filter_eq by code_simp+
  then show ?thesis by (rule union_saturated [OF rounding_id])
qed

section \<open>Sizes at compile time and at run time\<close>

text \<open>
  A filter whose size compiles has at least one bit, so that inserting and checking do not divide by zero.
  Of \<open>gcem\<close> it is used that the logarithm of a probability is negative and that \<open>ceil\<close> does not
  round down; of the roundings that they respect signs and keep the logarithm, which is a \<open>float\<close>.
\<close>

lemma compile_time_num_bits_pos:
  assumes "compile_time_num_bits gcem_log gcem_ceil rf rd n p = Inr m"
    and "gcem_log p < 0" "\<And>x. x \<le> gcem_ceil x" "\<And>x. gcem_ceil x \<in> \<int>"
    and "rounding rf" "\<And>x. rf (- x) = - rf x" "rounding rd" "\<And>x. rd (- x) = - rd x"
    and "rf (gcem_log p) = gcem_log p" "rd (gcem_log p) = gcem_log p"
    and "n \<noteq> 0" "unat n < 2 ^ 63"
  shows "m \<noteq> 0"
proof -
  let ?l = "- gcem_log p"
  have "sint (- n) = - int (unat n)" using assms(11,12) by (rule sint_neg_count)
  then have "rf (real_of_int (sint (- n))) = - rf (real (unat n))" by (simp add: assms(6))
  moreover have "1 \<le> real (unat n)" using assms(11) by (rule count_ge_one)
  then have "1 \<le> rf (real (unat n))" by (rule rounding_ge_one [OF assms(5)])
  ultimately have "?l \<le> rf (real_of_int (sint (- n))) * gcem_log p" using assms(2) by simp
  then have "rf ?l \<le> rf (rf (real_of_int (sint (- n))) * gcem_log p)" by (rule rounding_mono [OF assms(5)])
  then have f: "?l \<le> rf (rf (real_of_int (sint (- n))) * gcem_log p)" (is "_ \<le> ?f") by (simp add: assms(6,9))
  then have "?l \<le> ?f / LOG_TWO_SQUARED" using assms(2) by (simp add: LOG_TWO_SQUARED_def field_simps)
  then have "rd ?l \<le> rd (?f / LOG_TWO_SQUARED)" by (rule rounding_mono [OF assms(7)])
  then have "0 < rd (?f / LOG_TWO_SQUARED)" using assms(2) by (simp add: assms(8,10))
  then have pos: "0 < gcem_ceil (rd (?f / LOG_TWO_SQUARED))" (is "0 < ?c") using assms(3) less_le_trans by blast
  obtain z where z: "?c = real_of_int z" using assms(4) [of "rd (?f / LOG_TWO_SQUARED)"] by (auto elim: Ints_cases)
  then have "0 < z" using pos by simp
  have "to_uint64 ?c = Inr m" using assms(1) unfolding compile_time_num_bits_def .
  then have "unat m = nat z" unfolding z by (rule to_uint64_of_int)
  then show ?thesis using \<open>0 < z\<close> by auto
qed

lemma compile_time_num_bits_pos_example: "compile_time_num_bits (\<lambda>_. - 1) c_ceil id id 12 (1 / 2) = Inr 25 \<and> (25 :: usize) \<noteq> 0"
proof -
  have "sint (- 12 :: usize) = - 12" by simp
  then have run: "compile_time_num_bits (\<lambda>_. - 1) c_ceil id id 12 (1 / 2) = Inr 25"
    by (simp add: compile_time_num_bits_def c_ceil_def LOG_TWO_SQUARED_def to_uint64_def)
  show ?thesis using run compile_time_num_bits_pos [OF run] by (simp add: c_ceil_def rounding_id)
qed

text \<open>
  With exact arithmetic, \<open>__calculate_optimal_hashes\<close> computes what is computed at compile time, but it
  leaves the bit array as it is and sets the length to what it is before it is rounded up to the alignment.
\<close>

lemma calculate_optimal_hashes_compile_time:
  assumes "estimated_elements bf = n" "unat n < 2 ^ 63" "n \<noteq> 0" "0 < KEY_LENGTH c"
  shows "calculate_optimal_hashes c id id p bf =
    rbind (compile_time_num_bits ln c_ceil id id n p) (\<lambda>m.
      rbind (compile_time_num_hashes ln c_ceil c_round id id n p) (\<lambda>k.
        Inr (bf\<lparr>number_hashes := k, number_bits := m, bloom_length := compile_time_bloom_length c m\<rparr>)))"
proof -
  have neg: "sint (- n) = - int (unat n)" using assms(3,2) by (rule sint_neg_count)
  have pos: "sint n = int (unat n)" using assms(2) by (rule sint_count)
  have bits: "compile_time_num_bits ln c_ceil id id n p =
      to_uint64 (c_ceil (real_of_int (- int (unat n)) * ln p / LOG_TWO_SQUARED))"
    by (simp only: compile_time_num_bits_def neg id_apply)
  have "nat \<lceil>real (unat m) / real (KEY_LENGTH c)\<rceil> = compile_time_bloom_length c m" for m
    unfolding compile_time_bloom_length_def using assms(4) by (rule ceil_quotient)
  then show ?thesis
    unfolding calculate_optimal_hashes_def compile_time_num_hashes_def bits assms(1) pos Let_def id_apply
    by (cases "to_uint64 (c_ceil (real_of_int (- int (unat n)) * ln p / LOG_TWO_SQUARED))")
      (simp_all only: rbind_simps of_int_of_nat_eq)
qed

text \<open>
  Nothing makes sure that there is a hash: with a false-positive probability close to 1 there is none, and
  the filter then reports every key as present.
\<close>

lemma check_without_hashes:
  "number_hashes bf = 0 \<Longrightarrow> bloom_filter_check_string_alt hashes k bf = Inr BLOOM_SUCCESS"
  by (simp add: bloom_filter_check_string_alt_def)

lemma no_hashes_example: "compile_time_num_hashes (\<lambda>_. - (1 / 10)) c_ceil c_round id id 100 (9 / 10) = Inr 0"
proof -
  have "sint (- 100 :: usize) = - 100" by simp
  then have "compile_time_num_bits (\<lambda>_. - (1 / 10)) c_ceil id id 100 (9 / 10) = Inr 21"
    by (simp add: compile_time_num_bits_def c_ceil_def LOG_TWO_SQUARED_def to_uint64_def)
  then show ?thesis
    by (simp add: compile_time_num_hashes_def num_hashes_def to_uint32_def c_round_def LOG_TWO_def)
qed

end
