(* ===== verification/Give_Buffers.thy ===== *)
theory Give_Buffers
  imports Dispatch
begin

text \<open>
  What the last part of \<open>insert_into_wqs\<close> does with the page-cache buffers of an SSTable: the loop that
  hands them to the buffer queues of the level below, and the removal from the stock after it. The number of
  new buffers is 0, as in \<open>give_from\<close>: the variable that counts them is hidden where they are collected.
\<close>

section \<open>The share of one SSTable\<close>

lemma give_share_stock:
  assumes "gs_num_new_given st = 0"
  shows "give_share c p old_limit new_buffers 0 m bq st =
    (let n = min (int (unat p) * old_limit) (old_limit - gs_num_old_given st)
     in rbind (give_from_stock (nat n) (gs_sstable st) bq) (\<lambda>(s', bq1).
          Inr (bq1, st\<lparr>gs_sstable := s', gs_num_old_given := gs_num_old_given st + max 0 n\<rparr>)))"
  using assms by (cases st) (simp add: give_share_def Let_def)

lemma give_from_stock_single:
  "give_from_stock n s q = Inr (s', q') \<Longrightarrow> bq_is_single_thread q' = bq_is_single_thread q"
proof (induction n arbitrary: s q)
  case (Suc n)
  have push: "bq_is_single_thread q1 = bq_is_single_thread q" if "bq_push_back b q = Inr q1" for b q1
    using that by (auto simp: bq_push_back_def rbind_eq_Inr Let_def split: if_splits)
  from Suc.prems obtain b q1 where "bq_push_back b q = Inr q1"
      "give_from_stock n (s\<lparr>ss_insert_buffers_from := ss_insert_buffers_from s - 1\<rparr>) q1 = Inr (s', q')"
    by (auto simp: Let_def rbind_eq_Inr)
  then show ?case using push Suc.IH by metis
qed simp

lemma unat_of_nat_uint: "n < 2 ^ 32 \<Longrightarrow> unat (of_nat n :: uint) = n"
  by (simp add: unat_of_nat)

text \<open>The queues of the level, the SSTable and its stock \<open>bs\<close> before the loop; \<open>l\<close> buffers may be given.\<close>

abbreviation give_queue :: "give_state \<Rightarrow> nat \<Rightarrow> buffer_queue" where
  "give_queue st i \<equiv> li_buffer_queues (gs_level st) ! i"

abbreviation give_top :: "give_state \<Rightarrow> nat" where
  "give_top st \<equiv> unat (ss_insert_buffers_from (gs_sstable st))"

definition give_start :: "config \<Rightarrow> uint list \<Rightarrow> decomposition \<Rightarrow> buf list \<Rightarrow> nat \<Rightarrow> give_state \<Rightarrow> bool" where
  "give_start c props d bs l st \<longleftrightarrow>
     length (li_buffer_queues (gs_level st)) = LEVEL_FACTOR c \<and> length props = LEVEL_FACTOR c \<and>
     length (dc_decomposition d) = Suc (LEVEL_FACTOR c) \<and> gs_given_buffers st = replicate (LEVEL_FACTOR c) False \<and>
     gs_num_given st = 0 \<and> gs_num_old_given st = 0 \<and> gs_num_new_given st = 0 \<and>
     l \<le> give_top st \<and> length bs = give_top st \<and>
     take (give_top st) (ss_page_cache_buffers (gs_sstable st)) = map Some bs \<and>
     (\<forall>i < LEVEL_FACTOR c. bq_is_single_thread (give_queue st i) \<and> bq_invar (give_queue st i) \<and> bq_room (give_queue st i) l)"

text \<open>
  The state after the first \<open>n\<close> SSTables of the level, to which \<open>t\<close> buffers were handed: all that may be given if there
  is one among them that has a batch, fewer buffers than is fair, and a proportion that was not truncated to 0.
\<close>

definition serves :: "config \<Rightarrow> uint list \<Rightarrow> decomposition \<Rightarrow> level_info \<Rightarrow> nat \<Rightarrow> bool" where
  "serves c props d li i \<longleftrightarrow> dc_decomposition d ! i \<noteq> 0 \<and> props ! i \<noteq> 0 \<and>
     bq_cur_num_buffers (li_buffer_queues li ! i) < of_nat (max_sstable_height c)"

definition gave :: "config \<Rightarrow> uint list \<Rightarrow> decomposition \<Rightarrow> buf list \<Rightarrow> nat \<Rightarrow> give_state \<Rightarrow> nat \<Rightarrow> nat \<Rightarrow> give_state \<Rightarrow> bool" where
  "gave c props d bs l st n t st' \<longleftrightarrow>
     t = (if \<exists>i < n. serves c props d (gs_level st) i then l else 0) \<and> gs_sstable st' = (gs_sstable st)\<lparr>ss_insert_buffers_from := ss_insert_buffers_from (gs_sstable st) - of_nat t\<rparr> \<and>
     gs_num_old_given st' = int t \<and> gs_num_new_given st' = 0 \<and>
     gs_num_given st' = int (length (filter (\<lambda>i. dc_decomposition d ! i \<noteq> 0) [0 ..< n])) \<and>
     length (gs_given_buffers st') = LEVEL_FACTOR c \<and> length (li_buffer_queues (gs_level st')) = LEVEL_FACTOR c \<and>
     (\<forall>i < LEVEL_FACTOR c. (gs_given_buffers st' ! i \<longleftrightarrow> i < n \<and> dc_decomposition d ! i \<noteq> 0) \<and>
        bq_is_single_thread (give_queue st' i) \<and> bq_invar (give_queue st' i) \<and>
        (\<exists>xs. bq_contents (give_queue st' i) = bq_contents (give_queue st i) @ xs) \<and>
        (n \<le> i \<longrightarrow> give_queue st' i = give_queue st i)) \<and>
     mset (concat (map (\<lambda>i. bq_contents (give_queue st' i)) [0 ..< n])) =
       mset (concat (map (\<lambda>i. bq_contents (give_queue st i)) [0 ..< n])) + mset (drop (length bs - t) bs)"

lemma gave_start: "give_start c props d bs l st \<Longrightarrow> gave c props d bs l st 0 0 st"
  by (simp add: give_start_def gave_def)

lemma give_from_rest:
  assumes "give_start c props d bs l st" "gave c props d bs l st n t st'" "n < LEVEL_FACTOR c" "m \<le> l - t"
  shows "\<exists>q'. give_from_stock m (gs_sstable st') (give_queue st' n) =
      Inr ((gs_sstable st)\<lparr>ss_insert_buffers_from := ss_insert_buffers_from (gs_sstable st) - of_nat (t + m)\<rparr>, q') \<and>
    bq_invar q' \<and> bq_is_single_thread q' \<and>
    bq_contents q' = bq_contents (give_queue st n) @ rev (drop (length bs - (t + m)) (take (length bs - t) bs))"
proof -
  let ?s = "gs_sstable st" and ?s' = "gs_sstable st'" and ?q = "give_queue st' n"
  have q: "?q = give_queue st n" "bq_invar ?q" "bq_is_single_thread ?q" and t: "t \<le> l"
      and s': "?s' = ?s\<lparr>ss_insert_buffers_from := ss_insert_buffers_from ?s - of_nat t\<rparr>"
    using assms(2,3) by (auto simp: gave_def)
  have st: "l \<le> length bs" "length bs = give_top st" "take (length bs) (ss_page_cache_buffers ?s) = map Some bs"
      "bq_room ?q l"
    using assms(1,3) q(1) by (auto simp: give_start_def)
  have tw: "unat (of_nat t :: uint) = t"
    using t st(1,2) unsigned_less [of "ss_insert_buffers_from ?s", where 'a = nat] by (intro unat_of_nat_uint) simp
  then have k: "unat (ss_insert_buffers_from ?s') = length bs - t"
    using t st(1,2) by (simp add: s' unat_sub word_le_nat_alt)
  have "take (length bs - t) (ss_page_cache_buffers ?s') = map Some (take (length bs - t) bs)"
    using arg_cong [OF st(3), of "take (length bs - t)"] by (simp add: s' take_map)
  moreover have "bq_room ?q m" using st(4) assms(4) by (simp add: bq_room_def)
  ultimately obtain q' where q': "give_from_stock m ?s' ?q =
        Inr (?s'\<lparr>ss_insert_buffers_from := ss_insert_buffers_from ?s' - of_nat m\<rparr>, q')" "bq_invar q'"
      "bq_contents q' = bq_contents ?q @ rev (drop (length bs - t - m) (take (length bs - t) bs))"
    using give_from_stock_ok [of m ?s' "take (length bs - t) bs" ?q] k assms(4) t st(1) q(2) by fastforce
  have "bq_is_single_thread q'" using give_from_stock_single [OF q'(1)] q(3) by simp
  moreover have "?s'\<lparr>ss_insert_buffers_from := ss_insert_buffers_from ?s' - of_nat m\<rparr> =
      ?s\<lparr>ss_insert_buffers_from := ss_insert_buffers_from ?s - of_nat (t + m)\<rparr>"
    by (simp add: s' diff_diff_eq)
  ultimately show ?thesis using q' q(1) by (simp add: diff_diff_eq)
qed

text \<open>An SSTable without a batch, or one that has had its share, is skipped.\<close>

lemma give_one_skip:
  assumes "i < length (li_buffer_queues (gs_level st))" "i < length (dc_decomposition d)" "i < length (gs_given_buffers st)"
    and "dc_decomposition d ! i = 0 \<or> gs_given_buffers st ! i"
  shows "give_one c props old_limit new_buffers num_new d spurious i st = Inr st"
  using assms(4) by (auto simp: give_one_def assms(1-3) split: prod.split)

lemma give_round_skip:
  assumes "LEVEL_FACTOR c \<le> length (li_buffer_queues (gs_level st))" "LEVEL_FACTOR c \<le> length (dc_decomposition d)"
    and "LEVEL_FACTOR c \<le> length (gs_given_buffers st)"
    and "\<And>i. i < LEVEL_FACTOR c \<Longrightarrow> dc_decomposition d ! i = 0 \<or> gs_given_buffers st ! i"
  shows "give_round c props old_limit new_buffers num_new d spurious st = Inr st"
proof -
  have "give_one c props old_limit new_buffers num_new d sp i st = Inr st" if "i < LEVEL_FACTOR c" for i sp
    using that assms by (intro give_one_skip) simp_all
  then show ?thesis
    using rfold_Inr [of "[0 ..< LEVEL_FACTOR c]" "\<lambda>s. s = st"
        "\<lambda>i. give_one c props old_limit new_buffers num_new d (spurious i) i" "\<lambda>i s. s" st]
    by (auto simp: give_round_def)
qed

lemma share_truncated:
  assumes "t \<le> l"
  shows "min (int (unat p) * int l) (int l - int t) = (if p = 0 then 0 else int l - int t)"
proof (cases "p = 0")
  case False
  then have "1 * l \<le> unat p * l" by (intro mult_right_mono) (simp_all add: Suc_le_eq unat_gt_0)
  then have "int l \<le> int (unat p) * int l" by (metis of_nat_le_iff of_nat_mult mult_1)
  then show ?thesis using False by simp
qed (use assms in simp)

text \<open>One SSTable after the other: the invariant is kept, whatever the proportions are.\<close>

lemma give_one_gave:
  assumes "give_start c props d bs l st" "gave c props d bs l st n t st'" "n < LEVEL_FACTOR c"
  shows "\<exists>t' st''. give_one c props (int l) new_buffers 0 d spurious n st' = Inr st'' \<and> gave c props d bs l st (Suc n) t' st''"
proof (cases "dc_decomposition d ! n = 0")
  case True
  have skip: "give_one c props (int l) new_buffers 0 d spurious n st' = Inr st'"
    using assms True by (intro give_one_skip) (simp_all add: gave_def give_start_def)
  have "give_queue st' n = give_queue st n" using assms(2,3) by (simp add: gave_def)
  moreover have "\<not> serves c props d (gs_level st) n" using True by (simp add: serves_def)
  ultimately have "gave c props d bs l st (Suc n) t st'" using assms(2) True by (auto simp: gave_def less_Suc_eq)
  with skip show ?thesis by blast
next
  case False
  let ?q = "give_queue st' n"
  have q: "?q = give_queue st n" "bq_is_single_thread ?q" "\<not> gs_given_buffers st' ! n"
      and len: "length (li_buffer_queues (gs_level st')) = LEVEL_FACTOR c" "length (gs_given_buffers st') = LEVEL_FACTOR c"
        "length (dc_decomposition d) = Suc (LEVEL_FACTOR c)" "length props = LEVEL_FACTOR c"
      and num: "gs_num_new_given st' = 0" "gs_num_old_given st' = int t" "t \<le> l"
    using assms by (auto simp: gave_def give_start_def)
  define m where "m = (if bq_cur_num_buffers ?q < of_nat (max_sstable_height c)
    then nat (min (int (unat (props ! n)) * int l) (int l - int t)) else 0)"
  have m: "m \<le> l - t" using num(3) by (simp add: m_def nat_le_iff of_nat_diff)
  from give_from_rest [OF assms m] obtain q' where
      q': "give_from_stock m (gs_sstable st') ?q =
        Inr ((gs_sstable st)\<lparr>ss_insert_buffers_from := ss_insert_buffers_from (gs_sstable st) - of_nat (t + m)\<rparr>, q')"
        "bq_invar q'" "bq_is_single_thread q'"
        "bq_contents q' = bq_contents (give_queue st n) @ rev (drop (length bs - (t + m)) (take (length bs - t) bs))"
    by blast
  let ?st1 = "st'\<lparr>gs_given_buffers := (gs_given_buffers st')[n := True], gs_num_given := gs_num_given st' + 1\<rparr>"
  let ?st2 = "?st1\<lparr>gs_sstable := (gs_sstable st)\<lparr>ss_insert_buffers_from := ss_insert_buffers_from (gs_sstable st) - of_nat (t + m)\<rparr>,
      gs_num_old_given := int (t + m)\<rparr>"
  let ?st3 = "?st2\<lparr>gs_level := (gs_level st')\<lparr>li_buffer_queues := (li_buffer_queues (gs_level st'))[n := q']\<rparr>\<rparr>"
  have share: "(if bq_cur_num_buffers ?q < of_nat (max_sstable_height c)
      then give_share c (props ! n) (int l) new_buffers 0 (dc_num_req_batches d) ?q ?st1 else Inr (?q, ?st1)) = Inr (q', ?st2)"
  proof (cases "bq_cur_num_buffers ?q < of_nat (max_sstable_height c)")
    case True
    have "0 \<le> min (int (unat (props ! n)) * int l) (int l - int t)" using num(3) by simp
    then show ?thesis
      using True q'(1) num m_def by (simp add: give_share_stock Let_def)
  next
    case False
    then have "m = 0" by (simp add: m_def)
    then show ?thesis
      using False q'(1) assms(2) by (cases st') (simp add: gave_def)
  qed
  have "give_one c props (int l) new_buffers 0 d spurious n st' =
      rbind (if bq_cur_num_buffers ?q < of_nat (max_sstable_height c)
        then give_share c (props ! n) (int l) new_buffers 0 (dc_num_req_batches d) ?q ?st1 else Inr (?q, ?st1)) (\<lambda>(bq1, st2).
          rbind (rupd (li_buffer_queues (gs_level st2)) n (release_guard bq1)) (\<lambda>qs.
            Inr (st2\<lparr>gs_level := (gs_level st2)\<lparr>li_buffer_queues := qs\<rparr>\<rparr>)))"
    using q(2,3) len assms(3) False by (simp add: give_one_def Let_def split: prod.split)
  also have "\<dots> = Inr ?st3"
    unfolding share using len(1) assms(3) q'(3) by (simp add: release_guard_def)
  finally have "give_one c props (int l) new_buffers 0 d spurious n st' = Inr ?st3" .
  moreover have "gave c props d bs l st (Suc n) (t + m) ?st3"
  proof -
    have "length bs - (t + m) \<le> length bs - t" by simp
    then have split: "drop (length bs - (t + m)) bs = drop (length bs - (t + m)) (take (length bs - t) bs) @ drop (length bs - t) bs"
      by (metis append_take_drop_id drop_append length_take min.absorb2 diff_le_self diff_is_0_eq drop0)
    have others: "map (\<lambda>i. bq_contents (give_queue ?st3 i)) [0 ..< n] = map (\<lambda>i. bq_contents (give_queue st' i)) [0 ..< n]"
      by simp
    have old: "mset (concat (map (\<lambda>i. bq_contents (give_queue st' i)) [0 ..< n])) =
        mset (concat (map (\<lambda>i. bq_contents (give_queue st i)) [0 ..< n])) + mset (drop (length bs - t) bs)"
      using assms(2) unfolding gave_def by blast
    have "mset (concat (map (\<lambda>i. bq_contents (give_queue ?st3 i)) [0 ..< Suc n])) =
        mset (concat (map (\<lambda>i. bq_contents (give_queue st i)) [0 ..< Suc n])) + mset (drop (length bs - (t + m)) bs)"
      using assms(3) len(1) q'(4) unfolding upt_Suc_append [OF le0] map_append concat_append mset_append others old
      by (simp add: split)
    moreover have "gs_num_given ?st3 = int (length (filter (\<lambda>i. dc_decomposition d ! i \<noteq> 0) [0 ..< Suc n]))"
      using assms(2) False by (simp add: gave_def)
    moreover have "t + m = (if \<exists>i < Suc n. serves c props d (gs_level st) i then l else 0)"
    proof -
      have "min (int (unat (props ! n)) * int l) (int l - int t) = (if props ! n = 0 then 0 else int l - int t)"
        using num(3) by (rule share_truncated)
      then have "m = (if serves c props d (gs_level st) n then l - t else 0)"
        using False q(1) unfolding m_def serves_def by (auto simp: nat_diff_distrib)
      moreover have "t = (if \<exists>i < n. serves c props d (gs_level st) i then l else 0)" using assms(2) by (simp add: gave_def)
      ultimately show ?thesis by (auto simp: less_Suc_eq)
    qed
    moreover have "\<forall>i < LEVEL_FACTOR c. (gs_given_buffers ?st3 ! i \<longleftrightarrow> i < Suc n \<and> dc_decomposition d ! i \<noteq> 0) \<and>
        bq_is_single_thread (give_queue ?st3 i) \<and> bq_invar (give_queue ?st3 i) \<and>
        (\<exists>xs. bq_contents (give_queue ?st3 i) = bq_contents (give_queue st i) @ xs) \<and>
        (Suc n \<le> i \<longrightarrow> give_queue ?st3 i = give_queue st i)"
      using assms(2,3) len q' False by (auto simp: gave_def nth_list_update less_Suc_eq)
    ultimately show ?thesis using len num(1) unfolding gave_def by simp
  qed
  ultimately show ?thesis by blast
qed

lemma give_round_gave:
  assumes "give_start c props d bs l st"
  shows "\<exists>t st'. give_round c props (int l) new_buffers 0 d spurious st = Inr st' \<and> gave c props d bs l st (LEVEL_FACTOR c) t st'"
proof -
  have "\<exists>t st'. rfold (\<lambda>i. give_one c props (int l) new_buffers 0 d (spurious i) i) [0 ..< n] st = Inr st' \<and>
      gave c props d bs l st n t st'" if "n \<le> LEVEL_FACTOR c" for n
    using that
  proof (induction n)
    case 0
    then show ?case using gave_start [OF assms] by auto
  next
    case (Suc n)
    then obtain t st' where st': "rfold (\<lambda>i. give_one c props (int l) new_buffers 0 d (spurious i) i) [0 ..< n] st = Inr st'"
        "gave c props d bs l st n t st'" by auto
    from give_one_gave [OF assms st'(2), of new_buffers "spurious n"] Suc.prems st'(1) show ?case
      by (auto simp: rfold_append)
  qed
  then show ?thesis by (simp add: give_round_def)
qed

section \<open>The loop\<close>

lemma give_loop_stuck:
  assumes "\<And>spurious. give_round c props old_limit new_buffers num_new d spurious st = Inr st"
    and "gs_num_given st < int (unat (dc_num_req_batches d))"
  shows "give_loop c props old_limit new_buffers num_new d spurious n st = None"
proof (rule ccontr)
  let ?I = "\<lambda>c props old_limit new_buffers num_new d st.
    (\<forall>spurious. give_round c props old_limit new_buffers num_new d spurious st = Inr st) \<and>
    gs_num_given st < int (unat (dc_num_req_batches d))"
  assume "give_loop c props old_limit new_buffers num_new d spurious n st \<noteq> None"
  then obtain r where ret: "give_loop c props old_limit new_buffers num_new d spurious n st = Some r" by blast
  have "?I c props old_limit new_buffers num_new d st \<longrightarrow> False"
    by (rule give_loop.raw_induct [where P = "\<lambda>c props old_limit new_buffers num_new d spurious n st r.
          ?I c props old_limit new_buffers num_new d st \<longrightarrow> False", OF _ ret]) (fastforce split: if_splits)
  with assms show False by blast
qed

lemma give_round_done:
  assumes "give_start c props d bs l st0" "gave c props d bs l st0 (LEVEL_FACTOR c) t st"
  shows "give_round c props old_limit new_buffers 0 d spurious st = Inr st"
  using assms by (intro give_round_skip) (auto simp: gave_def give_start_def)

text \<open>
  The loop ends after one pass when every batch of the decomposition belongs to an SSTable of the level. If there is a
  batch of remaining requests as well, which \<open>num_req_batches\<close> counts but no SSTable stands for, it never ends.
\<close>

lemma give_loop_gave:
  assumes "give_start c props d bs l st" "LEVEL_FACTOR c < 2 ^ 31"
    and "dc_num_req_batches d = of_nat (length (filter (\<lambda>a. a \<noteq> 0) (dc_decomposition d)))"
  shows "if dc_decomposition d ! LEVEL_FACTOR c = 0
    then \<exists>t st'. give_loop c props (int l) new_buffers 0 d spurious n st = Some (Inr st') \<and>
      gave c props d bs l st (LEVEL_FACTOR c) t st'
    else give_loop c props (int l) new_buffers 0 d spurious n st = None"
proof -
  let ?l = "LEVEL_FACTOR c" and ?ds = "dc_decomposition d"
  let ?k = "length (filter (\<lambda>i. ?ds ! i \<noteq> 0) [0 ..< ?l])"
  have len: "length ?ds = Suc ?l" and zero: "gs_num_given st = 0" using assms(1) by (simp_all add: give_start_def)
  have "length (filter (\<lambda>a. a \<noteq> 0) ?ds) < 2 ^ 32"
    using length_filter_le [of "\<lambda>a. a \<noteq> 0" ?ds] len assms(2) by simp
  then have "unat (dc_num_req_batches d) = length (filter (\<lambda>a. a \<noteq> 0) ?ds)"
    unfolding assms(3) by (rule unat_of_nat_uint)
  then have goal: "unat (dc_num_req_batches d) = ?k + (if ?ds ! ?l = 0 then 0 else 1)"
    using count_batches_nth [OF len] by simp
  from give_round_gave [OF assms(1), of new_buffers "spurious n"] obtain t st' where
      st': "give_round c props (int l) new_buffers 0 d (spurious n) st = Inr st'" "gave c props d bs l st ?l t st'" by blast
  have given: "gs_num_given st' = int ?k" using st'(2) by (simp add: gave_def)
  show ?thesis
  proof (cases "?ds ! ?l = 0")
    case True
    show ?thesis
    proof (cases "?k = 0")
      case none: True
      then have "give_loop c props (int l) new_buffers 0 d spurious n st = Some (Inr st)"
        using True goal zero by (subst give_loop.simps) simp
      moreover have "give_round c props (int l) new_buffers 0 d (spurious n) st = Inr st"
        using none assms(1) by (intro give_round_skip) (simp_all add: give_start_def filter_empty_conv)
      ultimately show ?thesis using True st' by auto
    next
      case False
      then have "give_loop c props (int l) new_buffers 0 d spurious n st = Some (Inr st')"
        using True goal zero st'(1) given by (subst give_loop.simps, simp, subst give_loop.simps, simp)
      then show ?thesis using True st'(2) by auto
    qed
  next
    case False
    have "give_loop c props (int l) new_buffers 0 d spurious (Suc n) st' = None"
      using give_round_done [OF assms(1) st'(2)] goal False given by (intro give_loop_stuck) simp_all
    then have "give_loop c props (int l) new_buffers 0 d spurious n st = None"
      using False goal zero st'(1) by (subst give_loop.simps) simp
    then show ?thesis using False by simp
  qed
qed

section \<open>Giving buffers\<close>

text \<open>The state the loop starts in.\<close>

definition give_init :: "config \<Rightarrow> sstable_info \<Rightarrow> level_info \<Rightarrow> give_state" where
  "give_init c s li = \<lparr>gs_level = li, gs_sstable = s, gs_given_buffers = replicate (LEVEL_FACTOR c) False,
     gs_num_given = 0, gs_num_old_given = 0, gs_num_new_given = 0\<rparr>"

lemma remove_given:
  assumes "0 < t" "t \<le> l" "l \<le> unat k" "ch_id_of_most_recently_selected_buffer h < k - of_nat l + 1"
  shows "\<exists>h'. remove_buffer_range (k - of_nat t + 1) k h = Inr h'" and "unat (k - of_nat t + 1) = unat k - t + 1"
proof -
  have kt: "unat (k - of_nat x + 1) = unat k - x + 1" if "0 < x" "x \<le> unat k" for x
  proof -
    have "unat (of_nat x :: uint) = x" using that unsigned_less [of k, where 'a = nat] by (intro unat_of_nat_uint) simp
    then have "unat (k - of_nat x) = unat k - x" using that by (simp add: unat_sub word_le_nat_alt)
    moreover have "unat (k - of_nat x) + 1 < 2 ^ 32"
      using calculation that unsigned_less [of k, where 'a = nat] by simp
    ultimately show ?thesis by (simp add: unat_word_ariths)
  qed
  then show u: "unat (k - of_nat t + 1) = unat k - t + 1" using assms by simp
  have "k - of_nat l + 1 \<le> k - of_nat t + 1"
    using kt [of l] u assms(1-3) by (simp add: word_le_nat_alt)
  then have "\<not> k - of_nat t + 1 \<le> ch_id_of_most_recently_selected_buffer h" using assms(4) by simp
  then show "\<exists>h'. remove_buffer_range (k - of_nat t + 1) k h = Inr h'" by (simp add: remove_buffer_range_def Let_def)
qed


definition give_level :: level_info where
  "give_level = sample_level\<lparr>li_buffer_queues :=
     replicate 2 ((new_buffer_queue cmake_config [0, 0, 0, 0] True)\<lparr>bq_cur_num_buffers := 5\<rparr>)\<rparr>"

definition give_decomposition :: "nat \<Rightarrow> uint \<Rightarrow> decomposition" where
  "give_decomposition rest n = \<lparr>dc_decomposition = [4, 0, rest], dc_expected_sstable_sizes = [6, 0],
     dc_num_req_batches = n, dc_total_decomp_size = 6\<rparr>"


end
