(* ===== verification/Concepts.thy ===== *)
theory Concepts
  imports Constants
begin

text \<open>
  The headers of \<^verbatim>\<open>aux_data_structures_concepts/\<close>: what \<open>LSMTree\<close> and the class templates ask of their
  arguments. A concept is a predicate on types; a type is a value, a class is the list of its members, and a
  \<open>requires\<close> expression that names a member the class does not have, or a private one, is false. The classes of
  \<^verbatim>\<open>aux_data_structures_impls/\<close> are described by their member declarations, and
  \<^verbatim>\<open>main.cpp\<close> by the classes it puts together.
\<close>

section \<open>Types and classes\<close>

datatype cname =
    BaseRequest_c | ConnectionRequest_c | ReadWritePool_c | ConnectionPool_c | Stack_c | RequestSegment_c
  | Content_c | RequestBatch_c | WaitQueueNode_c | WaitQueueGuard_c | RequestBatchWaitQueue_c | CacheLocation_c
  | SparseBufferIndex_c | SSTableCacheHelper_c | SSTableInfo_c | SSTableInfoUnaligned_c | CacheBufferEntry_c
  | BloomFilter_c | Filter_c | BufferQueueGuard_c | BufferQueue_c | Decomposition_c | SparseIndex_c
  | LevelInfoGuard_c | LevelInfo_c | MemTable_c

datatype cty =
    Cvoid | Cbool | Cchar | Cint | Cunsigned | Csize_t | Catomic_uchar | Catomic_uint | CRequestType | Cio_uring
  | Cptr cty | Cref cty | Carray cty nat | Cclass cname

datatype access = Public | Private

record cls =
  cl_union :: bool
  cl_base :: "cname option"
  cl_fields :: "(access \<times> cty \<times> string) list"
  cl_methods :: "(access \<times> cty \<times> string \<times> cty list) list"
  cl_ctors :: "cty list list"
  cl_dtor :: bool

type_synonym class_table = "cname \<Rightarrow> cls option"

text \<open>A class without members; constructors and destructor are implicit.\<close>

definition plain_class :: cls where
  "plain_class = \<lparr>cl_union = False, cl_base = None, cl_fields = [], cl_methods = [], cl_ctors = [], cl_dtor = False\<rparr>"

definition public_fields :: "(cty \<times> string) list \<Rightarrow> (access \<times> cty \<times> string) list" where
  "public_fields fs = map (Pair Public) fs"

definition private_fields :: "(cty \<times> string) list \<Rightarrow> (access \<times> cty \<times> string) list" where
  "private_fields fs = map (Pair Private) fs"

definition public_methods :: "(cty \<times> string \<times> cty list) list \<Rightarrow> (access \<times> cty \<times> string \<times> cty list) list" where
  "public_methods ms = map (Pair Public) ms"

section \<open>Expressions in requirements\<close>

definition remove_reference :: "cty \<Rightarrow> cty" where
  "remove_reference t = (case t of Cref u \<Rightarrow> u | _ \<Rightarrow> t)"

definition is_array :: "cty \<Rightarrow> bool" where
  "is_array t = (case t of Carray _ _ \<Rightarrow> True | _ \<Rightarrow> False)"

text \<open>The members of a class and of its base; no class of the program has a base with a base of its own.\<close>

definition members :: "class_table \<Rightarrow> cname \<Rightarrow> (access \<times> cty \<times> string) list" where
  "members E n =
     (case E n of
        None \<Rightarrow> []
      | Some k \<Rightarrow> cl_fields k @
          (case Option.bind (cl_base k) E of None \<Rightarrow> [] | Some b \<Rightarrow> cl_fields b))"

definition field :: "class_table \<Rightarrow> cty \<Rightarrow> string \<Rightarrow> cty option" where
  "field E t x =
     (case remove_reference t of
        Cclass n \<Rightarrow> (case find (\<lambda>(_, _, y). y = x) (members E n) of Some (Public, u, _) \<Rightarrow> Some u | _ \<Rightarrow> None)
      | _ \<Rightarrow> None)"

text \<open>\<open>decltype(e.x.y)\<close> is the declared type of the member.\<close>

fun path :: "class_table \<Rightarrow> cty \<Rightarrow> string list \<Rightarrow> cty option" where
  "path E t [] = Some t"
| "path E t (x # xs) = (case field E t x of None \<Rightarrow> None | Some u \<Rightarrow> path E u xs)"

text \<open>\<open>decltype(*e)\<close> and \<open>decltype(e[0])\<close>: a reference to the element.\<close>

definition deref :: "cty \<Rightarrow> cty option" where
  "deref t = (case remove_reference t of Cptr u \<Rightarrow> Some (Cref u) | Carray u _ \<Rightarrow> Some (Cref u) | _ \<Rightarrow> None)"

definition arithmetic :: "cty \<Rightarrow> bool" where
  "arithmetic t \<longleftrightarrow> t \<in> {Cbool, Cchar, Cint, Cunsigned, Csize_t}"

text \<open>Whether an argument of type \<open>t\<close> can be passed for a parameter of type \<open>p\<close>; pointer conversions do not occur.\<close>

definition converts :: "cty \<Rightarrow> cty \<Rightarrow> bool" where
  "converts p t \<longleftrightarrow> p = t \<or> p = Cref t \<or> arithmetic p \<and> arithmetic t"

text \<open>The type of a call \<open>e.m(args)\<close>.\<close>

definition call :: "class_table \<Rightarrow> cty \<Rightarrow> string \<Rightarrow> cty list \<Rightarrow> cty option" where
  "call E t m args =
     (case remove_reference t of
        Cclass n \<Rightarrow>
          (case Option.bind (E n) (\<lambda>k. find (\<lambda>(_, _, y, _). y = m) (cl_methods k)) of
             Some (Public, r, _, ps) \<Rightarrow> if list_all2 converts ps args then Some r else None
           | _ \<Rightarrow> None)
      | _ \<Rightarrow> None)"

text \<open>\<open>requires C<decltype(...)>\<close>: false when the expression is not valid.\<close>

definition satisfies :: "(cty \<Rightarrow> bool) \<Rightarrow> cty option \<Rightarrow> bool" where
  "satisfies C t = (case t of None \<Rightarrow> False | Some u \<Rightarrow> C u)"

definition is_scalar :: "cty \<Rightarrow> bool" where
  "is_scalar t = (case t of Cvoid \<Rightarrow> False | Cio_uring \<Rightarrow> False | Cref _ \<Rightarrow> False | Carray _ _ \<Rightarrow> False | Cclass _ \<Rightarrow> False | _ \<Rightarrow> True)"

text \<open>
  The implicit destructor is trivial if those of the base and of all members are. A union with a member
  whose destructor is not trivial has to declare its own.
\<close>

inductive trivially_destructible :: "class_table \<Rightarrow> cty \<Rightarrow> bool" for E :: class_table where
  "is_scalar t \<Longrightarrow> trivially_destructible E t"
| "trivially_destructible E t \<Longrightarrow> trivially_destructible E (Carray t n)"
| "E n = Some k \<Longrightarrow> \<not> cl_dtor k \<Longrightarrow> \<forall>b \<in> set_option (cl_base k). trivially_destructible E (Cclass b) \<Longrightarrow>
     \<forall>(_, t, _) \<in> set (cl_fields k). trivially_destructible E t \<Longrightarrow> trivially_destructible E (Cclass n)"

inductive destructible :: "class_table \<Rightarrow> cty \<Rightarrow> bool" for E :: class_table where
  "is_scalar t \<Longrightarrow> destructible E t"
| "destructible E t \<Longrightarrow> destructible E (Carray t n)"
| "E n = Some k \<Longrightarrow> \<not> cl_union k \<Longrightarrow> \<forall>b \<in> set_option (cl_base k). destructible E (Cclass b) \<Longrightarrow>
     \<forall>(_, t, _) \<in> set (cl_fields k). destructible E t \<Longrightarrow> destructible E (Cclass n)"
| "E n = Some k \<Longrightarrow> cl_union k \<Longrightarrow> cl_dtor k \<or> (\<forall>(_, t, _) \<in> set (cl_fields k). trivially_destructible E t) \<Longrightarrow>
     destructible E (Cclass n)"

inductive default_constructible :: "class_table \<Rightarrow> cty \<Rightarrow> bool" for E :: class_table where
  "is_scalar t \<Longrightarrow> default_constructible E t"
| "default_constructible E t \<Longrightarrow> default_constructible E (Carray t n)"
| "E n = Some k \<Longrightarrow> [] \<in> set (cl_ctors k) \<Longrightarrow> default_constructible E (Cclass n)"
| "E n = Some k \<Longrightarrow> cl_ctors k = [] \<Longrightarrow> \<not> cl_union k \<Longrightarrow>
     \<forall>b \<in> set_option (cl_base k). default_constructible E (Cclass b) \<Longrightarrow>
     \<forall>(_, t, _) \<in> set (cl_fields k). default_constructible E t \<Longrightarrow> default_constructible E (Cclass n)"

definition default_initializable :: "class_table \<Rightarrow> cty \<Rightarrow> bool" where
  "default_initializable E t \<longleftrightarrow> destructible E t \<and> default_constructible E t"

definition constructible_from :: "class_table \<Rightarrow> cty \<Rightarrow> cty list \<Rightarrow> bool" where
  "constructible_from E t args \<longleftrightarrow> destructible E t \<and>
     (args = [] \<and> default_constructible E t \<or>
      (case t of
         Cclass n \<Rightarrow> (case E n of None \<Rightarrow> False | Some k \<Rightarrow> \<exists>ps \<in> set (cl_ctors k). list_all2 converts ps args)
       | _ \<Rightarrow> False))"

definition derived_from :: "class_table \<Rightarrow> cty \<Rightarrow> cty \<Rightarrow> bool" where
  "derived_from E d b \<longleftrightarrow>
     (case (d, b) of
        (Cclass m, Cclass n) \<Rightarrow> m = n \<or> Option.bind (E m) cl_base = Some n
      | _ \<Rightarrow> False)"

section \<open>Concepts\<close>

definition BaseRequestLike :: "class_table \<Rightarrow> cty \<Rightarrow> bool" where
  "BaseRequestLike E T \<longleftrightarrow>
     path E T [''req_type''] = Some CRequestType \<and>
     constructible_from E CRequestType [] \<and>
     default_initializable E T"

definition ConnectionRequestLike :: "class_table \<Rightarrow> cty \<Rightarrow> bool" where
  "ConnectionRequestLike E T \<longleftrightarrow>
     path E T [''req_batch_ref''] = Some (Cptr Cvoid) \<and>
     path E T [''client_sock_fd''] = Some Cint \<and>
     path E T [''buffer''] = Some (Cptr Cchar) \<and>
     default_initializable E T"

definition ConnectionRequestReq :: "class_table \<Rightarrow> cty \<Rightarrow> cty \<Rightarrow> bool" where
  "ConnectionRequestReq E T B \<longleftrightarrow> derived_from E T B"

definition ReadWritePoolLike :: "class_table \<Rightarrow> cty \<Rightarrow> bool" where
  "ReadWritePoolLike E T \<longleftrightarrow>
     satisfies (ConnectionRequestLike E \<circ> remove_reference) (Option.bind (path E T [''data'']) deref) \<and>
     path E T [''length''] = Some Cunsigned \<and>
     path E T [''num_sent''] = Some Cunsigned \<and>
     path E T [''present_in_level''] = Some Cbool \<and>
     call E T ''insert_read_write'' [Cptr Cchar, Cint, CRequestType, Cptr Cvoid] = Some Cvoid \<and>
     call E T ''find_index_starting_from'' [Cunsigned, Cptr Cchar] = Some Cint \<and>
     call E T ''remove_via_index'' [Cunsigned] = Some Cvoid"

definition ConnectionPoolLike :: "class_table \<Rightarrow> cty \<Rightarrow> bool" where
  "ConnectionPoolLike E T \<longleftrightarrow>
     satisfies (ConnectionRequestLike E \<circ> remove_reference) (Option.bind (path E T [''connections'']) deref) \<and>
     map_option remove_reference (path E T [''buffer_pool'']) = Some (Cptr Cchar) \<and>
     constructible_from E T [Cunsigned, Cptr Cchar] \<and>
     satisfies (ConnectionRequestLike E \<circ> remove_reference)
       (Option.bind (call E T ''insert'' [Cint, CRequestType]) deref)"

definition StackLike :: "class_table \<Rightarrow> cty \<Rightarrow> bool" where
  "StackLike E T \<longleftrightarrow>
     Option.bind (path E T [''data'']) deref = Some (Cref (Carray Cunsigned 4)) \<and>
     call E T ''push_top'' [Cunsigned, Cunsigned, Cunsigned, Cunsigned] = Some Cvoid \<and>
     call E T ''empty'' [] = Some Cbool \<and>
     call E T ''top'' [] = Some (Cref (Carray Cunsigned 4)) \<and>
     call E T ''pop_top'' [] = Some Cvoid \<and>
     default_initializable E T"

definition RequestSegmentLike :: "class_table \<Rightarrow> cty \<Rightarrow> bool" where
  "RequestSegmentLike E T \<longleftrightarrow>
     path E T [''data''] = Some (Cptr Cchar) \<and>
     call E T ''insert_memtable'' [Cptr Cchar] = Some Cvoid"

definition RequestBatchLike :: "class_table \<Rightarrow> cty \<Rightarrow> bool" where
  "RequestBatchLike E T \<longleftrightarrow>
     satisfies (ReadWritePoolLike E) (path E T [''content'', ''readwrite_pool'']) \<and>
     satisfies (RequestSegmentLike E) (path E T [''content'', ''req_seg'']) \<and>
     constructible_from E T [CRequestType] \<and>
     destructible E T \<and>
     call E T ''insert_read_write'' [Cptr Cchar, Cint, CRequestType] = Some Cvoid"

definition RequestBatchReq :: "class_table \<Rightarrow> cty \<Rightarrow> cty \<Rightarrow> bool" where
  "RequestBatchReq E T B \<longleftrightarrow> derived_from E T B"

definition RequestBatchWaitQueueLike :: "class_table \<Rightarrow> cty \<Rightarrow> bool" where
  "RequestBatchWaitQueueLike E T \<longleftrightarrow>
     path E T [''guard'', ''is_single_thread''] = Some Cbool \<and>
     path E T [''guard'', ''atomic_consumer_guard''] = Some Catomic_uchar \<and>
     path E T [''guard'', ''atomic_producer_guard''] = Some Catomic_uchar \<and>
     path E T [''guard'', ''size''] = Some Catomic_uint \<and>
     satisfies (RequestBatchLike E \<circ> remove_reference) (Option.bind (call E T ''pop_front'' []) deref)"

definition RequestBatchWaitQueuePushBack :: "class_table \<Rightarrow> cty \<Rightarrow> cty \<Rightarrow> bool" where
  "RequestBatchWaitQueuePushBack E T B \<longleftrightarrow>
     RequestBatchWaitQueueLike E T \<and>
     RequestBatchLike E B \<and>
     call E T ''try_push_back'' [Cptr B, Cbool] = Some Cbool \<and>
     call E T ''standard_push_back'' [Cptr B] = Some Cvoid"

definition CacheLocationLike :: "class_table \<Rightarrow> cty \<Rightarrow> bool" where
  "CacheLocationLike E T \<longleftrightarrow>
     path E T [''buffer_id''] = Some Cunsigned \<and>
     path E T [''sstable_offset_boundary''] = Some (Carray Csize_t 2) \<and>
     constructible_from E T [Csize_t, Csize_t, Cunsigned] \<and>
     default_initializable E T"

definition SparseBufferIndexLike :: "class_table \<Rightarrow> cty \<Rightarrow> bool" where
  "SparseBufferIndexLike E T \<longleftrightarrow>
     satisfies (CacheLocationLike E \<circ> remove_reference) (Option.bind (path E T [''cache_locations'']) deref) \<and>
     Option.bind (path E T [''sparse_buffer_index_locations'']) deref = Some (Cref Cunsigned) \<and>
     path E T [''cur_min_invalid_offset''] = Some Csize_t \<and>
     path E T [''id_of_most_recently_selected_buffer''] = Some Cunsigned"

definition CacheBufferEntryLike :: "class_table \<Rightarrow> cty \<Rightarrow> bool" where
  "CacheBufferEntryLike E T \<longleftrightarrow>
     Option.bind (path E T [''key'']) deref = Some (Cref Cchar) \<and>
     Option.bind (path E T [''value'']) deref = Some (Cref Cchar)"

definition SSTableCacheHelperLike :: "class_table \<Rightarrow> cty \<Rightarrow> bool" where
  "SSTableCacheHelperLike E T \<longleftrightarrow>
     default_initializable E T \<and>
     satisfies (SparseBufferIndexLike E) (path E T [''sparse_buffer_index'']) \<and>
     path E T [''free_buffers_left''] = Some Cunsigned \<and>
     path E T [''id_of_least_recently_selected_buffer''] = Some Cunsigned \<and>
     satisfies (CacheLocationLike E) (call E T ''get_buffer_info'' [Csize_t]) \<and>
     call E T ''set_cur_min_invalid_offset'' [Csize_t] = Some Cvoid \<and>
     call E T ''get_cur_min_invalid_offset'' [] = Some Csize_t \<and>
     call E T ''replenish_least_recently_selected_buffer'' [] = Some Cvoid \<and>
     call E T ''map_buffer_to_offset_boundary'' [Cunsigned, Csize_t, Csize_t] = Some Cvoid \<and>
     call E T ''add_buffer'' [] = Some Cvoid \<and>
     call E T ''remove_buffer_range'' [Cunsigned, Cunsigned] = Some Cvoid \<and>
     call E T ''get_id_of_most_recently_selected_buffer'' [] = Some Cunsigned"

definition SSTableInfoLike :: "class_table \<Rightarrow> cty \<Rightarrow> bool" where
  "SSTableInfoLike E T \<longleftrightarrow>
     Option.bind (path E T [''file_path'']) deref = Some (Cref Cchar) \<and>
     path E T [''is_flushed_to''] = Some Cbool \<and>
     path E T [''insert_buffers_from''] = Some Cunsigned \<and>
     map_option remove_reference (Option.bind (path E T [''page_cache_buffers'']) deref) = Some (Cptr Cchar) \<and>
     Option.bind (path E T [''min_key'']) deref = Some (Cref Cchar) \<and>
     Option.bind (path E T [''max_key'']) deref = Some (Cref Cchar) \<and>
     Option.bind (path E T [''io_ring'']) deref = Some (Cref Cio_uring) \<and>
     satisfies (RequestBatchWaitQueueLike E \<circ> remove_reference) (path E T [''req_batch_wq'']) \<and>
     satisfies (SSTableCacheHelperLike E \<circ> remove_reference) (path E T [''cache_helper'']) \<and>
     satisfies (StackLike E \<circ> remove_reference) (path E T [''stack'']) \<and>
     satisfies (RequestBatchLike E \<circ> remove_reference) (Option.bind (path E T [''req_batch'']) deref) \<and>
     path E T [''waiting_on_io''] = Some Cbool \<and>
     path E T [''already_waited''] = Some Cbool \<and>
     path E T [''desired_sstable_offset''] = Some Csize_t"

definition FilterLike :: "class_table \<Rightarrow> cty \<Rightarrow> bool" where
  "FilterLike E T \<longleftrightarrow>
     call E T ''insert_key'' [Cptr Cchar] = Some Cvoid \<and>
     call E T ''prob_contains_key'' [Cptr Cchar] = Some Cbool \<and>
     call E T ''empty'' [] = Some Cbool"

definition BufferQueueLike :: "class_table \<Rightarrow> cty \<Rightarrow> bool" where
  "BufferQueueLike E T \<longleftrightarrow>
     path E T [''guard'', ''is_single_thread''] = Some Cbool \<and>
     path E T [''guard'', ''atomic_guard''] = Some Catomic_uchar \<and>
     map_option remove_reference (Option.bind (path E T [''queue'']) deref) = Some (Cptr Cchar) \<and>
     satisfies is_array (path E T [''queue'']) \<and>
     path E T [''cur_num_buffers''] = Some Cunsigned \<and>
     path E T [''num_new_buffers''] = Some Cunsigned \<and>
     call E T ''front'' [] = Some (Cptr Cchar) \<and>
     call E T ''pop_front'' [] = Some (Cptr Cchar) \<and>
     call E T ''push_back'' [Cptr Cchar] = Some Cvoid"

definition SparseIndexLike :: "config \<Rightarrow> class_table \<Rightarrow> cty \<Rightarrow> bool" where
  "SparseIndexLike c E T \<longleftrightarrow>
     path E T [''index''] = Some (Carray Cchar (2 * KEY_LENGTH c * LEVEL_FACTOR c)) \<and>
     call E T ''insert_range'' [Cptr Cchar, Cptr Cchar, Cunsigned] = Some Cvoid \<and>
     call E T ''get_table_num'' [Cptr Cchar] = Some Cunsigned \<and>
     call E T ''get_table_min_key'' [Cunsigned] = Some (Cptr Cchar) \<and>
     call E T ''get_table_max_key'' [Cunsigned] = Some (Cptr Cchar) \<and>
     call E T ''set_table_min_key'' [Cunsigned, Cptr Cchar] = Some Cvoid \<and>
     call E T ''set_table_max_key'' [Cunsigned, Cptr Cchar] = Some Cvoid \<and>
     call E T ''remove_table'' [Cunsigned] = Some Cvoid \<and>
     default_initializable E T"

definition DecompositionLike :: "class_table \<Rightarrow> cty \<Rightarrow> bool" where
  "DecompositionLike E T \<longleftrightarrow>
     satisfies (RequestBatchLike E \<circ> remove_reference)
       (Option.bind (Option.bind (path E T [''decomposition'']) deref) deref) \<and>
     path E T [''num_req_batches''] = Some Cunsigned \<and>
     path E T [''total_decomp_size''] = Some Cunsigned \<and>
     Option.bind (path E T [''expected_sstable_sizes'']) deref = Some (Cref Cunsigned)"

text \<open>
  The first two requirements lack the second \<open>requires\<close>: they only ask that the members exist, not that
  the types are the same. So it is with the concepts named in \<open>LevelInfoDecompose\<close>, which are not checked.
\<close>

definition LevelInfoLike :: "config \<Rightarrow> class_table \<Rightarrow> cty \<Rightarrow> bool" where
  "LevelInfoLike c E T \<longleftrightarrow>
     path E T [''guard'', ''atomic_guard''] \<noteq> None \<and>
     path E T [''guard'', ''is_single_thread''] \<noteq> None \<and>
     call E T ''set_is_single_thread'' [Cbool] = Some Cvoid \<and>
     satisfies (FilterLike E \<circ> remove_reference) (Option.bind (path E T [''filters'']) deref) \<and>
     satisfies (BufferQueueLike E \<circ> remove_reference) (Option.bind (path E T [''buffer_queues'']) deref) \<and>
     satisfies (SparseIndexLike c E) (path E T [''sparse_index'']) \<and>
     satisfies (SSTableInfoLike E \<circ> remove_reference) (Option.bind (path E T [''sstable_infos'']) deref)"

definition LevelInfoDecompose :: "class_table \<Rightarrow> cty \<Rightarrow> cty \<Rightarrow> bool" where
  "LevelInfoDecompose E T B \<longleftrightarrow>
     satisfies (DecompositionLike E \<circ> remove_reference) (call E T ''decompose'' [Cptr B])"

definition MemTableLike :: "config \<Rightarrow> class_table \<Rightarrow> cty \<Rightarrow> bool" where
  "MemTableLike c E T \<longleftrightarrow>
     path E T [''data''] = Some (Carray Cchar (2 ^ MEMTABLE_SIZE_MB_BITS c * 2 ^ 20)) \<and>
     path E T [''size''] = Some Cunsigned \<and>
     call E T ''read'' [Cptr Cchar, Cptr Cchar] = Some Cbool \<and>
     call E T ''empty_out'' [] = Some Cvoid"

definition MemTableWrite :: "config \<Rightarrow> class_table \<Rightarrow> cty \<Rightarrow> cty \<Rightarrow> bool" where
  "MemTableWrite c E T S \<longleftrightarrow>
     MemTableLike c E T \<and>
     SparseIndexLike c E (remove_reference (Cref S)) \<and>
     call E T ''write'' [Cptr Cchar, Cptr Cchar, Cunsigned, S] = Some Cvoid"

section \<open>The classes\<close>

definition BaseRequest_class :: cls where
  "BaseRequest_class = plain_class\<lparr>
     cl_fields := public_fields [(CRequestType, ''req_type'')],
     cl_ctors := [[CRequestType], []]\<rparr>"

definition ConnectionRequest_class :: "cname \<Rightarrow> cls" where
  "ConnectionRequest_class BaseRequest = plain_class\<lparr>
     cl_base := Some BaseRequest,
     cl_fields := public_fields [(Cptr Cvoid, ''req_batch_ref''), (Cint, ''client_sock_fd''), (Cptr Cchar, ''buffer'')]\<rparr>"

definition ReadWritePool_class :: "cty \<Rightarrow> cls" where
  "ReadWritePool_class ConnectionRequest = plain_class\<lparr>
     cl_fields := public_fields [(Cptr ConnectionRequest, ''data''), (Cunsigned, ''length''), (Cunsigned, ''num_sent''),
       (Cbool, ''present_in_level'')],
     cl_methods := public_methods
       [(Cvoid, ''insert_read_write'', [Cptr Cchar, Cint, CRequestType, Cptr Cvoid]),
        (Cint, ''find_index_starting_from'', [Cunsigned, Cptr Cchar]),
        (Cvoid, ''remove_via_index'', [Cunsigned])]\<rparr>"

definition ConnectionPool_class :: "cty \<Rightarrow> cls" where
  "ConnectionPool_class ConnectionRequest = plain_class\<lparr>
     cl_fields := public_fields [(Cptr ConnectionRequest, ''connections''), (Cptr Cchar, ''buffer_pool'')],
     cl_ctors := [[Cunsigned, Cptr Cchar]],
     cl_methods := public_methods [(Cptr ConnectionRequest, ''insert'', [Cint, CRequestType])]\<rparr>"

definition Stack_class :: "nat \<Rightarrow> cls" where
  "Stack_class len = plain_class\<lparr>
     cl_fields := private_fields [(Cunsigned, ''back'')] @ public_fields [(Carray (Carray Cunsigned 4) len, ''data'')],
     cl_methods := public_methods
       [(Cvoid, ''push_top'', [Cunsigned, Cunsigned, Cunsigned, Cunsigned]),
        (Cref (Carray Cunsigned 4), ''top'', []), (Cvoid, ''pop_top'', []), (Cbool, ''empty'', [])]\<rparr>"

definition RequestSegment_class :: "cty \<Rightarrow> cls" where
  "RequestSegment_class Stack = plain_class\<lparr>
     cl_fields := private_fields [(Stack, ''stack'')] @ public_fields [(Cptr Cchar, ''data'')],
     cl_methods := public_methods [(Cvoid, ''insert_memtable'', [Cptr Cchar])]\<rparr>"

definition Content_class :: "cty \<Rightarrow> cty \<Rightarrow> cls" where
  "Content_class ReadWritePool RequestSegment = plain_class\<lparr>
     cl_union := True,
     cl_fields := public_fields [(ReadWritePool, ''readwrite_pool''), (RequestSegment, ''req_seg'')],
     cl_ctors := [[]]\<rparr>"

definition RequestBatch_class :: "cname \<Rightarrow> cty \<Rightarrow> cls" where
  "RequestBatch_class BaseRequest Content = plain_class\<lparr>
     cl_base := Some BaseRequest,
     cl_fields := public_fields [(Content, ''content'')],
     cl_ctors := [[CRequestType]],
     cl_dtor := True,
     cl_methods := public_methods [(Cvoid, ''insert_read_write'', [Cptr Cchar, Cint, CRequestType])]\<rparr>"

definition WaitQueueGuard_class :: cls where
  "WaitQueueGuard_class = plain_class\<lparr>
     cl_fields := public_fields [(Catomic_uchar, ''atomic_consumer_guard''), (Catomic_uint, ''size''),
       (Catomic_uchar, ''atomic_producer_guard''), (Cbool, ''is_single_thread'')]\<rparr>"

definition RequestBatchWaitQueue_class :: "cty \<Rightarrow> cls" where
  "RequestBatchWaitQueue_class RequestBatch = plain_class\<lparr>
     cl_fields := public_fields [(Cclass WaitQueueGuard_c, ''guard'')] @
       private_fields [(Cptr (Cclass WaitQueueNode_c), ''front''), (Cptr (Cclass WaitQueueNode_c), ''back'')],
     cl_methods := public_methods
       [(Cvoid, ''standard_push_back'', [Cptr RequestBatch]), (Cbool, ''try_push_back'', [Cptr RequestBatch, Cbool]),
        (Cptr RequestBatch, ''pop_front'', [])]\<rparr>"

definition WaitQueueNode_class :: "cty \<Rightarrow> cls" where
  "WaitQueueNode_class RequestBatch = plain_class\<lparr>
     cl_fields := public_fields [(Cptr RequestBatch, ''req_batch''), (Cptr (Cclass WaitQueueNode_c), ''next'')],
     cl_ctors := [[Cptr RequestBatch]]\<rparr>"

definition CacheLocation_class :: cls where
  "CacheLocation_class = plain_class\<lparr>
     cl_fields := public_fields [(Carray Csize_t 2, ''sstable_offset_boundary''), (Cunsigned, ''buffer_id'')],
     cl_ctors := [[Csize_t, Csize_t, Cunsigned], []]\<rparr>"

definition SparseBufferIndex_class :: "cty \<Rightarrow> nat \<Rightarrow> cls" where
  "SparseBufferIndex_class CacheLocation max_num_buffers = plain_class\<lparr>
     cl_fields := public_fields [(Carray CacheLocation max_num_buffers, ''cache_locations''),
       (Carray Cunsigned max_num_buffers, ''sparse_buffer_index_locations''), (Csize_t, ''cur_min_invalid_offset''),
       (Cunsigned, ''id_of_most_recently_selected_buffer'')]\<rparr>"

definition SSTableCacheHelper_class :: "cty \<Rightarrow> cty \<Rightarrow> cls" where
  "SSTableCacheHelper_class SparseBufferIndex CacheLocation = plain_class\<lparr>
     cl_fields := public_fields [(SparseBufferIndex, ''sparse_buffer_index''), (Cunsigned, ''free_buffers_left''),
       (Cunsigned, ''id_of_least_recently_selected_buffer'')],
     cl_ctors := [[]],
     cl_methods := public_methods
       [(Cvoid, ''set_cur_min_invalid_offset'', [Csize_t]), (Csize_t, ''get_cur_min_invalid_offset'', []),
        (Cvoid, ''replenish_least_recently_selected_buffer'', []), (CacheLocation, ''get_buffer_info'', [Csize_t]),
        (Cvoid, ''add_buffer'', []), (Cvoid, ''map_buffer_to_offset_boundary'', [Cunsigned, Csize_t, Csize_t]),
        (Cvoid, ''remove_buffer_range'', [Cunsigned, Cunsigned]),
        (Cunsigned, ''get_id_of_most_recently_selected_buffer'', [])]\<rparr>"

definition CacheBufferEntry_class :: "config \<Rightarrow> cls" where
  "CacheBufferEntry_class c = plain_class\<lparr>
     cl_fields := public_fields [(Carray Cchar (KEY_LENGTH c), ''key''), (Carray Cchar (VALUE_LENGTH c), ''value'')]\<rparr>"

definition SSTableInfo_class :: "config \<Rightarrow> cty \<Rightarrow> cty \<Rightarrow> cty \<Rightarrow> cty \<Rightarrow> nat \<Rightarrow> nat \<Rightarrow> cls" where
  "SSTableInfo_class c RequestBatch RequestBatchWaitQueue SSTableCacheHelper Stack path_length max_num_buffers = plain_class\<lparr>
     cl_fields := public_fields [(RequestBatchWaitQueue, ''req_batch_wq''), (Carray Cchar path_length, ''file_path''),
       (Cbool, ''is_flushed_to''), (Cunsigned, ''insert_buffers_from''), (Carray (Cptr Cchar) max_num_buffers, ''page_cache_buffers''),
       (Carray Cchar (KEY_LENGTH c), ''min_key''), (Carray Cchar (KEY_LENGTH c), ''max_key''), (Cptr Cio_uring, ''io_ring''),
       (SSTableCacheHelper, ''cache_helper''), (Stack, ''stack''), (Cptr RequestBatch, ''req_batch''),
       (Cbool, ''waiting_on_io''), (Cbool, ''already_waited''), (Csize_t, ''desired_sstable_offset'')]\<rparr>"

definition SSTableInfoUnaligned_class :: "config \<Rightarrow> cty \<Rightarrow> cty \<Rightarrow> cty \<Rightarrow> cty \<Rightarrow> nat \<Rightarrow> nat \<Rightarrow> cls" where
  "SSTableInfoUnaligned_class c RequestBatch RequestBatchWaitQueue SSTableCacheHelper Stack path_length max_num_buffers = plain_class\<lparr>
     cl_fields := public_fields [(RequestBatchWaitQueue, ''req_batch_wq''), (Carray Cchar path_length, ''file_path''),
       (Cbool, ''is_flushed_to''), (Cunsigned, ''insert_buffers_from''), (Carray (Cptr Cchar) max_num_buffers, ''page_cache_buffers''),
       (Carray Cchar (KEY_LENGTH c), ''min_key''), (Carray Cchar (KEY_LENGTH c), ''max_key''), (Cptr Cio_uring, ''io_ring''),
       (SSTableCacheHelper, ''cache_helper''), (Stack, ''stack''), (Cptr RequestBatch, ''req_batch''),
       (Cbool, ''waiting_on_io''), (Cbool, ''already_waited''), (Csize_t, ''desired_sstable_offset'')]\<rparr>"

text \<open>The members of \<open>BloomFilter\<close> are not listed: the field is private and nothing asks for them.\<close>

definition Filter_class :: cls where
  "Filter_class = plain_class\<lparr>
     cl_fields := private_fields [(Cclass BloomFilter_c, ''filter'')],
     cl_methods := public_methods
       [(Cvoid, ''insert_key'', [Cptr Cchar]), (Cbool, ''prob_contains_key'', [Cptr Cchar]), (Cbool, ''empty'', [])]\<rparr>"

definition BufferQueueGuard_class :: cls where
  "BufferQueueGuard_class = plain_class\<lparr>
     cl_fields := public_fields [(Catomic_uchar, ''atomic_guard''), (Cbool, ''is_single_thread'')]\<rparr>"

definition BufferQueue_class :: "nat \<Rightarrow> cls" where
  "BufferQueue_class len = plain_class\<lparr>
     cl_fields := private_fields [(Cunsigned, ''queue_front''), (Cunsigned, ''back'')] @
       public_fields [(Cunsigned, ''cur_num_buffers''), (Cunsigned, ''num_new_buffers''), (Carray (Cptr Cchar) len, ''queue''),
         (Cclass BufferQueueGuard_c, ''guard'')],
     cl_methods := public_methods
       [(Cptr Cchar, ''front'', []), (Cvoid, ''push_back'', [Cptr Cchar]), (Cptr Cchar, ''pop_front'', [])]\<rparr>"

definition Decomposition_class :: "config \<Rightarrow> cty \<Rightarrow> cls" where
  "Decomposition_class c RequestBatch = plain_class\<lparr>
     cl_fields := public_fields [(Carray (Cptr RequestBatch) (LEVEL_FACTOR c + 1), ''decomposition''),
       (Carray Cunsigned (LEVEL_FACTOR c), ''expected_sstable_sizes''), (Cunsigned, ''num_req_batches''),
       (Cunsigned, ''total_decomp_size'')]\<rparr>"

definition SparseIndex_class :: "config \<Rightarrow> cls" where
  "SparseIndex_class c = plain_class\<lparr>
     cl_fields := public_fields [(Carray Cchar (2 * KEY_LENGTH c * LEVEL_FACTOR c), ''index'')] @
       private_fields [(Cptr Cchar, ''null_key'')],
     cl_ctors := [[]],
     cl_methods := public_methods
       [(Cvoid, ''insert_range'', [Cptr Cchar, Cptr Cchar, Cunsigned]), (Cvoid, ''remove_table'', [Cunsigned]),
        (Cunsigned, ''get_table_num'', [Cptr Cchar]), (Cptr Cchar, ''get_table_min_key'', [Cunsigned]),
        (Cptr Cchar, ''get_table_max_key'', [Cunsigned]), (Cvoid, ''set_table_min_key'', [Cunsigned, Cptr Cchar]),
        (Cvoid, ''set_table_max_key'', [Cunsigned, Cptr Cchar])]\<rparr>"

definition LevelInfoGuard_class :: cls where
  "LevelInfoGuard_class = plain_class\<lparr>
     cl_fields := public_fields [(Catomic_uchar, ''atomic_guard''), (Cbool, ''is_single_thread'')]\<rparr>"

definition LevelInfo_class :: "config \<Rightarrow> cty \<Rightarrow> cty \<Rightarrow> cty \<Rightarrow> cty \<Rightarrow> cty \<Rightarrow> cty \<Rightarrow> cls" where
  "LevelInfo_class c Filter BufferQueue SparseIndex SSTableInfo Decomposition RequestBatch = plain_class\<lparr>
     cl_fields := public_fields [(Cclass LevelInfoGuard_c, ''guard''), (Carray Filter (LEVEL_FACTOR c), ''filters''),
       (SparseIndex, ''sparse_index''), (Carray BufferQueue (LEVEL_FACTOR c), ''buffer_queues''),
       (Carray SSTableInfo (LEVEL_FACTOR c), ''sstable_infos'')],
     cl_methods := public_methods
       [(Cvoid, ''set_is_single_thread'', [Cbool]), (Decomposition, ''decompose'', [Cptr RequestBatch])]\<rparr>"

definition MemTable_class :: "config \<Rightarrow> cty \<Rightarrow> cls" where
  "MemTable_class c SparseIndex = plain_class\<lparr>
     cl_fields := public_fields [(Carray Cchar (2 ^ MEMTABLE_SIZE_MB_BITS c * 2 ^ 20), ''data''), (Cunsigned, ''size'')],
     cl_ctors := [[]],
     cl_methods := public_methods
       [(Cbool, ''read'', [Cptr Cchar, Cptr Cchar]), (Cvoid, ''write'', [Cptr Cchar, Cptr Cchar, Cunsigned, Cref SparseIndex]),
        (Cvoid, ''empty_out'', [])]\<rparr>"

section \<open>The program\<close>

text \<open>The typedefs of \<open>main\<close>.\<close>

fun main_classes :: "config \<Rightarrow> class_table" where
  "main_classes c BaseRequest_c = Some BaseRequest_class"
| "main_classes c ConnectionRequest_c = Some (ConnectionRequest_class BaseRequest_c)"
| "main_classes c ReadWritePool_c = Some (ReadWritePool_class (Cclass ConnectionRequest_c))"
| "main_classes c ConnectionPool_c = Some (ConnectionPool_class (Cclass ConnectionRequest_c))"
| "main_classes c Stack_c = Some (Stack_class (max_sstable_height c))"
| "main_classes c RequestSegment_c = Some (RequestSegment_class (Cclass Stack_c))"
| "main_classes c Content_c = Some (Content_class (Cclass ReadWritePool_c) (Cclass RequestSegment_c))"
| "main_classes c RequestBatch_c = Some (RequestBatch_class BaseRequest_c (Cclass Content_c))"
| "main_classes c WaitQueueNode_c = Some (WaitQueueNode_class (Cclass RequestBatch_c))"
| "main_classes c WaitQueueGuard_c = Some WaitQueueGuard_class"
| "main_classes c RequestBatchWaitQueue_c = Some (RequestBatchWaitQueue_class (Cclass RequestBatch_c))"
| "main_classes c CacheLocation_c = Some CacheLocation_class"
| "main_classes c SparseBufferIndex_c = Some (SparseBufferIndex_class (Cclass CacheLocation_c) (max_buffer_set_size c))"
| "main_classes c SSTableCacheHelper_c = Some (SSTableCacheHelper_class (Cclass SparseBufferIndex_c) (Cclass CacheLocation_c))"
| "main_classes c SSTableInfo_c = Some (SSTableInfo_class c (Cclass RequestBatch_c) (Cclass RequestBatchWaitQueue_c)
     (Cclass SSTableCacheHelper_c) (Cclass Stack_c) (8 + level_str_len + 1 + sstable_number_str_len) (max_buffer_set_size c))"
| "main_classes c SSTableInfoUnaligned_c = Some (SSTableInfoUnaligned_class c (Cclass RequestBatch_c) (Cclass RequestBatchWaitQueue_c)
     (Cclass SSTableCacheHelper_c) (Cclass Stack_c) (8 + level_str_len + 1 + sstable_number_str_len) (max_buffer_set_size c))"
| "main_classes c CacheBufferEntry_c = Some (CacheBufferEntry_class c)"
| "main_classes c BloomFilter_c = None"
| "main_classes c Filter_c = Some Filter_class"
| "main_classes c BufferQueueGuard_c = Some BufferQueueGuard_class"
| "main_classes c BufferQueue_c = Some (BufferQueue_class (max_buffer_set_size c))"
| "main_classes c Decomposition_c = Some (Decomposition_class c (Cclass RequestBatch_c))"
| "main_classes c SparseIndex_c = Some (SparseIndex_class c)"
| "main_classes c LevelInfoGuard_c = Some LevelInfoGuard_class"
| "main_classes c LevelInfo_c = Some (LevelInfo_class c (Cclass Filter_c) (Cclass BufferQueue_c) (Cclass SparseIndex_c)
     (Cclass SSTableInfo_c) (Cclass Decomposition_c) (Cclass RequestBatch_c))"
| "main_classes c MemTable_c = Some (MemTable_class c (Cclass SparseIndex_c))"

text \<open>What \<open>LSMTree\<close> requires of its template arguments.\<close>

definition LSMTree_requires ::
    "config \<Rightarrow> class_table \<Rightarrow> cty \<Rightarrow> cty \<Rightarrow> cty \<Rightarrow> cty \<Rightarrow> cty \<Rightarrow> cty \<Rightarrow> cty \<Rightarrow> cty \<Rightarrow> cty \<Rightarrow> cty \<Rightarrow> cty \<Rightarrow> cty \<Rightarrow> cty \<Rightarrow>
     cty \<Rightarrow> cty \<Rightarrow> cty \<Rightarrow> cty \<Rightarrow> cty \<Rightarrow> bool" where
  "LSMTree_requires c E MemTable LevelInfo BufferQueue Filter SparseIndex Decomposition SSTableInfo SSTableCacheHelper CacheLocation
     RequestBatch RequestBatchWaitQueue RequestSegment CacheBufferEntry Stack BaseRequest ConnectionPool ConnectionRequest
     ReadWritePool \<longleftrightarrow>
     MemTableLike c E MemTable \<and> LevelInfoLike c E LevelInfo \<and> BufferQueueLike E BufferQueue \<and> FilterLike E Filter \<and>
     SparseIndexLike c E SparseIndex \<and> DecompositionLike E Decomposition \<and> SSTableInfoLike E SSTableInfo \<and>
     SSTableCacheHelperLike E SSTableCacheHelper \<and> CacheLocationLike E CacheLocation \<and> RequestBatchLike E RequestBatch \<and>
     RequestBatchWaitQueueLike E RequestBatchWaitQueue \<and> RequestSegmentLike E RequestSegment \<and>
     CacheBufferEntryLike E CacheBufferEntry \<and> StackLike E Stack \<and> BaseRequestLike E BaseRequest \<and>
     ConnectionPoolLike E ConnectionPool \<and> ConnectionRequestLike E ConnectionRequest \<and> ReadWritePoolLike E ReadWritePool \<and>
     ConnectionRequestReq E ConnectionRequest BaseRequest \<and> RequestBatchReq E RequestBatch BaseRequest \<and>
     LevelInfoDecompose E LevelInfo RequestBatch \<and> RequestBatchWaitQueuePushBack E RequestBatchWaitQueue RequestBatch \<and>
     MemTableWrite c E MemTable SparseIndex"

text \<open>\<open>RingDB\<close>, the instance \<open>main\<close> creates. What the class templates ask of their own arguments is implied.\<close>

definition RingDB_requires :: "config \<Rightarrow> class_table \<Rightarrow> bool" where
  "RingDB_requires c E \<longleftrightarrow>
     LSMTree_requires c E (Cclass MemTable_c) (Cclass LevelInfo_c) (Cclass BufferQueue_c) (Cclass Filter_c) (Cclass SparseIndex_c)
       (Cclass Decomposition_c) (Cclass SSTableInfo_c) (Cclass SSTableCacheHelper_c) (Cclass CacheLocation_c)
       (Cclass RequestBatch_c) (Cclass RequestBatchWaitQueue_c) (Cclass RequestSegment_c) (Cclass CacheBufferEntry_c)
       (Cclass Stack_c) (Cclass BaseRequest_c) (Cclass ConnectionPool_c) (Cclass ConnectionRequest_c) (Cclass ReadWritePool_c)"

section \<open>The program satisfies its concepts\<close>

inductive_simps trivially_destructible_class: "trivially_destructible E (Cclass n)"
inductive_simps trivially_destructible_array: "trivially_destructible E (Carray t n)"
inductive_simps destructible_class: "destructible E (Cclass n)"
inductive_simps destructible_array: "destructible E (Carray t n)"
inductive_simps default_constructible_class: "default_constructible E (Cclass n)"
inductive_simps default_constructible_array: "default_constructible E (Carray t n)"

lemma scalar_simps [simp]:
  "is_scalar t \<Longrightarrow> trivially_destructible E t" "is_scalar t \<Longrightarrow> destructible E t"
  "is_scalar t \<Longrightarrow> default_constructible E t"
  by (rule trivially_destructible.intros destructible.intros default_constructible.intros; assumption)+

lemma is_scalar_simps [simp]:
  "is_scalar Cbool" "is_scalar Cchar" "is_scalar Cint" "is_scalar Cunsigned" "is_scalar Csize_t" "is_scalar Catomic_uchar"
  "is_scalar Catomic_uint" "is_scalar CRequestType" "is_scalar (Cptr t)" "\<not> is_scalar (Carray t n)" "\<not> is_scalar (Cclass k)"
  by (simp_all add: is_scalar_def)

text \<open>For classes of the table the rules apply once the class is looked up.\<close>

lemma lifetime_class:
  assumes "E n = Some k"
  shows "trivially_destructible E (Cclass n) \<longleftrightarrow> \<not> cl_dtor k \<and>
      (\<forall>b \<in> set_option (cl_base k). trivially_destructible E (Cclass b)) \<and>
      (\<forall>(_, t, _) \<in> set (cl_fields k). trivially_destructible E t)"
    and "destructible E (Cclass n) \<longleftrightarrow>
      (if cl_union k then cl_dtor k \<or> (\<forall>(_, t, _) \<in> set (cl_fields k). trivially_destructible E t)
       else (\<forall>b \<in> set_option (cl_base k). destructible E (Cclass b)) \<and> (\<forall>(_, t, _) \<in> set (cl_fields k). destructible E t))"
    and "default_constructible E (Cclass n) \<longleftrightarrow> [] \<in> set (cl_ctors k) \<or> cl_ctors k = [] \<and> \<not> cl_union k \<and>
      (\<forall>b \<in> set_option (cl_base k). default_constructible E (Cclass b)) \<and>
      (\<forall>(_, t, _) \<in> set (cl_fields k). default_constructible E t)"
  using assms by (auto simp: trivially_destructible_class [of E n] destructible_class [of E n] default_constructible_class [of E n])

lemmas lifetime_simps =
  lifetime_class trivially_destructible_array destructible_array
  default_constructible_array default_initializable_def constructible_from_def

lemmas class_defs =
  plain_class_def public_fields_def private_fields_def public_methods_def
  BaseRequest_class_def ConnectionRequest_class_def ReadWritePool_class_def ConnectionPool_class_def Stack_class_def
  RequestSegment_class_def Content_class_def RequestBatch_class_def WaitQueueGuard_class_def RequestBatchWaitQueue_class_def
  CacheLocation_class_def SparseBufferIndex_class_def SSTableCacheHelper_class_def CacheBufferEntry_class_def
  SSTableInfo_class_def Filter_class_def BufferQueueGuard_class_def BufferQueue_class_def Decomposition_class_def
  SparseIndex_class_def LevelInfoGuard_class_def LevelInfo_class_def MemTable_class_def

lemmas member_simps =
  field_def members_def call_def deref_def satisfies_def remove_reference_def is_array_def converts_def arithmetic_def class_defs

lemma base_request: "BaseRequestLike (main_classes c) (Cclass BaseRequest_c)"
  by (simp add: BaseRequestLike_def member_simps lifetime_simps)

lemma connection_request: "ConnectionRequestLike (main_classes c) (Cclass ConnectionRequest_c)"
  by (simp add: ConnectionRequestLike_def member_simps lifetime_simps)

lemma read_write_pool: "ReadWritePoolLike (main_classes c) (Cclass ReadWritePool_c)"
  by (simp add: ReadWritePoolLike_def connection_request member_simps)

lemma connection_pool: "ConnectionPoolLike (main_classes c) (Cclass ConnectionPool_c)"
  by (simp add: ConnectionPoolLike_def connection_request member_simps lifetime_simps)

lemma stack: "StackLike (main_classes c) (Cclass Stack_c)"
  by (simp add: StackLike_def member_simps lifetime_simps)

lemma request_segment: "RequestSegmentLike (main_classes c) (Cclass RequestSegment_c)"
  by (simp add: RequestSegmentLike_def member_simps)

lemma request_batch: "RequestBatchLike (main_classes c) (Cclass RequestBatch_c)"
  by (simp add: RequestBatchLike_def read_write_pool request_segment member_simps lifetime_simps)

lemma wait_queue: "RequestBatchWaitQueueLike (main_classes c) (Cclass RequestBatchWaitQueue_c)"
  by (simp add: RequestBatchWaitQueueLike_def request_batch member_simps)

lemma cache_location: "CacheLocationLike (main_classes c) (Cclass CacheLocation_c)"
  by (simp add: CacheLocationLike_def member_simps lifetime_simps)

lemma sparse_buffer_index: "SparseBufferIndexLike (main_classes c) (Cclass SparseBufferIndex_c)"
  by (simp add: SparseBufferIndexLike_def cache_location member_simps)

lemma cache_helper: "SSTableCacheHelperLike (main_classes c) (Cclass SSTableCacheHelper_c)"
  by (simp add: SSTableCacheHelperLike_def sparse_buffer_index cache_location member_simps lifetime_simps)

lemma sstable_info: "SSTableInfoLike (main_classes c) (Cclass SSTableInfo_c)"
  by (simp add: SSTableInfoLike_def wait_queue cache_helper stack request_batch member_simps)

lemma filter_class: "FilterLike (main_classes c) (Cclass Filter_c)"
  by (simp add: FilterLike_def member_simps)

lemma buffer_queue_class: "BufferQueueLike (main_classes c) (Cclass BufferQueue_c)"
  by (simp add: BufferQueueLike_def member_simps)

lemma sparse_index_class: "SparseIndexLike c (main_classes c) (Cclass SparseIndex_c)"
  by (simp add: SparseIndexLike_def member_simps lifetime_simps)

lemma decomposition_class: "DecompositionLike (main_classes c) (Cclass Decomposition_c)"
  by (simp add: DecompositionLike_def request_batch member_simps)

lemma level_info_class: "LevelInfoLike c (main_classes c) (Cclass LevelInfo_c)"
  by (simp add: LevelInfoLike_def filter_class buffer_queue_class sparse_index_class sstable_info member_simps)

lemma memtable_class: "MemTableLike c (main_classes c) (Cclass MemTable_c)"
  by (simp add: MemTableLike_def member_simps)

lemma ring_db_relations:
  "ConnectionRequestReq (main_classes c) (Cclass ConnectionRequest_c) (Cclass BaseRequest_c)"
  "RequestBatchReq (main_classes c) (Cclass RequestBatch_c) (Cclass BaseRequest_c)"
  "LevelInfoDecompose (main_classes c) (Cclass LevelInfo_c) (Cclass RequestBatch_c)"
  "RequestBatchWaitQueuePushBack (main_classes c) (Cclass RequestBatchWaitQueue_c) (Cclass RequestBatch_c)"
  "MemTableWrite c (main_classes c) (Cclass MemTable_c) (Cclass SparseIndex_c)"
  "CacheBufferEntryLike (main_classes c) (Cclass CacheBufferEntry_c)"
  by (simp_all add: ConnectionRequestReq_def RequestBatchReq_def LevelInfoDecompose_def RequestBatchWaitQueuePushBack_def
      MemTableWrite_def CacheBufferEntryLike_def derived_from_def wait_queue request_batch memtable_class sparse_index_class
      decomposition_class member_simps)


text \<open>
  The comments beside the public arrays are right: with a private one the concepts fail. And a concept that only
  mentions a type does not check it: a level whose guard is made of two \<open>int\<close>s is still \<open>LevelInfoLike\<close>.
\<close>

lemma private_members_rejected:
  "\<not> StackLike ((main_classes c)(Stack_c \<mapsto> Stack_class n\<lparr>cl_fields :=
      private_fields [(Cunsigned, ''back''), (Carray (Carray Cunsigned 4) n, ''data'')]\<rparr>)) (Cclass Stack_c)"
  "\<not> BufferQueueLike ((main_classes c)(BufferQueue_c \<mapsto> BufferQueue_class n\<lparr>cl_fields :=
      private_fields [(Carray (Cptr Cchar) n, ''queue'')]\<rparr>)) (Cclass BufferQueue_c)"
  by (simp_all add: StackLike_def BufferQueueLike_def member_simps)

lemma level_guard_unchecked:
  "LevelInfoLike cmake_config ((main_classes cmake_config)(LevelInfoGuard_c \<mapsto> plain_class\<lparr>cl_fields :=
      public_fields [(Cint, ''atomic_guard''), (Cint, ''is_single_thread'')]\<rparr>)) (Cclass LevelInfo_c)"
  by (simp add: LevelInfoLike_def FilterLike_def BufferQueueLike_def SparseIndexLike_def SSTableInfoLike_def
      RequestBatchWaitQueueLike_def SSTableCacheHelperLike_def SparseBufferIndexLike_def CacheLocationLike_def StackLike_def
      RequestBatchLike_def ReadWritePoolLike_def ConnectionRequestLike_def RequestSegmentLike_def member_simps lifetime_simps)

end
