(* ===== verification/Spec2Isabelle.thy ===== *)
theory Spec2Isabelle
  imports Program_Start Wait_Queue_Steps Test_Client Bloom_Measures Give_Buffers Concepts
begin

text \<open>
  \<^bold>\<open>RingDB\<close> is a key-value store in C++20: a log-structured merge tree whose threads share no locks
  but spin guards and talk to each other and to the kernel through \<open>io_uring\<close>. This library models
  the program under \<^verbatim>\<open>src/\<close> function by function and proves what it does and what it does
  not do.

  \<^bold>\<open>The program.\<close> A network thread (\<open>network_thread_routine\<close>) accepts connections, receives requests
  into batches and sends answers. The main thread (\<open>start_ringdb\<close>) looks keys up in the memtables,
  collects reads it cannot answer into a batch for the first level of SSTables, and turns a full
  memtable into a compaction. Batches go down the levels through \<open>insert_into_wqs\<close>, which splits them
  over the SSTables of a level and puts the parts into wait queues. Worker threads
  (\<open>sstable_worker_thread\<close>) own ranges of SSTables: they open and read the files at start-up, then take
  batches from the wait queues, search pages held in page-cache buffers, order reads and writes, pass
  batches on and exchange buffers with the level above.

  \<^bold>\<open>The theories.\<close>
  \<^item> \<open>RingDB_Prelude\<close>: the result type of code that may run into undefined behaviour (\<open>ub + 'a\<close>, with
    \<open>rbind\<close> and \<open>rfold\<close>; with \<open>option\<close> around it, \<open>lbind\<close> and \<open>lfold\<close>, where a loop may not end),
    array access with bounds, byte blocks, \<open>memcmp\<close>.
  \<^item> \<open>Search\<close>, \<open>Fifo\<close>: the interfaces. \<open>sorted_array\<close> is the binary search several classes repeat, and
    \<open>fifo\<close> the contract of the two queues; both are interpreted on the classes' own models.
  \<^item> \<open>Constants\<close>: \<^verbatim>\<open>constinit_constants.hpp\<close>, the values of \<^verbatim>\<open>CMakeLists.txt\<close>, alignment.
  \<^item> \<open>Buffer_Queue\<close>, \<open>Wait_Queue\<close>, \<open>Stack_Impl\<close>, \<open>Sparse_Index\<close>, \<open>Mem_Table\<close>, \<open>Cache_Helper\<close>,
    \<open>Read_Write_Pool\<close>, \<open>Request_Batch\<close>, \<open>Bloom_Filter\<close>, \<open>Bloom_Measures\<close>, \<open>Level_Info\<close>: one class, or a
    class and its parts, of \<^verbatim>\<open>aux_data_structures_impls/\<close> each, as a record with one definition for
    every member function. Lists of optional cells are arrays whose cells may be uninitialised; the
    wait queue's nodes live in an explicit heap, batches in a store of addresses, socket buffers and
    pages in byte lists, so that aliasing and deletion are visible.
  \<^item> \<open>Guards\<close>: the acquire and release patterns of all atomic guards as a step relation over any number
    of threads, with its reachable states. \<open>Wait_Queue_Steps\<close>: one push and one pop of a wait queue, a step
    for every access to shared memory, and all their interleavings.
  \<^item> \<open>Network\<close>, \<open>Main_Thread\<close>, \<open>Dispatch\<close>, \<open>Buffer_Exchange\<close>, \<open>SSTable_Read\<close>, \<open>Startup\<close>, \<open>Worker_Init\<close>,
    \<open>Worker\<close>: the functions of \<^verbatim>\<open>lsm_tree.hpp\<close>, in that order \<open>network_thread_routine\<close>,
    \<open>start_ringdb\<close>, \<open>insert_into_wqs\<close>, the exchange of buffers (\<open>try_add_buffers_nonblockingly\<close> and the
    idle branch of a worker), \<open>try_sstable_tree_read_in_memory\<close> with \<open>move_down_to_children\<close>,
    \<open>initialize\<close>, and the two loops of \<open>sstable_worker_thread\<close>. \<open>Give_Buffers\<close> has what the last part of
    \<open>insert_into_wqs\<close> does with buffers once it is reached.
  \<^item> \<open>Network_Start\<close>: what the network thread does before its loop, and what it can receive from a kernel that
    completes only what was submitted. \<open>Test_Client\<close>: \<^verbatim>\<open>test_ringdb.hpp\<close> and the format of requests.
  \<^item> \<open>Shapes\<close>, \<open>RingDB_System\<close>, \<open>Program_Start\<close>: the threads together. \<open>Shapes\<close> has the structural invariant of
    each thread's operations, \<open>RingDB_System\<close> the turns of all threads on shared memory as a step relation,
    with its reachable states, and \<open>Program_Start\<close> the way from \<open>main\<close> to the first of these states.
  \<^item> \<open>Concepts\<close>: the headers of \<^verbatim>\<open>aux_data_structures_concepts/\<close> as predicates on types, the member
    declarations of the classes, and the classes \<^verbatim>\<open>main.cpp\<close> puts together.
  \<^item> This theory: what holds across threads.

  \<^bold>\<open>What is shown.\<close> The containers: both queues are first-in first-out (one of them one element late),
  the optimised \<open>try_push_back\<close> is the plain one on all branches but one, requests are inserted at their
  place by key and none is lost, the range table and the stack give back what was stored, the page
  search is a search in a search tree, bit counts, the Jaccard index, the false-positive rate and the
  estimated number of elements have the expected bounds, parallel insertion into the filter does not depend on the order. The threads:
  answers are sent once and to the right client, reads of a new database change hands without loss,
  parts of a batch reach the queues of their SSTables and the loop ends, the last level returns a batch,
  a worker keeps to its own SSTables, a request that is received keeps its type and its key,
  initialization keeps the shape of the database and opens every file once, every state the threads reach
  together has the shape of the first one, and a push and a pop of a queue of three or more
  batches do not disturb each other in whatever order their steps are taken. The classes of the program satisfy the
  concepts of its templates in every configuration. And where the code does
  not do what it means to, the theorem says what it does: guards that admit everybody, a first write that is out
  of bounds, a dispatch that is undefined on every call, so that from the start of the program on nothing gets
  to the SSTables or to a file, a network thread that cannot read the first request, a queue of one batch whose
  last node is used after it was deleted, a buffer that two SSTables own, a traversal, a start-up or a
  distribution of buffers that never ends.

  \<^bold>\<open>Undefined behaviour, loops and time.\<close> Whatever C++ leaves undefined (access outside an array, through a
  null, wild or dangling pointer, division by zero, a read of a variable never assigned, a reversed range) is
  an error value, so that a theorem that an operation returns \<open>Inr\<close> also says that it is defined.
  Counted loops are structural recursion or folds. Loops that may run for ever
  (\<open>log2_ceil_loop\<close>, \<open>drain_loop\<close>, \<open>tree_read_loop\<close>, \<open>queue_loop\<close>, \<open>give_loop\<close>, \<open>init_loop\<close>,
  \<open>wait_network_ringfd\<close>, \<open>test_loop\<close>) are partial functions into \<open>option\<close>, with \<open>None\<close> for not returning; no fuel is
  used. Machine integers are words of their width where they can wrap.

  \<^bold>\<open>Assumptions.\<close> The kernel's submission queues are never full, and the ring pointers are valid (the
  code never assigns them). Atomics are sequentially consistent. Outside \<open>Guards\<close> and
  \<open>Wait_Queue_Steps\<close> threads take turns that are whole: a completion, a batch of requests, the visit of an
  SSTable; a guard acquired in a loop is 1 afterwards. Completions, messages and spurious failures of
  \<open>compare_exchange_weak\<close> are arguments that the theorems quantify over, as are the
  contents of pages, the functions of the library \<open>gcem\<close>, and the rounding of floating-point operations, of
  which only monotonicity (and, for the sizes of a filter, that it respects signs) is used.

  \<^bold>\<open>Not modelled.\<close> Creating threads, rings,
  sockets, memory maps and CPU affinities are calls of the operating system in straight-line code; their
  results are arguments. The second copy of the bloom filter header is not
  included by the program: its constructor and its check, which differ, are modelled, the rest is the same text.
  \<open>bloom_filter_destroy\<close> does not compile when instantiated. Of overload resolution and conversions \<open>Concepts\<close> has
  what the classes need, and of alignment only the powers of two in \<open>Constants\<close>.

  \<^bold>\<open>Open.\<close> The interleaving of workers inside a visit beyond the guards and the wait queue, and a compaction
  followed through a database whose dispatch is repaired.
\<close>

section \<open>Properties across components\<close>

lemma sends_gone: "sends c a k (map gone_request es) = []"
  by (induction es arbitrary: k) (simp_all add: gone_request_def)

lemma gone_all: "gone (map gone_request es) = length es"
  by (induction es) (simp_all add: gone_def gone_request_def)



end
